(* ===== verification/Prelude.thy ===== *)
theory Prelude
  imports Main "HOL-Library.Word" "HOL-Library.List_Lexorder" "HOL-Library.Char_ord"
    "HOL-Library.Product_Lexorder" "HOL-Library.Multiset" "HOL-Library.AList"
begin

text \<open>
  Shared vocabulary of the development: the types every component uses (bytes, Go's
  \<open>int\<close>, clock readings), the collections of rewrite rules the component proofs are
  carried by, and generic facts on lists, sorting and splitting into chunks.
\<close>

section \<open>Types\<close>

type_synonym byte = "8 word"
type_synonym bytes = "byte list"

text \<open>
  A clock reading is a number of nanoseconds since the Unix epoch; \<open>time_zero\<close> is the
  zero value of Go's \<open>time.Time\<close> (1 January of year 1), which is before every reading of
  a real clock.
\<close>

type_synonym time = int

definition time_zero :: time where
  "time_zero = - 62135596800000000000"

definition unix_milli :: "time \<Rightarrow> int" where
  "unix_milli t = t div 1000000"

section \<open>Collections\<close>

named_theorems reader_laws \<open>what one read does to the stream a reader denotes\<close>
named_theorems log_simps \<open>the abstract per-generation log\<close>
named_theorems http_simps \<open>what the response writers do\<close>

section \<open>Lists\<close>

text \<open>Cutting a list into blocks of \<open>n\<close>; only the last block may be shorter.\<close>

function chunks :: "nat \<Rightarrow> 'a list \<Rightarrow> 'a list list" where
  "chunks n xs = (if n = 0 \<or> xs = [] then [] else take n xs # chunks n (drop n xs))"
  by pat_completeness auto
termination
  by (relation "measure (\<lambda>(n, xs). length xs)") auto

declare chunks.simps [simp del]

lemma chunks_Nil [simp]: "chunks n [] = []"
  by (simp add: chunks.simps)

lemma chunks_step: "0 < n \<Longrightarrow> xs \<noteq> [] \<Longrightarrow> chunks n xs = take n xs # chunks n (drop n xs)"
  by (simp add: chunks.simps [of n xs])

lemma concat_chunks [simp]: "0 < n \<Longrightarrow> concat (chunks n xs) = xs"
proof (induction n xs rule: chunks.induct)
  case (1 n xs)
  then show ?case by (cases "xs = []") (simp_all add: chunks_step)
qed

lemma chunks_bounds: "c \<in> set (chunks n xs) \<Longrightarrow> c \<noteq> [] \<and> length c \<le> n"
proof (induction n xs rule: chunks.induct)
  case (1 n xs)
  then show ?case by (cases "n = 0 \<or> xs = []") (auto simp: chunks.simps [of n xs])
qed

lemma chunks_eq_Nil_iff: "0 < n \<Longrightarrow> chunks n xs = [] \<longleftrightarrow> xs = []"
  by (auto simp: chunks.simps [of n xs])

lemma chunks_snoc:
  assumes "n dvd length xs" and "0 < n" and "ys \<noteq> []" and "length ys \<le> n"
  shows "chunks n (xs @ ys) = chunks n xs @ [ys]"
  using assms
proof (induction n xs rule: chunks.induct)
  case (1 n xs)
  show ?case
  proof (cases "xs = []")
    case True
    with 1 show ?thesis by (simp add: chunks_step)
  next
    case False
    with 1(2) have "n \<le> length xs" by (simp add: dvd_imp_le)
    moreover from 1(2) this have "n dvd length (drop n xs)" by (simp add: dvd_diff_nat)
    ultimately show ?thesis using 1 False by (simp add: chunks_step [of n])
  qed
qed

lemma length_chunks:
  assumes "n dvd length xs" and "0 < n"
  shows "length (chunks n xs) = length xs div n"
  using assms
proof (induction n xs rule: chunks.induct)
  case (1 n xs)
  show ?case
  proof (cases "xs = []")
    case False
    with 1(2) have le: "n \<le> length xs" by (simp add: dvd_imp_le)
    moreover from 1(2) this have "n dvd length (drop n xs)" by (simp add: dvd_diff_nat)
    ultimately show ?thesis using 1 False by (simp add: chunks_step [of n xs] le_div_geq)
  qed simp
qed

text \<open>
  A sorting routine is pinned down by its specification when the keys are distinct: two
  lists with the same elements, both sorted by an injective key, are equal. This is what
  makes the outcome of Go's unstable \<open>sort.Slice\<close> and the random iteration order of a Go
  map irrelevant where it is used below.
\<close>

lemma sorted_key_unique:
  assumes "mset xs = mset ys" and "sorted (map f xs)" and "sorted (map f ys)"
    and "distinct (map f xs)"
  shows "xs = ys"
proof (rule map_sorted_distinct_set_unique [of f xs ys])
  have set: "set xs = set ys" using assms(1) by (metis set_mset_mset)
  show "inj_on f (set xs \<union> set ys)" using assms(4) set by (simp add: distinct_map)
  have "mset (map f xs) = mset (map f ys)" using assms(1) by simp
  then show "distinct (map f ys)" using assms(4) by (metis mset_eq_imp_distinct_iff)
  show "set xs = set ys" by (rule set)
qed (use assms in auto)

lemma sort_key_perm:
  assumes "mset xs = mset ys" and "distinct (map f xs)"
  shows "sort_key f xs = sort_key f ys"
proof (rule sorted_key_unique [of _ _ f])
  show "distinct (map f (sort_key f xs))"
    using assms(2) by (metis distinct_map distinct_sort set_sort)
qed (use assms in auto)

lemma sort_key_append_max:
  assumes "\<forall>x \<in> set xs. f x < f y" and "distinct (map f xs)"
  shows "sort_key f (xs @ [y]) = sort_key f xs @ [y]"
proof (rule sorted_key_unique [of _ _ f])
  show "sorted (map f (sort_key f xs @ [y]))"
    using assms(1) by (auto simp: sorted_append intro: less_imp_le)
  have "distinct (map f (xs @ [y]))" using assms by auto
  then show "distinct (map f (sort_key f (xs @ [y])))"
    by (metis distinct_map distinct_sort set_sort)
qed auto

text \<open>The running maximum a loop keeps, as a maximum over the elements it looked at.\<close>

lemma Max_insert_max: "finite B \<Longrightarrow> Max (insert (max a b) B) = Max (insert a (insert b B))"
  for a :: "'b :: linorder"
  by (cases "B = {}") (simp_all add: max.assoc)

lemma fold_running_max:
  "fold (\<lambda>x h. if P x \<and> f x > h then f x else h) xs a = Max (insert a (f ` {x \<in> set xs. P x}))"
  for a :: "'b :: linorder"
proof (induction xs arbitrary: a)
  case (Cons x xs)
  have ins: "{y \<in> set (x # xs). P y} = (if P x then insert x {y \<in> set xs. P y} else {y \<in> set xs. P y})"
    by auto
  have "max a (f x) = (if f x > a then f x else a)" by (auto simp: max_def)
  moreover have "Max (insert (max a (f x)) (f ` {y \<in> set xs. P y})) =
      Max (insert a (insert (f x) (f ` {y \<in> set xs. P y})))"
    by (rule Max_insert_max) simp
  ultimately show ?case using Cons.IH ins by (cases "P x") (auto split: if_splits)
qed simp

lemma AList_update_new: "k \<notin> fst ` set al \<Longrightarrow> AList.update k v al = al @ [(k, v)]"
  by (induction al) auto

lemma sort_key_map: "sort_key f (map g xs) = map g (sort_key (\<lambda>x. f (g x)) xs)"
proof (induction xs)
  case (Cons x xs)
  have "insort_key f (g x) (map g ys) = map g (insort_key (\<lambda>x. f (g x)) x ys)" for ys
    by (induction ys) auto
  with Cons show ?case by simp
qed simp

text \<open>
  A sorted list is determined by its keys, when each element is determined by its key.
\<close>

lemma sort_key_by_index:
  assumes "distinct (map f xs)" and "finite A" and "f ` set xs = A"
    and "\<And>x. x \<in> set xs \<Longrightarrow> x = h (f x)"
  shows "sort_key f xs = map h (sorted_list_of_set A)"
proof -
  have "map f (sort_key f xs) = sorted_list_of_set A"
  proof (rule sorted_distinct_set_unique)
    show "distinct (map f (sort_key f xs))" using assms(1) by (simp add: distinct_map)
  qed (use assms in auto)
  moreover have "map h (map f (sort_key f xs)) = sort_key f xs"
    by (simp add: comp_def) (metis (no_types, lifting) assms(4) map_idI set_sort)
  ultimately show ?thesis by simp
qed

section \<open>Contiguous numbering\<close>

text \<open>The numbers of the elements are exactly 1 to their count: no gap and no repetition.\<close>

definition contiguous :: "('a \<Rightarrow> int) \<Rightarrow> 'a list \<Rightarrow> bool" where
  "contiguous f rs \<longleftrightarrow> distinct (map f rs) \<and> f ` set rs = {1..int (length rs)}"

lemma contiguous_Nil [simp]: "contiguous f []"
  by (simp add: contiguous_def)

lemma contiguous_sorted:
  assumes "contiguous f rs"
  shows "map f (sort_key f rs) = map (\<lambda>i. int i + 1) [0..<length rs]"
proof (rule sorted_distinct_set_unique)
  show "distinct (map f (sort_key f rs))"
    using assms by (simp add: contiguous_def distinct_map)
  show "sorted (map (\<lambda>i. int i + 1) [0..<length rs])"
    by (simp add: sorted_iff_nth_mono)
  show "distinct (map (\<lambda>i. int i + 1) [0..<length rs])"
    by (simp add: distinct_map inj_on_def)
  have "{1..int n} = (\<lambda>i. int i + 1) ` {..<n}" for n
  proof (intro set_eqI iffI)
    fix x assume "x \<in> {1..int n}"
    then show "x \<in> (\<lambda>i. int i + 1) ` {..<n}" by (intro image_eqI [of _ _ "nat (x - 1)"]) auto
  qed auto
  then show "set (map f (sort_key f rs)) = set (map (\<lambda>i. int i + 1) [0..<length rs])"
    using assms by (simp add: contiguous_def lessThan_atLeast0)
qed simp

lemma contiguous_upto: "contiguous f rs \<Longrightarrow> sort (map f rs) = [1..int (length rs)]"
  by (rule sorted_distinct_set_unique) (auto simp: contiguous_def)

lemma contiguous_nth:
  assumes "contiguous f rs" and "i < length rs"
  shows "f (sort_key f rs ! i) = int i + 1"
  using contiguous_sorted [OF assms(1)] assms(2)
  by (metis (no_types, lifting) add_0 diff_zero length_map length_upt nth_map nth_upt)

lemma contiguous_range: "contiguous f rs \<Longrightarrow> r \<in> set rs \<Longrightarrow> 1 \<le> f r \<and> f r \<le> int (length rs)"
  unfolding contiguous_def by (metis atLeastAtMost_iff image_eqI)

lemma contiguous_inj: "contiguous f rs \<Longrightarrow> r \<in> set rs \<Longrightarrow> r' \<in> set rs \<Longrightarrow> f r = f r' \<Longrightarrow> r = r'"
  by (auto simp: contiguous_def distinct_map dest: inj_onD)

lemma contiguous_Max: "contiguous f rs \<Longrightarrow> rs \<noteq> [] \<Longrightarrow> Max (f ` set rs) = int (length rs)"
proof -
  assume "contiguous f rs" "rs \<noteq> []"
  then have "f ` set rs = {1..int (length rs)}" "1 \<le> int (length rs)"
    by (auto simp: contiguous_def Suc_le_eq)
  then show ?thesis by (simp add: Max_eq_iff)
qed

lemma contiguous_snoc:
  assumes "contiguous f rs" and "f r = int (length rs) + 1"
  shows "contiguous f (rs @ [r])"
proof -
  have "f ` set (rs @ [r]) = insert (int (length rs) + 1) {1..int (length rs)}"
    using assms by (simp add: contiguous_def)
  also have "\<dots> = {1..int (length rs) + 1}" by auto
  finally show ?thesis using assms by (auto simp: contiguous_def)
qed

lemma sort_key_snoc_next:
  assumes "contiguous f rs" and "f r = int (length rs) + 1"
  shows "sort_key f (rs @ [r]) = sort_key f rs @ [r]"
proof (rule sort_key_append_max)
  show "\<forall>x \<in> set rs. f x < f r" using contiguous_range [OF assms(1)] assms(2) by fastforce
  show "distinct (map f rs)" using assms(1) by (simp add: contiguous_def)
qed

lemma filter_partition_length:
  assumes "finite A" and "\<And>x. x \<in> set xs \<Longrightarrow> P x \<Longrightarrow> f x \<in> A"
  shows "length (filter P xs) = (\<Sum>a \<in> A. length (filter (\<lambda>x. P x \<and> f x = a) xs))"
  using assms(2)
proof (induction xs)
  case (Cons x xs)
  have split: "length (filter (\<lambda>y. P y \<and> f y = a) (x # xs)) =
      (if P x \<and> f x = a then 1 else 0) + length (filter (\<lambda>y. P y \<and> f y = a) xs)" for a
    by simp
  have "(\<Sum>a \<in> A. if P x \<and> f x = a then 1 else (0 :: nat)) = (if P x then 1 else 0)"
    using assms(1) Cons.prems [of x] by auto
  with Cons show ?case by (simp only: split sum.distrib) auto
qed simp

lemma append_sep_inject:
  assumes "s @ c # s' = t @ c # t'" and "c \<notin> set s" and "c \<notin> set t"
  shows "s = t \<and> s' = t'"
  using assms
proof (induction s arbitrary: t)
  case Nil
  then show ?case by (cases t) auto
next
  case (Cons a s)
  then show ?case by (cases t) auto
qed

end
