(* ===== verification/Readers.thy ===== *)
theory Readers
  imports Sha256
begin

text \<open>
  Every \<open>io.Reader\<close> the program builds, as one datatype, because the readers wrap each
  other: the network body of a request, the counting wrapper of \<open>server.maxBody\<close>, the
  digest-checking wrapper of the auth middleware, and, on the way out, \<open>bytes.Reader\<close>
  and the \<open>chunkReader\<close> over a result set. \<open>Read\<close> is one call of the interface;
  \<open>io.ReadAll\<close>, \<open>io.ReadFull\<close> and \<open>io.Copy\<close> are the loops of the standard library over
  it. A reader denotes a stream: the bytes it will deliver and the error that ends it
  (\<open>stream\<close>). The laws of one read are stated on that stream and lifted to the loops, so
  nothing downstream depends on how the network fragments a body.
\<close>

section \<open>The readers\<close>

datatype rd_err =
    EOF
  | ErrUnexpectedEOF
  | ErrBodyDigestMismatch
  | ErrBodyTooLarge
  | ErrOther string

text \<open>
  The body of a request as it arrives: the bytes still to come, how many of them each
  coming read delivers at most (an arbitrary script; zero is a read that delivers nothing
  and no error; past its end a read takes all it can), the error that ends the stream
  (\<open>EOF\<close> for a complete body, \<open>ErrUnexpectedEOF\<close> where \<open>net/http\<close> saw the connection end
  before the declared length or the last chunk), and whether that error comes together
  with the last bytes or on a read of its own. All of it is allowed by the contract of
  \<open>io.Reader\<close>.
\<close>

record conn =
  c_data :: bytes
  c_frag :: "nat list"
  c_final :: rd_err
  c_joined :: bool

datatype reader =
    ConnBody conn
  | CountingBody reader int int bool
      \<comment> \<open>server.countingBody: rc, limit, read, guard.over\<close>
  | DigestBody reader bytes string bool
      \<comment> \<open>middlewares.digestVerifyingBody: rc, bytes hashed so far, want, failed\<close>
  | BytesReader bytes
  | ChunkReader "bytes list" "string option" bytes "rd_err option"
      \<comment> \<open>blobstore.chunkReader: rows still to come, rows.Err at their end, buf, err\<close>

type_synonym read_result = "bytes \<times> rd_err option \<times> reader"

definition conn_Read :: "nat \<Rightarrow> conn \<Rightarrow> bytes \<times> rd_err option \<times> conn" where
  "conn_Read m c =
     (if c_data c = [] then ([], Some (c_final c), c)
      else let lim = (case c_frag c of [] \<Rightarrow> m | f # _ \<Rightarrow> min f m);
               rest = drop lim (c_data c)
           in (take lim (c_data c),
               if rest = [] \<and> c_joined c then Some (c_final c) else None,
               c\<lparr>c_data := rest, c_frag := tl (c_frag c)\<rparr>))"

text \<open>\<open>countingBody.Read\<close>, given what the wrapped reader answered.\<close>

definition countingBody_Read :: "int \<Rightarrow> int \<Rightarrow> bool \<Rightarrow> read_result \<Rightarrow> read_result" where
  "countingBody_Read limit rd over res =
     (case res of (out, err, rc) \<Rightarrow>
        let rd' = rd + int (length out)
        in if rd' > limit then (out, Some ErrBodyTooLarge, CountingBody rc limit rd' True)
           else (out, err, CountingBody rc limit rd' over))"

text \<open>\<open>digestVerifyingBody.Read\<close> past its \<open>failed\<close> check, given what the wrapped reader answered.\<close>

definition digestVerifyingBody_Read :: "bytes \<Rightarrow> string \<Rightarrow> read_result \<Rightarrow> read_result" where
  "digestVerifyingBody_Read hashed want res =
     (case res of (out, err, rc) \<Rightarrow>
        let hashed' = hashed @ out
        in if err = Some EOF \<and> sha256_hex hashed' \<noteq> want
           then (out, Some ErrBodyDigestMismatch, DigestBody rc hashed' want True)
           else (out, err, DigestBody rc hashed' want False))"

text \<open>
  \<open>chunkReader.Read\<close>: rows are fetched until one holds bytes; the end of the rows is
  remembered as the sticky error (the error of the result set, or \<open>EOF\<close>).
\<close>

fun chunkReader_Read ::
  "nat \<Rightarrow> bytes list \<Rightarrow> string option \<Rightarrow> bytes \<Rightarrow> rd_err option \<Rightarrow> read_result" where
  "chunkReader_Read m rows rowsErr (b # buf) err =
     (take m (b # buf), None, ChunkReader rows rowsErr (drop m (b # buf)) err)"
| "chunkReader_Read m rows rowsErr [] (Some e) = ([], Some e, ChunkReader rows rowsErr [] (Some e))"
| "chunkReader_Read m [] rowsErr [] None =
     (let e = (case rowsErr of None \<Rightarrow> EOF | Some t \<Rightarrow> ErrOther t)
      in ([], Some e, ChunkReader [] rowsErr [] (Some e)))"
| "chunkReader_Read m (r # rows) rowsErr [] None = chunkReader_Read m rows rowsErr r None"

text \<open>One call \<open>Read(p)\<close> with \<open>m = len(p)\<close>: the bytes, the error, the reader afterwards.\<close>

primrec Read :: "nat \<Rightarrow> reader \<Rightarrow> read_result" where
  "Read m (ConnBody c) = (case conn_Read m c of (out, err, c') \<Rightarrow> (out, err, ConnBody c'))"
| "Read m (CountingBody rc limit rd over) = countingBody_Read limit rd over (Read m rc)"
| "Read m (DigestBody rc hashed want failed) =
     (if failed then ([], Some ErrBodyDigestMismatch, DigestBody rc hashed want failed)
      else digestVerifyingBody_Read hashed want (Read m rc))"
| "Read m (BytesReader bs) =
     (if bs = [] then ([], Some EOF, BytesReader []) else (take m bs, None, BytesReader (drop m bs)))"
| "Read m (ChunkReader rows rowsErr buf err) = chunkReader_Read m rows rowsErr buf err"

text \<open>The flag \<open>guard.over\<close> that a counting wrapper has raised, seen through the wrappers.\<close>

primrec reader_over :: "reader \<Rightarrow> bool" where
  "reader_over (ConnBody c) = False"
| "reader_over (CountingBody rc limit rd over) = (over \<or> reader_over rc)"
| "reader_over (DigestBody rc hashed want failed) = reader_over rc"
| "reader_over (BytesReader bs) = False"
| "reader_over (ChunkReader rows rowsErr buf err) = False"

section \<open>Progress: what bounds the number of reads\<close>

primrec reads_left :: "reader \<Rightarrow> nat" where
  "reads_left (ConnBody c) = length (c_data c) + length (c_frag c)"
| "reads_left (CountingBody rc limit rd over) = reads_left rc"
| "reads_left (DigestBody rc hashed want failed) = reads_left rc"
| "reads_left (BytesReader bs) = length bs"
| "reads_left (ChunkReader rows rowsErr buf err) = length buf + length (concat rows)"

lemma conn_Read_progress:
  "conn_Read m c = (out, None, c') \<Longrightarrow> 0 < m \<Longrightarrow>
     length (c_data c') + length (c_frag c') < length (c_data c) + length (c_frag c)"
  by (auto simp: conn_Read_def Let_def split: if_splits list.splits)

lemma chunkReader_Read_progress:
  "chunkReader_Read m rows rowsErr buf err = (out, None, r') \<Longrightarrow> 0 < m \<Longrightarrow>
     reads_left r' < length buf + length (concat rows)"
  by (induction m rows rowsErr buf err rule: chunkReader_Read.induct) (auto simp: Let_def)

lemma Read_progress: "Read m r = (out, None, r') \<Longrightarrow> 0 < m \<Longrightarrow> reads_left r' < reads_left r"
proof (induction r arbitrary: out r')
  case (ConnBody c)
  then show ?case by (auto split: prod.splits dest: conn_Read_progress)
next
  case (CountingBody rc limit rd over)
  then show ?case
    by (auto simp: countingBody_Read_def Let_def split: prod.splits if_splits)
next
  case (DigestBody rc hashed want failed)
  then show ?case
    by (auto simp: digestVerifyingBody_Read_def Let_def split: prod.splits if_splits)
next
  case (BytesReader bs)
  then show ?case by (auto split: if_splits)
next
  case (ChunkReader rows rowsErr buf err)
  then show ?case by (auto dest: chunkReader_Read_progress)
qed

section \<open>The loops of package io\<close>

text \<open>
  \<open>io.ReadAll\<close>: reads until an error; \<open>EOF\<close> is success. The size of the spare capacity
  it offers a read varies with its growth strategy; 512, its first buffer, stands for it.
\<close>

function ReadAll :: "reader \<Rightarrow> (rd_err + bytes) \<times> reader" where
  "ReadAll r =
     (case Read 512 r of
        (out, None, r') \<Rightarrow>
          (case ReadAll r' of (res, r'') \<Rightarrow> (map_sum id (\<lambda>rest. out @ rest) res, r''))
      | (out, Some e, r') \<Rightarrow> (if e = EOF then Inr out else Inl e, r'))"
  by pat_completeness auto
termination
  by (relation "measure reads_left") (auto dest: Read_progress [OF sym])

text \<open>
  \<open>io.ReadAtLeast\<close> with \<open>min\<close> the length of the buffer, \<open>acc\<close> what it holds so far. As in
  the library, an error that arrives with the bytes that fill the buffer is dropped, and
  \<open>EOF\<close> after some bytes becomes \<open>ErrUnexpectedEOF\<close>.
\<close>

function ReadAtLeast :: "nat \<Rightarrow> bytes \<Rightarrow> reader \<Rightarrow> read_result" where
  "ReadAtLeast m acc r =
     (if m \<le> length acc then (acc, None, r)
      else case Read (m - length acc) r of
             (out, None, r') \<Rightarrow> ReadAtLeast m (acc @ out) r'
           | (out, Some e, r') \<Rightarrow>
               (acc @ out,
                if m \<le> length (acc @ out) then None
                else if acc @ out \<noteq> [] \<and> e = EOF then Some ErrUnexpectedEOF
                else Some e,
                r'))"
  by pat_completeness auto
termination
  by (relation "measure (\<lambda>(m, acc, r). reads_left r)") (auto dest: Read_progress [OF sym])

definition ReadFull :: "nat \<Rightarrow> reader \<Rightarrow> read_result" where
  "ReadFull m r = ReadAtLeast m [] r"

text \<open>\<open>io.Copy\<close>: what reaches the writer, and the error it reports (\<open>EOF\<close> is none).\<close>

function Copy :: "reader \<Rightarrow> bytes \<times> rd_err option" where
  "Copy r =
     (case Read 32768 r of
        (out, None, r') \<Rightarrow> (case Copy r' of (rest, e) \<Rightarrow> (out @ rest, e))
      | (out, Some e, r') \<Rightarrow> (out, if e = EOF then None else Some e))"
  by pat_completeness auto
termination
  by (relation "measure reads_left") (auto dest: Read_progress [OF sym])

declare ReadAll.simps [simp del] ReadAtLeast.simps [simp del] Copy.simps [simp del]

section \<open>The stream a reader denotes\<close>

primrec stream :: "reader \<Rightarrow> bytes \<times> rd_err" where
  "stream (ConnBody c) = (c_data c, c_final c)"
| "stream (CountingBody rc limit rd over) =
     (case stream rc of (bs, e) \<Rightarrow>
        (bs, if rd + int (length bs) > limit then ErrBodyTooLarge else e))"
| "stream (DigestBody rc hashed want failed) =
     (if failed then ([], ErrBodyDigestMismatch)
      else case stream rc of (bs, e) \<Rightarrow>
             (bs, if e = EOF \<and> sha256_hex (hashed @ bs) \<noteq> want then ErrBodyDigestMismatch else e))"
| "stream (BytesReader bs) = (bs, EOF)"
| "stream (ChunkReader rows rowsErr buf err) =
     (case err of
        Some e \<Rightarrow> (buf, e)
      | None \<Rightarrow> (buf @ concat rows, case rowsErr of None \<Rightarrow> EOF | Some t \<Rightarrow> ErrOther t))"

abbreviation content :: "reader \<Rightarrow> bytes" where
  "content r \<equiv> fst (stream r)"

abbreviation ending :: "reader \<Rightarrow> rd_err" where
  "ending r \<equiv> snd (stream r)"

text \<open>
  What one read does to the stream: it takes the bytes it delivers off the front, keeps
  the ending, and reports an error only when that is the ending and, but for an overrun,
  nothing is left. \<open>read_ok e r res\<close> says so for the result \<open>res\<close> of a read of \<open>r\<close>.
\<close>

definition read_ok :: "nat \<Rightarrow> reader \<Rightarrow> read_result \<Rightarrow> bool" where
  "read_ok m r res \<longleftrightarrow>
     (case res of (out, err, r') \<Rightarrow>
        content r = out @ content r' \<and> ending r' = ending r \<and> length out \<le> m \<and>
        (\<forall>e. err = Some e \<longrightarrow> e = ending r \<and> (content r' = [] \<or> e = ErrBodyTooLarge)))"

lemma read_ok_conn: "read_ok m (ConnBody c) (Read m (ConnBody c))"
  by (auto simp: read_ok_def conn_Read_def Let_def split: prod.splits if_splits list.splits)

lemma read_okE:
  assumes "read_ok m r res"
  obtains out err r' where "res = (out, err, r')" and "content r = out @ content r'"
    and "ending r' = ending r" and "length out \<le> m"
    and "\<And>e. err = Some e \<Longrightarrow> e = ending r" 
    and "\<And>e. err = Some e \<Longrightarrow> content r' = [] \<or> e = ErrBodyTooLarge"
  using assms by (cases res) (auto simp: read_ok_def)

lemma read_ok_counting:
  assumes "read_ok m rc (Read m rc)"
  shows "read_ok m (CountingBody rc limit rd over) (Read m (CountingBody rc limit rd over))"
  using assms
proof (rule read_okE)
  fix out err rc'
  assume rd: "Read m rc = (out, err, rc')" "content rc = out @ content rc'"
    "ending rc' = ending rc" "length out \<le> m"
    and fin: "\<And>e. err = Some e \<Longrightarrow> e = ending rc"
      "\<And>e. err = Some e \<Longrightarrow> content rc' = [] \<or> e = ErrBodyTooLarge"
  show ?thesis
  proof (cases "rd + int (length out) > limit")
    case True
    with rd show ?thesis by (simp add: read_ok_def countingBody_Read_def case_prod_unfold)
  next
    case False
    with rd show ?thesis using fin
      by (cases err) (fastforce simp: read_ok_def countingBody_Read_def case_prod_unfold)+
  qed
qed

lemma read_ok_digest:
  assumes "read_ok m rc (Read m rc)"
  shows "read_ok m (DigestBody rc hashed want failed) (Read m (DigestBody rc hashed want failed))"
  using assms
proof (rule read_okE)
  fix out err rc'
  assume rd: "Read m rc = (out, err, rc')" "content rc = out @ content rc'"
    "ending rc' = ending rc" "length out \<le> m"
    and fin: "\<And>e. err = Some e \<Longrightarrow> e = ending rc"
      "\<And>e. err = Some e \<Longrightarrow> content rc' = [] \<or> e = ErrBodyTooLarge"
  note defs = read_ok_def digestVerifyingBody_Read_def case_prod_unfold
  consider (failed) failed | (go_on) "\<not> failed" "err = None"
    | (stop) e where "\<not> failed" "err = Some e" by (cases err) auto
  then show ?thesis
  proof cases
    case stop
    from fin [OF stop(2)] show ?thesis
      using rd stop by (cases "e = EOF") (auto simp: defs)
  qed (use rd in \<open>simp_all add: defs\<close>)
qed

lemma read_ok_chunk:
  "read_ok m (ChunkReader rows rowsErr buf err) (chunkReader_Read m rows rowsErr buf err)"
proof (induction m rows rowsErr buf err rule: chunkReader_Read.induct)
  case (1 m rows rowsErr b buf err)
  then show ?case by (auto simp: read_ok_def append_take_drop_id [symmetric] split: option.splits
        simp del: append_take_drop_id)
next
  case (2 m rows rowsErr e)
  then show ?case by (simp add: read_ok_def)
next
  case (3 m rowsErr)
  then show ?case by (auto simp: read_ok_def Let_def)
next
  case (4 m r rows rowsErr)
  then show ?case by (auto simp: read_ok_def split: prod.splits)
qed

lemma Read_ok [reader_laws]: "read_ok m r (Read m r)"
proof (induction r)
  case (BytesReader bs)
  then show ?case by (auto simp: read_ok_def)
next
  case (ChunkReader rows rowsErr buf err)
  then show ?case by (simp add: read_ok_chunk)
qed (blast intro: read_ok_conn read_ok_counting read_ok_digest)+

lemma Read_streamD:
  assumes "Read m r = (out, err, r')"
  shows "content r = out @ content r'" and "ending r' = ending r" and "length out \<le> m"
    and "err = Some e \<Longrightarrow> e = ending r"
    and "err = Some e \<Longrightarrow> content r' = [] \<or> e = ErrBodyTooLarge"
  using Read_ok [of m r] assms by (auto simp: read_ok_def)

section \<open>The loops, on streams\<close>

text \<open>
  \<open>ReadAll\<close> returns the whole stream when it ends in \<open>EOF\<close> and the ending otherwise,
  however it was fragmented.
\<close>

theorem ReadAll_stream:
  "fst (ReadAll r) = (if ending r = EOF then Inr (content r) else Inl (ending r))"
proof (induction r rule: ReadAll.induct)
  case (1 r)
  obtain out err r' where rd: "Read 512 r = (out, err, r')" by (metis prod_cases3)
  note law = Read_streamD [OF rd]
  show ?case
  proof (cases err)
    case None
    with 1 [OF rd [symmetric]] rd law(1,2) show ?thesis
      by (auto simp: ReadAll.simps [of r] split: prod.splits)
  next
    case (Some e)
    with rd law(1) law(4) [OF Some] law(5) [OF Some] show ?thesis
      by (auto simp: ReadAll.simps [of r])
  qed
qed

theorem Copy_stream:
  "ending r \<noteq> ErrBodyTooLarge \<Longrightarrow>
     Copy r = (content r, if ending r = EOF then None else Some (ending r))"
proof (induction r rule: Copy.induct)
  case (1 r)
  obtain out err r' where rd: "Read 32768 r = (out, err, r')" by (metis prod_cases3)
  note law = Read_streamD [OF rd]
  show ?case
  proof (cases err)
    case None
    with 1 rd law(1,2) show ?thesis by (auto simp: Copy.simps [of r])
  next
    case (Some e)
    with 1 rd law(1) law(4) [OF Some] law(5) [OF Some] show ?thesis
      by (auto simp: Copy.simps [of r])
  qed
qed

text \<open>
  The overrun flag: raised exactly by a read that reports the overrun, so after the loops
  it says whether the stream ended in one. \<open>reader_wf\<close> excludes a network error that
  pretends to be the guard's own.
\<close>

primrec reader_wf :: "reader \<Rightarrow> bool" where
  "reader_wf (ConnBody c) = (c_final c \<noteq> ErrBodyTooLarge)"
| "reader_wf (CountingBody rc limit rd over) = reader_wf rc"
| "reader_wf (DigestBody rc hashed want failed) = reader_wf rc"
| "reader_wf (BytesReader bs) = True"
| "reader_wf (ChunkReader rows rowsErr buf err) = (err \<noteq> Some ErrBodyTooLarge)"

lemma chunkReader_Read_over:
  "chunkReader_Read m rows rowsErr buf err = (out, e, r') \<Longrightarrow> err \<noteq> Some ErrBodyTooLarge \<Longrightarrow>
     reader_wf r' \<and> \<not> reader_over r' \<and> e \<noteq> Some ErrBodyTooLarge"
  by (induction m rows rowsErr buf err rule: chunkReader_Read.induct)
    (auto simp: Let_def split: option.splits)

lemma Read_over:
  "Read m r = (out, err, r') \<Longrightarrow> reader_wf r \<Longrightarrow>
     reader_wf r' \<and> (reader_over r' \<longleftrightarrow> reader_over r \<or> err = Some ErrBodyTooLarge)"
proof (induction r arbitrary: out err r')
  case (ConnBody c)
  then show ?case
    by (auto simp: conn_Read_def Let_def split: if_splits)
next
  case (CountingBody rc limit rd over)
  then show ?case
    by (auto simp: countingBody_Read_def Let_def split: prod.splits if_splits)
next
  case (DigestBody rc hashed want failed)
  then show ?case
    by (auto simp: digestVerifyingBody_Read_def Let_def split: prod.splits if_splits)
next
  case (BytesReader bs)
  then show ?case by (auto split: if_splits)
next
  case (ChunkReader rows rowsErr buf err)
  then show ?case by (auto dest: chunkReader_Read_over)
qed

lemma ReadAll_over:
  "reader_wf r \<Longrightarrow>
     reader_over (snd (ReadAll r)) \<longleftrightarrow> reader_over r \<or> ending r = ErrBodyTooLarge"
proof (induction r rule: ReadAll.induct)
  case (1 r)
  obtain out err r' where rd: "Read 512 r = (out, err, r')" by (metis prod_cases3)
  note law = Read_streamD [OF rd]
  from Read_over [OF rd 1(2)] have over: "reader_wf r'"
    "reader_over r' \<longleftrightarrow> reader_over r \<or> err = Some ErrBodyTooLarge" by auto
  show ?case
  proof (cases err)
    case None
    with 1(1) [OF rd [symmetric]] rd over law(2) show ?thesis
      by (auto simp: ReadAll.simps [of r] split: prod.splits)
  next
    case (Some e)
    with rd over law(4) [OF Some] show ?thesis by (auto simp: ReadAll.simps [of r])
  qed
qed

text \<open>
  \<open>ReadFull\<close>: the bytes it returns are the next bytes of the stream; without an error
  there are \<open>m\<close> of them; with one there are fewer and, but for an overrun, the stream is
  exhausted.
\<close>

lemma ReadAtLeast_stream:
  assumes "ReadAtLeast m acc r = (out, err, r')" and "length acc \<le> m" and "reader_wf r"
  shows "(\<exists>d. out = acc @ d \<and> content r = d @ content r') \<and> ending r' = ending r \<and>
     (err = None \<longrightarrow> length out = m) \<and>
     (\<forall>e. err = Some e \<longrightarrow> length out < m \<and>
        e = (if out \<noteq> [] \<and> ending r = EOF then ErrUnexpectedEOF else ending r) \<and>
        (content r' = [] \<or> ending r = ErrBodyTooLarge) \<and>
        (reader_over r' \<longleftrightarrow> reader_over r \<or> ending r = ErrBodyTooLarge)) \<and>
     (reader_over r' \<longrightarrow> reader_over r \<or> ending r = ErrBodyTooLarge) \<and>
     (reader_over r \<longrightarrow> reader_over r') \<and> reader_wf r'"
  using assms
proof (induction m acc r rule: ReadAtLeast.induct)
  case (1 m acc r)
  show ?case
  proof (cases "m \<le> length acc")
    case True
    with 1 show ?thesis by (simp add: ReadAtLeast.simps [of m acc r])
  next
    case False
    obtain o1 e1 r1 where rd: "Read (m - length acc) r = (o1, e1, r1)" by (metis prod_cases3)
    note law = Read_streamD [OF rd]
    from Read_over [OF rd "1.prems"(3)]
    have over: "reader_wf r1" "reader_over r1 \<longleftrightarrow> reader_over r \<or> e1 = Some ErrBodyTooLarge"
      by auto
    have len: "length (acc @ o1) \<le> m" using law(3) False by simp
    show ?thesis
    proof (cases e1)
      case None
      with rd False "1.prems"(1) have rec: "ReadAtLeast m (acc @ o1) r1 = (out, err, r')"
        by (simp add: ReadAtLeast.simps [of m acc r])
      have over1: "reader_over r1 \<longleftrightarrow> reader_over r" using over(2) None by simp
      from "1.IH" [OF False rd [symmetric] refl None rec len over(1)]
      obtain d where d: "out = (acc @ o1) @ d" "content r1 = d @ content r'" by blast
      then have "out = acc @ (o1 @ d) \<and> content r = (o1 @ d) @ content r'" using law(1) by simp
      with "1.IH" [OF False rd [symmetric] refl None rec len over(1)] show ?thesis
        unfolding law(2) over1 by blast
    next
      case (Some e)
      with rd False "1.prems"(1) len show ?thesis
        using law(1,2) law(4) [OF Some] law(5) [OF Some] over
        by (auto simp: ReadAtLeast.simps [of m acc r] split: if_splits)
    qed
  qed
qed

lemma ReadFull_stream:
  assumes "ReadFull m r = (out, err, r')" and "reader_wf r"
  shows "content r = out @ content r'" and "ending r' = ending r" and "reader_wf r'"
    and "err = None \<Longrightarrow> length out = m"
    and "err = Some e \<Longrightarrow> length out < m"
    and "err = Some e \<Longrightarrow> e = (if out \<noteq> [] \<and> ending r = EOF then ErrUnexpectedEOF else ending r)"
    and "err = Some e \<Longrightarrow> content r' = [] \<or> ending r = ErrBodyTooLarge"
    and "err = Some e \<Longrightarrow> reader_over r' \<longleftrightarrow> reader_over r \<or> ending r = ErrBodyTooLarge"
    and "reader_over r' \<Longrightarrow> reader_over r \<or> ending r = ErrBodyTooLarge"
    and "reader_over r \<Longrightarrow> reader_over r'"
  using ReadAtLeast_stream [of m "[]" r out err r'] assms by (auto simp: ReadFull_def)

lemma conn_Read_progress_out:
  "conn_Read m c = (out, err, c') \<Longrightarrow>
     length (c_data c') + length (c_frag c') + length out \<le> length (c_data c) + length (c_frag c)"
  by (auto simp: conn_Read_def Let_def split: if_splits list.splits)

lemma chunkReader_Read_progress_out:
  "chunkReader_Read m rows rowsErr buf err = (out, e, r') \<Longrightarrow>
     reads_left r' + length out \<le> length buf + length (concat rows)"
  by (induction m rows rowsErr buf err rule: chunkReader_Read.induct) (auto simp: Let_def)

lemma Read_progress_out:
  "Read m r = (out, err, r') \<Longrightarrow> reads_left r' + length out \<le> reads_left r"
proof (induction r arbitrary: out err r')
  case (ConnBody c)
  then show ?case by (auto split: prod.splits dest: conn_Read_progress_out)
next
  case (CountingBody rc limit rd over)
  then show ?case
    by (auto simp: countingBody_Read_def Let_def split: prod.splits if_splits)
next
  case (DigestBody rc hashed want failed)
  then show ?case
    by (auto simp: digestVerifyingBody_Read_def Let_def split: prod.splits if_splits)
next
  case (BytesReader bs)
  then show ?case by (auto split: if_splits)
next
  case (ChunkReader rows rowsErr buf err)
  then show ?case by (auto dest: chunkReader_Read_progress_out)
qed

lemma ReadAtLeast_progress:
  "ReadAtLeast m acc r = (out, err, r') \<Longrightarrow>
     reads_left r' + length out \<le> reads_left r + length acc \<and> (err = None \<longrightarrow> m \<le> length out)"
proof (induction m acc r rule: ReadAtLeast.induct)
  case (1 m acc r)
  show ?case
  proof (cases "m \<le> length acc")
    case True
    with 1 show ?thesis by (simp add: ReadAtLeast.simps [of m acc r])
  next
    case False
    obtain o1 e1 r1 where rd: "Read (m - length acc) r = (o1, e1, r1)" by (metis prod_cases3)
    note progress = Read_progress_out [OF rd]
    show ?thesis
    proof (cases e1)
      case None
      with rd False "1.prems" have rec: "ReadAtLeast m (acc @ o1) r1 = (out, err, r')"
        by (simp add: ReadAtLeast.simps [of m acc r])
      from "1.IH" [OF False rd [symmetric] refl None rec] progress show ?thesis by simp
    next
      case (Some e)
      with rd False "1.prems" progress show ?thesis
        by (auto simp: ReadAtLeast.simps [of m acc r] split: if_splits)
    qed
  qed
qed

lemma ReadFull_progress:
  "ReadFull m r = (out, None, r') \<Longrightarrow> 0 < m \<Longrightarrow> reads_left r' < reads_left r"
  using ReadAtLeast_progress [of m "[]" r out None r'] by (simp add: ReadFull_def)

end
