(* ===== verification/Go_Encoding.thy ===== *)
theory Go_Encoding
  imports Go_Std
begin

text \<open>
  \<open>encoding/base64\<close> and \<open>encoding/json\<close>, as far as the auth proof's wire format needs
  them: the standard base64 alphabet with padding, a JSON reader with Go's rules (its
  grammar, string unquoting with replacement of malformed text, the nesting limit) and the
  writer for strings and integers.
\<close>

section \<open>base64\<close>

definition b64_char :: "nat \<Rightarrow> char" where
  "b64_char d =
     (if d < 26 then char_of (65 + d) else if d < 52 then char_of (71 + d)
      else if d < 62 then char_of (d - 4) else if d = 62 then CHR ''+'' else CHR ''/'')"

definition b64_val :: "char \<Rightarrow> nat option" where
  "b64_val c =
     (let x = code_of c
      in if 65 \<le> x \<and> x \<le> 90 then Some (x - 65)
         else if 97 \<le> x \<and> x \<le> 122 then Some (x - 71)
         else if 48 \<le> x \<and> x \<le> 57 then Some (x + 4)
         else if x = 43 then Some 62 else if x = 47 then Some 63 else None)"

fun b64_encode :: "bytes \<Rightarrow> string" where
  "b64_encode (a # b # c # r) =
     (let n = unat a * 65536 + unat b * 256 + unat c
      in [b64_char (n div 262144), b64_char (n div 4096 mod 64), b64_char (n div 64 mod 64),
          b64_char (n mod 64)] @ b64_encode r)"
| "b64_encode [a, b] =
     (let n = unat a * 1024 + unat b * 4
      in [b64_char (n div 4096), b64_char (n div 64 mod 64), b64_char (n mod 64), CHR ''=''])"
| "b64_encode [a] =
     (let n = unat a * 16 in [b64_char (n div 64), b64_char (n mod 64), CHR ''='', CHR ''=''])"
| "b64_encode [] = []"

text \<open>
  Decoding. Line breaks are skipped wherever they stand; a group is four characters, the
  last one may end in one or two padding characters, and the bits the padding leaves over
  are not looked at.
\<close>

fun b64_groups :: "string \<Rightarrow> bytes option" where
  "b64_groups [] = Some []"
| "b64_groups (a # b # c # d # r) =
     (case (b64_val a, b64_val b) of
        (Some w, Some x) \<Rightarrow>
          (if c = CHR ''='' then
             (if d = CHR ''='' \<and> r = [] then Some [word_of_nat ((w * 64 + x) div 16)] else None)
           else case b64_val c of
             None \<Rightarrow> None
           | Some y \<Rightarrow>
               (if d = CHR ''='' then
                  (if r = []
                   then let n = (w * 64 + x) * 64 + y
                        in Some [word_of_nat (n div 1024), word_of_nat (n div 4 mod 256)]
                   else None)
                else case b64_val d of
                  None \<Rightarrow> None
                | Some z \<Rightarrow>
                    let n = ((w * 64 + x) * 64 + y) * 64 + z
                    in map_option
                         (\<lambda>bs. word_of_nat (n div 65536) # word_of_nat (n div 256 mod 256) #
                               word_of_nat (n mod 256) # bs)
                         (b64_groups r)))
      | _ \<Rightarrow> None)"
| "b64_groups _ = None"

definition b64_decode :: "string \<Rightarrow> bytes option" where
  "b64_decode s = b64_groups (filter (\<lambda>c. c \<noteq> CHR 0x0A \<and> c \<noteq> CHR 0x0D) s)"

lemma code_b64_char: "d < 64 \<Longrightarrow> code_of (b64_char d) =
    (if d < 26 then 65 + d else if d < 52 then 71 + d else if d < 62 then d - 4 else if d = 62 then 43 else 47)"
  by (simp add: b64_char_def code_of_def)

lemma b64_val_char [simp]: "d < 64 \<Longrightarrow> b64_val (b64_char d) = Some d"
  by (auto simp: b64_val_def code_b64_char Let_def)

lemma b64_char_plain:
  assumes "d < 64"
  shows "b64_char d \<noteq> CHR ''=''" and "b64_char d \<noteq> CHR 0x0A" and "b64_char d \<noteq> CHR 0x0D"
proof -
  have "code_of (b64_char d) \<noteq> 61" "code_of (b64_char d) \<noteq> 10" "code_of (b64_char d) \<noteq> 13"
    using assms by (auto simp: code_b64_char)
  then show "b64_char d \<noteq> CHR ''=''" "b64_char d \<noteq> CHR 0x0A" "b64_char d \<noteq> CHR 0x0D"
    by (auto simp: code_of_def)
qed

lemma b64_lead [simp]: "(unat (a :: byte) * 65536 + unat (b :: byte) * 256 + unat (c :: byte)) div 262144 < 64"
proof (rule less_mult_imp_div_less)
  show "unat a * 65536 + unat b * 256 + unat c < 64 * 262144"
    using unat_byte_less [of a] unat_byte_less [of b] unat_byte_less [of c] by linarith
qed

lemma b64_lead2 [simp]: "(unat (a :: byte) * 1024 + unat (b :: byte) * 4) div 4096 < 64"
proof (rule less_mult_imp_div_less)
  show "unat a * 1024 + unat b * 4 < 64 * 4096"
    using unat_byte_less [of a] unat_byte_less [of b] by linarith
qed

lemma b64_join:
  "n div 64 * 64 + n mod 64 = n"
  "n div 4096 * 64 + n div 64 mod 64 = n div 64"
  "n div 262144 * 64 + n div 4096 mod 64 = n div 4096" for n :: nat
  using div_mult_mod_eq [of n 64] div_mult_mod_eq [of "n div 64" 64] div_mult_mod_eq [of "n div 4096" 64]
    div_mult2_eq [of n 64 64] div_mult2_eq [of n 4096 64] by simp_all

lemma b64_split:
  fixes a b c :: nat
  assumes "b < 256" "c < 256"
  defines "n \<equiv> a * 65536 + b * 256 + c"
  shows "n div 65536 = a" and "n div 256 mod 256 = b" and "n mod 256 = c"
proof -
  have n: "n = c + (a * 256 + b) * 256" by (simp add: n_def)
  have 1: "n div 256 = a * 256 + b" "n mod 256 = c"
    unfolding n using assms(2) by (simp_all only: div_mult_self1 mod_mult_self1) simp_all
  have "n div 65536 = n div 256 div 256" by (simp add: div_mult2_eq [symmetric])
  with 1 assms(1) show "n div 65536 = a" "n div 256 mod 256 = b" "n mod 256 = c" by simp_all
qed

lemma b64_groups_encode: "b64_groups (b64_encode bs) = Some bs"
proof (induction bs rule: b64_encode.induct)
  case (1 a b c r)
  define n where "n = unat a * 65536 + unat b * 256 + unat c"
  have lt: "unat a < 256" "unat b < 256" "unat c < 256" by simp_all
  then have d: "n div 262144 < 64" "n div 4096 mod 64 < 64" "n div 64 mod 64 < 64" "n mod 64 < 64"
    by (auto simp: n_def)
  have n: "((n div 262144 * 64 + n div 4096 mod 64) * 64 + n div 64 mod 64) * 64 + n mod 64 = n"
    by (simp only: b64_join)
  have "n div 65536 = unat a" "n div 256 mod 256 = unat b" "n mod 256 = unat c"
    unfolding n_def using lt by (simp_all only: b64_split)
  with 1 d n show ?case by (simp add: n_def [symmetric] Let_def b64_char_plain)
next
  case (2 a b)
  define n where "n = unat a * 1024 + unat b * 4"
  have lt: "unat a < 256" "unat b < 256" by simp_all
  then have d: "n div 4096 < 64" "n div 64 mod 64 < 64" "n mod 64 < 64"
    by (auto simp: n_def)
  have n: "(n div 4096 * 64 + n div 64 mod 64) * 64 + n mod 64 = n" by (simp only: b64_join)
  have "n div 1024 = unat a" "n div 4 mod 256 = unat b" using lt by (auto simp: n_def)
  with d n show ?case by (simp add: n_def [symmetric] Let_def b64_char_plain)
next
  case (3 a)
  define n where "n = unat a * 16"
  have "unat a div 4 < 64" using unat_byte_less [of a] by linarith
  then have d: "n div 64 < 64" "n mod 64 < 64" by (simp_all add: n_def)
  have n: "n div 64 * 64 + n mod 64 = n" by (simp only: b64_join)
  have "n div 16 = unat a" by (simp add: n_def)
  with d n show ?case by (simp add: n_def [symmetric] Let_def b64_char_plain)
qed simp

lemma b64_encode_chars:
  "c \<in> set (b64_encode bs) \<Longrightarrow> c \<noteq> CHR 0x0A \<and> c \<noteq> CHR 0x0D \<and> 0 < code_of c \<and> code_of c < 128"
proof -
  have ch: "c = b64_char d \<Longrightarrow> d < 64 \<Longrightarrow> c \<noteq> CHR 0x0A \<and> c \<noteq> CHR 0x0D \<and> 0 < code_of c \<and> code_of c < 128" for c d
    using b64_char_plain [of d] by (auto simp: code_b64_char)
  have eq: "0 < code_of (CHR ''='') \<and> code_of (CHR ''='') < 128" by (simp add: code_of_def)
  show "c \<in> set (b64_encode bs) \<Longrightarrow> ?thesis"
  proof (induction bs rule: b64_encode.induct)
    case (1 a b e r)
    with ch b64_lead [of a b e] show ?case by (auto simp: Let_def)
  next
    case (2 a b)
    with ch eq b64_lead2 [of a b] show ?case by (auto simp: Let_def)
  next
    case (3 a)
    have "unat a div 4 < 64" using unat_byte_less [of a] by linarith
    with 3 ch eq show ?case by (auto simp: Let_def)
  qed simp
qed

lemma b64_decode_encode [simp]: "b64_decode (b64_encode bs) = Some bs"
proof -
  have "filter (\<lambda>c. c \<noteq> CHR 0x0A \<and> c \<noteq> CHR 0x0D) (b64_encode bs) = b64_encode bs"
    using b64_encode_chars by (auto intro!: filter_True)
  then show ?thesis by (simp add: b64_decode_def b64_groups_encode)
qed

section \<open>JSON: reading\<close>

datatype json =
    JNull
  | JBool bool
  | JNum string
  | JStr string
  | JArr "json list"
  | JObj "(string \<times> json) list"

text \<open>The length of the UTF-8 sequence a text starts with, 0 where it is malformed.\<close>

fun utf8_len :: "string \<Rightarrow> nat" where
  "utf8_len [] = 0"
| "utf8_len (a # r) =
     (let x = code_of a in
      if x < 128 then 1
      else if 194 \<le> x \<and> x \<le> 223 then
        (case r of b # _ \<Rightarrow> if cont_byte 128 191 b then 2 else 0 | _ \<Rightarrow> 0)
      else if 224 \<le> x \<and> x \<le> 239 then
        (case r of
           b # c # _ \<Rightarrow>
             if cont_byte (if x = 224 then 160 else 128) (if x = 237 then 159 else 191) b \<and>
                cont_byte 128 191 c then 3 else 0
         | _ \<Rightarrow> 0)
      else if 240 \<le> x \<and> x \<le> 244 then
        (case r of
           b # c # d # _ \<Rightarrow>
             if cont_byte (if x = 240 then 144 else 128) (if x = 244 then 143 else 191) b \<and>
                cont_byte 128 191 c \<and> cont_byte 128 191 d then 4 else 0
         | _ \<Rightarrow> 0)
      else 0)"

definition utf8_encode :: "nat \<Rightarrow> string" where
  "utf8_encode v =
     map char_of
       (if v < 128 then [v]
        else if v < 2048 then [192 + v div 64, 128 + v mod 64]
        else if v < 65536 then [224 + v div 4096, 128 + v div 64 mod 64, 128 + v mod 64]
        else [240 + v div 262144, 128 + v div 4096 mod 64, 128 + v div 64 mod 64, 128 + v mod 64])"

definition replacement_char :: string where
  "replacement_char = utf8_encode 65533"

definition hex_val :: "char \<Rightarrow> nat option" where
  "hex_val c =
     (let x = code_of c
      in if 48 \<le> x \<and> x \<le> 57 then Some (x - 48)
         else if 97 \<le> x \<and> x \<le> 102 then Some (x - 87)
         else if 65 \<le> x \<and> x \<le> 70 then Some (x - 55) else None)"

text \<open>Four hexadecimal digits, and the second half of a surrogate pair.\<close>

fun json_u4 :: "string \<Rightarrow> (nat \<times> string) option" where
  "json_u4 (a # b # c # d # r) =
     (case (hex_val a, hex_val b, hex_val c, hex_val d) of
        (Some w, Some x, Some y, Some z) \<Rightarrow> Some (((w * 16 + x) * 16 + y) * 16 + z, r)
      | _ \<Rightarrow> None)"
| "json_u4 _ = None"

definition low_half :: "nat \<Rightarrow> string \<Rightarrow> (nat \<times> string) option" where
  "low_half v s =
     (case s of
        c # e # r \<Rightarrow>
          if c = CHR 0x5C \<and> e = CHR ''u'' \<and> 55296 \<le> v \<and> v < 56320 then
            (case json_u4 r of
               Some (v2, r') \<Rightarrow>
                 if 56320 \<le> v2 \<and> v2 < 57344
                 then Some (65536 + (v - 55296) * 1024 + (v2 - 56320), r') else None
             | None \<Rightarrow> None)
          else None
      | _ \<Rightarrow> None)"

definition json_escape_char :: "char \<Rightarrow> char option" where
  "json_escape_char e =
     (if e = CHR 0x22 \<or> e = CHR 0x5C \<or> e = CHR ''/'' then Some e
      else if e = CHR ''b'' then Some (CHR 0x08) else if e = CHR ''f'' then Some (CHR 0x0C)
      else if e = CHR ''n'' then Some (CHR 0x0A) else if e = CHR ''r'' then Some (CHR 0x0D)
      else if e = CHR ''t'' then Some (CHR 0x09) else None)"

lemma json_u4_shorter: "json_u4 s = Some (v, r) \<Longrightarrow> length r < length s"
  by (induction s rule: json_u4.induct) (auto split: option.splits)

lemma low_half_shorter: "low_half v s = Some (w, r) \<Longrightarrow> length r < length s"
  by (auto simp: low_half_def dest!: json_u4_shorter split: list.splits if_splits option.splits)

definition with_text :: "string \<Rightarrow> (string \<times> string) option \<Rightarrow> (string \<times> string) option" where
  "with_text t rest = map_option (\<lambda>(s, r). (t @ s, r)) rest"

text \<open>
  A string literal after its opening quote: the text, and what follows the closing quote.
  An unpaired surrogate and a malformed byte become U+FFFD.
\<close>

function json_unquote :: "string \<Rightarrow> (string \<times> string) option" where
  "json_unquote s =
     (case s of
        [] \<Rightarrow> None
      | c # r \<Rightarrow>
          if c = CHR 0x22 then Some ([], r)
          else if c = CHR 0x5C then
            (case r of
               [] \<Rightarrow> None
             | e # r1 \<Rightarrow>
                 if e = CHR ''u'' then
                   (case json_u4 r1 of
                      None \<Rightarrow> None
                    | Some (v, r2) \<Rightarrow>
                        if 55296 \<le> v \<and> v < 57344 then
                          (case low_half v r2 of
                             Some (w, r3) \<Rightarrow> with_text (utf8_encode w) (json_unquote r3)
                           | None \<Rightarrow> with_text replacement_char (json_unquote r2))
                        else with_text (utf8_encode v) (json_unquote r2))
                 else
                   (case json_escape_char e of
                      None \<Rightarrow> None
                    | Some x \<Rightarrow> with_text [x] (json_unquote r1)))
          else if code_of c < 32 then None
          else if utf8_len s = 0 then with_text replacement_char (json_unquote r)
          else with_text (take (utf8_len s) s) (json_unquote (drop (utf8_len s) s)))"
  by pat_completeness auto
termination
  by (relation "measure length") (auto dest!: json_u4_shorter low_half_shorter simp del: utf8_len.simps)

declare json_unquote.simps [simp del]

lemma json_unquote_step:
  assumes "json_unquote s = Some (t, r)"
  shows "(\<exists>c. s = c # r) \<or> (\<exists>u t'. length u < length s \<and> json_unquote u = Some (t', r))"
  using assms [unfolded json_unquote.simps [of s]]
  by (auto simp: with_text_def simp del: utf8_len.simps split: list.splits if_splits option.splits
      dest!: json_u4_shorter low_half_shorter intro: exI [of _ "drop n s" for n])

lemma json_unquote_shorter: "json_unquote s = Some (t, r) \<Longrightarrow> length r < length s"
proof (induction "length s" arbitrary: s t rule: less_induct)
  case less
  from json_unquote_step [OF less.prems] less.hyps show ?case by fastforce
qed

definition is_ws :: "char \<Rightarrow> bool" where
  "is_ws c \<longleftrightarrow> c = CHR '' '' \<or> c = CHR 0x09 \<or> c = CHR 0x0A \<or> c = CHR 0x0D"

definition skip_ws :: "string \<Rightarrow> string" where
  "skip_ws s = dropWhile is_ws s"

text \<open>A number literal: sign, integer part without leading zeros, fraction, exponent.\<close>

definition json_digits :: "string \<Rightarrow> (string \<times> string) option" where
  "json_digits s = (if takeWhile is_digit s = [] then None else Some (takeWhile is_digit s, dropWhile is_digit s))"

definition json_int_part :: "string \<Rightarrow> (string \<times> string) option" where
  "json_int_part s =
     (case s of c # r \<Rightarrow> if c = CHR ''0'' then Some (''0'', r) else json_digits s | [] \<Rightarrow> None)"

definition json_frac_part :: "string \<Rightarrow> (string \<times> string) option" where
  "json_frac_part s =
     (case s of
        c # r \<Rightarrow> if c = CHR ''.'' then map_option (\<lambda>(ds, r'). (c # ds, r')) (json_digits r) else Some ([], s)
      | [] \<Rightarrow> Some ([], s))"

definition json_exp_part :: "string \<Rightarrow> (string \<times> string) option" where
  "json_exp_part s =
     (case s of
        c # r \<Rightarrow>
          if c = CHR ''e'' \<or> c = CHR ''E'' then
            (case r of
               d # r' \<Rightarrow>
                 if d = CHR ''+'' \<or> d = CHR ''-'' then map_option (\<lambda>(ds, t). (c # d # ds, t)) (json_digits r')
                 else map_option (\<lambda>(ds, t). (c # ds, t)) (json_digits r)
             | [] \<Rightarrow> None)
          else Some ([], s)
      | [] \<Rightarrow> Some ([], s))"

definition json_number :: "string \<Rightarrow> (string \<times> string) option" where
  "json_number s =
     (let (sgn, s1) = (case s of c # r \<Rightarrow> if c = CHR ''-'' then ([c], r) else ([], s) | [] \<Rightarrow> ([], s))
      in case json_int_part s1 of
           None \<Rightarrow> None
         | Some (a, s2) \<Rightarrow>
             (case json_frac_part s2 of
                None \<Rightarrow> None
              | Some (b, s3) \<Rightarrow>
                  (case json_exp_part s3 of
                     None \<Rightarrow> None
                   | Some (e, s4) \<Rightarrow> Some (sgn @ a @ b @ e, s4))))"

definition json_literal :: "string \<Rightarrow> (json \<times> string) option" where
  "json_literal s =
     (if take 4 s = ''null'' then Some (JNull, drop 4 s)
      else if take 4 s = ''true'' then Some (JBool True, drop 4 s)
      else if take 5 s = ''false'' then Some (JBool False, drop 5 s) else None)"

definition max_nesting :: nat where
  "max_nesting = 10000"

text \<open>The next character after white space, when it is the one expected.\<close>

definition expect :: "char \<Rightarrow> string \<Rightarrow> string option" where
  "expect c s = (case skip_ws s of x # r \<Rightarrow> if x = c then Some r else None | [] \<Rightarrow> None)"

lemma skip_ws_length: "length (skip_ws s) \<le> length s"
  by (simp add: skip_ws_def length_dropWhile_le)

lemma expect_shorter: "expect c s = Some r \<Longrightarrow> length r < length s"
  using skip_ws_length [of s] by (auto simp: expect_def split: list.splits if_splits)

text \<open>
  Values. The tests that what is left is shorter always hold; they are there for the
  termination of the mutual recursion.
\<close>

function
  json_value :: "nat \<Rightarrow> string \<Rightarrow> (json \<times> string) option" and
  json_elements :: "nat \<Rightarrow> string \<Rightarrow> (json list \<times> string) option" and
  json_members :: "nat \<Rightarrow> string \<Rightarrow> ((string \<times> json) list \<times> string) option"
where
  "json_value depth s =
     (case skip_ws s of
        [] \<Rightarrow> None
      | c # r \<Rightarrow>
          if c = CHR ''{'' then
            (if depth \<ge> max_nesting then None
             else case expect (CHR ''}'') r of
                    Some r' \<Rightarrow> Some (JObj [], r')
                  | None \<Rightarrow>
                      if length r < length s
                      then map_option (\<lambda>(ms, r'). (JObj ms, r')) (json_members (depth + 1) r) else None)
          else if c = CHR ''['' then
            (if depth \<ge> max_nesting then None
             else case expect (CHR '']'') r of
                    Some r' \<Rightarrow> Some (JArr [], r')
                  | None \<Rightarrow>
                      if length r < length s
                      then map_option (\<lambda>(vs, r'). (JArr vs, r')) (json_elements (depth + 1) r) else None)
          else if c = CHR 0x22 then map_option (\<lambda>(t, r'). (JStr t, r')) (json_unquote r)
          else if c = CHR ''-'' \<or> is_digit c
            then map_option (\<lambda>(n, r'). (JNum n, r')) (json_number (c # r))
          else json_literal (c # r))"
| "json_elements depth s =
     (case json_value depth s of
        None \<Rightarrow> None
      | Some (v, r) \<Rightarrow>
          (case expect (CHR '','') r of
             Some r' \<Rightarrow>
               if length r' < length s
               then map_option (\<lambda>(vs, t). (v # vs, t)) (json_elements depth r') else None
           | None \<Rightarrow> map_option (\<lambda>r'. ([v], r')) (expect (CHR '']'') r)))"
| "json_members depth s =
     (case expect (CHR 0x22) s of
        None \<Rightarrow> None
      | Some r \<Rightarrow>
          (case json_unquote r of
             None \<Rightarrow> None
           | Some (key, r1) \<Rightarrow>
               (case expect (CHR '':'') r1 of
                  None \<Rightarrow> None
                | Some r2 \<Rightarrow>
                    if length r2 < length s then
                      (case json_value depth r2 of
                         None \<Rightarrow> None
                       | Some (v, r3) \<Rightarrow>
                           (case expect (CHR '','') r3 of
                              Some r4 \<Rightarrow>
                                if length r4 < length s
                                then map_option (\<lambda>(ms, t). ((key, v) # ms, t)) (json_members depth r4)
                                else None
                            | None \<Rightarrow> map_option (\<lambda>r4. ([(key, v)], r4)) (expect (CHR ''}'') r3)))
                    else None)))"
  by pat_completeness auto
termination
  by (relation "measure (\<lambda>x. case x of Inl (d, s) \<Rightarrow> 2 * length s
       | Inr (Inl (d, s)) \<Rightarrow> 2 * length s + 1 | Inr (Inr (d, s)) \<Rightarrow> 2 * length s + 1)") auto

declare json_value.simps [simp del] json_elements.simps [simp del] json_members.simps [simp del]

definition json_parse :: "string \<Rightarrow> json option" where
  "json_parse s =
     (case json_value 0 s of
        Some (v, r) \<Rightarrow> if skip_ws r = [] then Some v else None
      | None \<Rightarrow> None)"

text \<open>Whatever is read is consumed, so the guards of the recursion never decide anything.\<close>

lemma json_digits_shorter: "json_digits s = Some (ds, r) \<Longrightarrow> length r < length s"
proof -
  assume "json_digits s = Some (ds, r)"
  then have "takeWhile is_digit s \<noteq> []" "r = dropWhile is_digit s" by (auto simp: json_digits_def split: if_splits)
  then show ?thesis using takeWhile_dropWhile_id [of is_digit s] by (metis length_append length_greater_0_conv less_add_same_cancel2)
qed

lemma json_number_shorter:
  assumes "json_number s = Some (n, r)"
  shows "length r < length s"
proof -
  have int: "json_int_part t = Some (a, u) \<Longrightarrow> length u < length t" for t a u
    by (auto simp: json_int_part_def dest: json_digits_shorter split: list.splits if_splits)
  have frac: "json_frac_part t = Some (a, u) \<Longrightarrow> length u \<le> length t" for t a u
    by (auto simp: json_frac_part_def dest: json_digits_shorter split: list.splits if_splits)
  have exp: "json_exp_part t = Some (a, u) \<Longrightarrow> length u \<le> length t" for t a u
    by (auto simp: json_exp_part_def dest!: json_digits_shorter split: list.splits if_splits)
  from assms show ?thesis
    by (auto simp: json_number_def Let_def split: list.splits if_splits option.splits dest!: int frac exp)
qed

lemma json_literal_shorter: "json_literal s = Some (v, r) \<Longrightarrow> length r < length s"
  by (cases s) (auto simp: json_literal_def split: if_splits)

lemma json_value_shorter:
  assumes "json_value d s = Some (v, r)"
    and members: "\<And>d t ms r. length t < length s \<Longrightarrow> json_members d t = Some (ms, r) \<Longrightarrow> length r < length t"
    and elements: "\<And>d t vs r. length t < length s \<Longrightarrow> json_elements d t = Some (vs, r) \<Longrightarrow> length r < length t"
  shows "length r < length s"
proof (cases "skip_ws s")
  case Nil
  with assms(1) show ?thesis by (simp add: json_value.simps [of d s])
next
  case (Cons c t)
  then have t: "length t < length s" using skip_ws_length [of s] by simp
  note val = assms(1) [unfolded json_value.simps [of d s] Cons list.case]
  consider "c = CHR ''{''" | "c = CHR ''[''" | "c = CHR 0x22"
    | "c \<noteq> CHR ''{''" "c \<noteq> CHR ''[''" "c \<noteq> CHR 0x22" by blast
  then show ?thesis
  proof cases
    case 1
    with val t members [OF t] show ?thesis
      by (fastforce split: if_splits option.splits dest: expect_shorter)
  next
    case 2
    with val t elements [OF t] show ?thesis
      by (fastforce split: if_splits option.splits dest: expect_shorter)
  next
    case 3
    with val t show ?thesis by (auto dest: json_unquote_shorter)
  next
    case 4
    then have "length r < length (c # t)"
      using val by (auto dest!: json_number_shorter json_literal_shorter split: if_splits)
    with t show ?thesis by simp
  qed
qed

lemma json_members_shorter:
  assumes "json_members d s = Some (ms, r)"
    and val: "\<And>d t v r. length t < length s \<Longrightarrow> json_value d t = Some (v, r) \<Longrightarrow> length r < length t"
    and members: "\<And>d t ms r. length t < length s \<Longrightarrow> json_members d t = Some (ms, r) \<Longrightarrow> length r < length t"
  shows "length r < length s"
proof -
  from assms(1) obtain key r2 w r3 where m: "length r2 < length s" "json_value d r2 = Some (w, r3)"
    and last: "(case expect (CHR '','') r3 of
        Some r4 \<Rightarrow> if length r4 < length s
          then map_option (\<lambda>(ms, t). ((key, w) # ms, t)) (json_members d r4) else None
      | None \<Rightarrow> map_option (\<lambda>r4. ([(key, w)], r4)) (expect (CHR ''}'') r3)) = Some (ms, r)"
    unfolding json_members.simps [of d s] by (auto split: option.splits if_splits)
  have r3: "length r3 < length s" using val [OF m] m(1) by simp
  show ?thesis
  proof (cases "expect (CHR '','') r3")
    case None
    with last r3 expect_shorter [of "CHR ''}''" r3] show ?thesis by auto
  next
    case (Some r4)
    with last obtain ms' where "length r4 < length s" "json_members d r4 = Some (ms', r)"
      by (auto split: if_splits)
    with members show ?thesis by fastforce
  qed
qed

lemma json_elements_shorter:
  assumes "json_elements d s = Some (vs, r)"
    and val: "\<And>d v r. json_value d s = Some (v, r) \<Longrightarrow> length r < length s"
    and elements: "\<And>d t vs r. length t < length s \<Longrightarrow> json_elements d t = Some (vs, r) \<Longrightarrow> length r < length t"
  shows "length r < length s"
proof -
  from assms(1) obtain w r3 where m: "json_value d s = Some (w, r3)"
    and last: "(case expect (CHR '','') r3 of
        Some r4 \<Rightarrow> if length r4 < length s
          then map_option (\<lambda>(vs, t). (w # vs, t)) (json_elements d r4) else None
      | None \<Rightarrow> map_option (\<lambda>r4. ([w], r4)) (expect (CHR '']'') r3)) = Some (vs, r)"
    unfolding json_elements.simps [of d s] by (auto split: option.splits)
  have r3: "length r3 < length s" using val [OF m] .
  show ?thesis
  proof (cases "expect (CHR '','') r3")
    case None
    with last r3 expect_shorter [of "CHR '']''" r3] show ?thesis by auto
  next
    case (Some r4)
    with last obtain vs' where "length r4 < length s" "json_elements d r4 = Some (vs', r)"
      by (auto split: if_splits)
    with elements show ?thesis by fastforce
  qed
qed

lemma json_shorter:
  "(\<forall>d v r. json_value d s = Some (v, r) \<longrightarrow> length r < length s) \<and>
   (\<forall>d vs r. json_elements d s = Some (vs, r) \<longrightarrow> length r < length s) \<and>
   (\<forall>d ms r. json_members d s = Some (ms, r) \<longrightarrow> length r < length s)"
proof (induction "length s" arbitrary: s rule: less_induct)
  case less
  have val: "json_value d s = Some (v, r) \<Longrightarrow> length r < length s" for d v r
    using json_value_shorter [of d s v r] less by blast
  moreover have "json_elements d s = Some (vs, r) \<Longrightarrow> length r < length s" for d vs r
    using json_elements_shorter [of d s vs r] less val by blast
  moreover have "json_members d s = Some (ms, r) \<Longrightarrow> length r < length s" for d ms r
    using json_members_shorter [of d s ms r] less by blast
  ultimately show ?case by blast
qed

section \<open>JSON: writing\<close>

text \<open>The escapes of \<open>json.Marshal\<close>, which also protects HTML.\<close>

definition json_u_escape :: "nat \<Rightarrow> string" where
  "json_u_escape v =
     [CHR 0x5C, CHR ''u'', hex_digit (v div 4096), hex_digit (v div 256 mod 16),
      hex_digit (v div 16 mod 16), hex_digit (v mod 16)]"

definition json_escape_ascii :: "char \<Rightarrow> string" where
  "json_escape_ascii c =
     (if c = CHR 0x22 \<or> c = CHR 0x5C then [CHR 0x5C, c]
      else if c = CHR 0x08 then [CHR 0x5C, CHR ''b''] else if c = CHR 0x0C then [CHR 0x5C, CHR ''f'']
      else if c = CHR 0x0A then [CHR 0x5C, CHR ''n''] else if c = CHR 0x0D then [CHR 0x5C, CHR ''r'']
      else if c = CHR 0x09 then [CHR 0x5C, CHR ''t'']
      else if code_of c < 32 \<or> c = CHR ''<'' \<or> c = CHR ''>'' \<or> c = CHR 0x26 then json_u_escape (code_of c)
      else [c])"

function json_escape :: "string \<Rightarrow> string" where
  "json_escape s =
     (case s of
        [] \<Rightarrow> []
      | c # r \<Rightarrow>
          if code_of c < 128 then json_escape_ascii c @ json_escape r
          else if utf8_len s = 0 then json_u_escape 65533 @ json_escape r
          else if take 3 s = utf8_encode 8232 then json_u_escape 8232 @ json_escape (drop 3 s)
          else if take 3 s = utf8_encode 8233 then json_u_escape 8233 @ json_escape (drop 3 s)
          else take (utf8_len s) s @ json_escape (drop (utf8_len s) s))"
  by pat_completeness auto
termination
  by (relation "measure length") (auto simp del: utf8_len.simps)

declare json_escape.simps [simp del]

definition json_quote :: "string \<Rightarrow> string" where
  "json_quote s = [CHR 0x22] @ json_escape s @ [CHR 0x22]"

definition ascii :: "string \<Rightarrow> bool" where
  "ascii s \<longleftrightarrow> (\<forall>c \<in> set s. code_of c < 128)"

lemma hex_val_digit: "d < 16 \<Longrightarrow> hex_val (hex_digit d) = Some d"
  by (auto simp: hex_val_def code_hex_digit Let_def)

lemma json_u4_escape:
  assumes "v < 65536"
  shows "json_u4 (drop 2 (json_u_escape v) @ r) = Some (v, r)"
proof -
  have d: "v div 4096 < 16" using assms by auto
  have "((v div 4096 * 16 + v div 256 mod 16) * 16 + v div 16 mod 16) * 16 + v mod 16 = v"
    using div_mult_mod_eq [of v 16] div_mult_mod_eq [of "v div 16" 16] div_mult_mod_eq [of "v div 256" 16]
      div_mult2_eq [of v 16 16] div_mult2_eq [of v 256 16] by simp
  with d show ?thesis by (simp add: json_u_escape_def hex_val_digit)
qed

lemma code_char_eq: "code_of c = code_of d \<Longrightarrow> c = d"
  by simp

lemma json_unquote_escape_ascii:
  assumes "code_of c < 128"
  shows "json_unquote (json_escape_ascii c @ r) = with_text [c] (json_unquote r)"
proof -
  have plain: "json_unquote (c # r) = with_text [c] (json_unquote r)"
    if "c \<noteq> CHR 0x22" "c \<noteq> CHR 0x5C" "\<not> code_of c < 32"
    using that assms by (simp add: json_unquote.simps [of "c # r"] Let_def)
  have u: "json_unquote (json_u_escape (code_of c) @ r) = with_text [c] (json_unquote r)"
    using assms json_u4_escape [of "code_of c" r]
    by (simp add: json_unquote.simps [of "json_u_escape (code_of c) @ r"])
      (simp add: json_u_escape_def utf8_encode_def)
  have esc: "json_unquote (CHR 0x5C # e # r) = with_text [x] (json_unquote r)"
    if "json_escape_char e = Some x" "e \<noteq> CHR ''u''" for e x
    using that by (simp add: json_unquote.simps [of "CHR 0x5C # e # r"])
  show ?thesis
    using plain u esc by (auto simp: json_escape_ascii_def json_escape_char_def)
qed

lemma json_unquote_escape:
  assumes "ascii s"
  shows "json_unquote (json_escape s @ CHR 0x22 # r) = Some (s, r)"
  using assms
proof (induction s)
  case Nil
  then show ?case by (simp add: json_escape.simps [of "[]"] json_unquote.simps [of "CHR 0x22 # r"])
next
  case (Cons c s)
  then show ?case
    by (simp add: json_escape.simps [of "c # s"] ascii_def json_unquote_escape_ascii with_text_def)
qed

end
