(* ===== verification/Auth_Proof.thy ===== *)
theory Auth_Proof
  imports Go_Encoding
begin

text \<open>
  \<open>internal/authproof/authproof.go\<close>: the auth proof, its canonical bytes, its wire format
  and its verification. The wallet and the elliptic-curve code come from the BSV SDK; they
  are the fields of \<open>wallet_api\<close>, and what a property needs of them is a hypothesis of it.
\<close>

section \<open>Constants, errors and data\<close>

definition ProtocolName :: string where
  "ProtocolName = ''backup cache auth''"

definition Header :: string where
  "Header = ''X-Bsv-Auth''"

text \<open>\<open>Window\<close> and \<open>Skew\<close> in nanoseconds.\<close>

definition Window :: int where
  "Window = 2 * 60 * 1000000000"

definition Skew :: int where
  "Skew = 30 * 1000000000"

datatype auth_err =
    ErrMalformed string
  | ErrExpired
  | ErrTooFarFuture
  | ErrActionMismatch
  | ErrBadSignature

record Proof =
  p_Action :: string
  p_IdentityKey :: string
  p_ExpiresAt :: int
  p_Nonce :: string
  p_Signature :: string

definition zero_proof :: Proof where
  "zero_proof = \<lparr>p_Action = '''', p_IdentityKey = '''', p_ExpiresAt = 0, p_Nonce = '''', p_Signature = ''''\<rparr>"

text \<open>
  The SDK: \<open>ec.PublicKeyFromString\<close>, \<open>PublicKey.ToDERHex\<close>, \<open>ec.ParseDERSignature\<close>,
  \<open>Signature.ToDER\<close>, and the wallet's \<open>GetPublicKey\<close> (identity), \<open>CreateSignature\<close> and
  \<open>VerifySignature\<close> under a protocol name, a key identifier and a counterparty; \<open>None\<close> is an
  error.
\<close>

record ('k, 's) wallet_api =
  PublicKeyFromString :: "string \<Rightarrow> 'k option"
  ToDERHex :: "'k \<Rightarrow> string"
  ParseDERSignature :: "bytes \<Rightarrow> 's option"
  ToDER :: "'s \<Rightarrow> bytes option"
  GetPublicKey :: "'k option"
  CreateSignature :: "string \<Rightarrow> string \<Rightarrow> 'k \<Rightarrow> bytes \<Rightarrow> 's option"
  VerifySignature :: "string \<Rightarrow> string \<Rightarrow> 'k \<Rightarrow> bytes \<Rightarrow> 's \<Rightarrow> bool option"

section \<open>Actions and canonical bytes\<close>

definition sha_sep :: string where
  "sha_sep = '' sha256=''"

definition Action :: "string \<Rightarrow> string \<Rightarrow> string \<Rightarrow> string" where
  "Action method requestURI bodySha256 =
     (if bodySha256 = '''' then method @ '' '' @ requestURI
      else method @ '' '' @ requestURI @ sha_sep @ bodySha256)"

text \<open>\<open>strings.LastIndex\<close>.\<close>

fun LastIndex :: "string \<Rightarrow> string \<Rightarrow> int" where
  "LastIndex [] sub = (if sub = [] then 0 else - 1)"
| "LastIndex (c # cs) sub =
     (let i = LastIndex cs sub
      in if i \<ge> 0 then i + 1 else if prefix sub (c # cs) then 0 else - 1)"

definition BodySha256 :: "string \<Rightarrow> string" where
  "BodySha256 action =
     (let i = LastIndex action sha_sep
      in if i < 0 then '''' else drop (nat i + length sha_sep) action)"

definition Canonical :: "string \<Rightarrow> string \<Rightarrow> int \<Rightarrow> string \<Rightarrow> bytes" where
  "Canonical action identityKey expiresAt nonce =
     bytes_of_string (action @ [CHR 0x0A] @ identityKey @ [CHR 0x0A] @ format_int expiresAt @ [CHR 0x0A] @ nonce)"

section \<open>Wire format\<close>

definition json_field :: "string \<Rightarrow> string \<Rightarrow> string" where
  "json_field name val = json_quote name @ '':'' @ val"

definition marshal_proof :: "Proof \<Rightarrow> string" where
  "marshal_proof p =
     ''{'' @ json_field ''action'' (json_quote (p_Action p)) @ '','' @
     json_field ''identityKey'' (json_quote (p_IdentityKey p)) @ '','' @
     json_field ''expiresAt'' (format_int (p_ExpiresAt p)) @ '','' @
     json_field ''nonce'' (json_quote (p_Nonce p)) @ '','' @
     json_field ''signature'' (json_quote (p_Signature p)) @ ''}''"

definition Encode :: "Proof \<Rightarrow> string" where
  "Encode p = b64_encode (bytes_of_string (marshal_proof p))"

text \<open>
  Object keys are matched without regard to case: letters are compared in upper case, and
  the two non-ASCII letters that fold to one (U+017F to S, U+212A to K) count as it.
\<close>

fun fold_name :: "string \<Rightarrow> string" where
  "fold_name [] = []"
| "fold_name (c # cs) =
     (if 97 \<le> code_of c \<and> code_of c \<le> 122 then char_of (code_of c - 32) # fold_name cs
      else if code_of c = 197 \<and> take 1 cs = [CHR 0xBF] then CHR ''S'' # fold_name (drop 1 cs)
      else if code_of c = 226 \<and> take 2 cs = [CHR 0x84, CHR 0xAA] then CHR ''K'' # fold_name (drop 2 cs)
      else c # fold_name cs)"

text \<open>One member of the object: \<open>None\<close> when its value has the wrong type for its field.\<close>

definition set_text :: "(string \<Rightarrow> Proof \<Rightarrow> Proof) \<Rightarrow> json \<Rightarrow> Proof \<Rightarrow> Proof option" where
  "set_text upd v p = (case v of JStr s \<Rightarrow> Some (upd s p) | JNull \<Rightarrow> Some p | _ \<Rightarrow> None)"

definition set_int :: "(int \<Rightarrow> Proof \<Rightarrow> Proof) \<Rightarrow> json \<Rightarrow> Proof \<Rightarrow> Proof option" where
  "set_int upd v p =
     (case v of
        JNum n \<Rightarrow> map_option (\<lambda>i. upd i p) (atoi n)
      | JNull \<Rightarrow> Some p
      | _ \<Rightarrow> None)"

definition set_member :: "string \<times> json \<Rightarrow> Proof \<Rightarrow> Proof option" where
  "set_member m p =
     (case m of (key, v) \<Rightarrow>
        (let name = fold_name key
         in if name = ''ACTION'' then set_text (\<lambda>s p. p\<lparr>p_Action := s\<rparr>) v p
            else if name = ''IDENTITYKEY'' then set_text (\<lambda>s p. p\<lparr>p_IdentityKey := s\<rparr>) v p
            else if name = ''EXPIRESAT'' then set_int (\<lambda>i p. p\<lparr>p_ExpiresAt := i\<rparr>) v p
            else if name = ''NONCE'' then set_text (\<lambda>s p. p\<lparr>p_Nonce := s\<rparr>) v p
            else if name = ''SIGNATURE'' then set_text (\<lambda>s p. p\<lparr>p_Signature := s\<rparr>) v p
            else Some p))"

fun set_members :: "(string \<times> json) list \<Rightarrow> Proof \<Rightarrow> Proof option" where
  "set_members [] p = Some p"
| "set_members (m # ms) p = (case set_member m p of None \<Rightarrow> None | Some p' \<Rightarrow> set_members ms p')"

definition unmarshal_proof :: "string \<Rightarrow> Proof option" where
  "unmarshal_proof raw =
     (case json_parse raw of
        Some (JObj ms) \<Rightarrow> set_members ms zero_proof
      | Some JNull \<Rightarrow> Some zero_proof
      | _ \<Rightarrow> None)"

definition Decode :: "string \<Rightarrow> auth_err + Proof" where
  "Decode headerValue =
     (case b64_decode headerValue of
        None \<Rightarrow> Inl (ErrMalformed ''header is not base64'')
      | Some raw \<Rightarrow>
          (case unmarshal_proof (string_of_bytes raw) of
             None \<Rightarrow> Inl (ErrMalformed ''header is not a JSON proof'')
           | Some p \<Rightarrow>
               if p_Action p = '''' \<or> p_IdentityKey p = '''' \<or> p_Nonce p = '''' \<or> p_Signature p = ''''
               then Inl (ErrMalformed ''missing fields'') else Inr p))"

section \<open>Signing and verifying\<close>

datatype sign_err = ParseCounterparty | ReadIdentity | DrawNonce | SignProof | EncodeSignature

text \<open>\<open>nonceBytes\<close> is what \<open>rand.Read\<close> drew, \<open>None\<close> when it failed.\<close>

definition Sign ::
  "('k, 's) wallet_api \<Rightarrow> string \<Rightarrow> string \<Rightarrow> time \<Rightarrow> bytes option \<Rightarrow> sign_err + Proof" where
  "Sign w counterpartyKey action now nonceBytes =
     (case PublicKeyFromString w counterpartyKey of
        None \<Rightarrow> Inl ParseCounterparty
      | Some counterparty \<Rightarrow>
    (case GetPublicKey w of
        None \<Rightarrow> Inl ReadIdentity
      | Some pub \<Rightarrow>
    (case nonceBytes of
        None \<Rightarrow> Inl DrawNonce
      | Some nb \<Rightarrow>
    (let p = \<lparr>p_Action = action, p_IdentityKey = ToDERHex w pub,
              p_ExpiresAt = unix_milli (now + Window), p_Nonce = b64_encode nb, p_Signature = ''''\<rparr>
     in case CreateSignature w ProtocolName (p_Nonce p) counterparty
               (Canonical (p_Action p) (p_IdentityKey p) (p_ExpiresAt p) (p_Nonce p)) of
          None \<Rightarrow> Inl SignProof
        | Some sig \<Rightarrow>
            (case ToDER w sig of
               None \<Rightarrow> Inl EncodeSignature
             | Some der \<Rightarrow> Inr (p\<lparr>p_Signature := b64_encode der\<rparr>))))))"

text \<open>Subtraction of \<open>int64\<close> wraps.\<close>

definition wrap64 :: "int \<Rightarrow> int" where
  "wrap64 n = (n + 2 ^ 63) mod 2 ^ 64 - 2 ^ 63"

definition Verify :: "('k, 's) wallet_api \<Rightarrow> Proof \<Rightarrow> string \<Rightarrow> time \<Rightarrow> auth_err + 'k" where
  "Verify w p expectedAction now =
     (if p_Action p \<noteq> expectedAction then Inl ErrActionMismatch
      else
    (let nowMs = unix_milli now
     in if nowMs \<ge> p_ExpiresAt p then Inl ErrExpired
        else if wrap64 (p_ExpiresAt p - nowMs) > (Window + Skew) div 1000000 then Inl ErrTooFarFuture
        else
    (case PublicKeyFromString w (p_IdentityKey p) of
        None \<Rightarrow> Inl (ErrMalformed ''identity key is not a public key'')
      | Some identity \<Rightarrow>
    (case b64_decode (p_Signature p) of
        None \<Rightarrow> Inl (ErrMalformed ''signature is not base64'')
      | Some der \<Rightarrow>
    (case ParseDERSignature w der of
        None \<Rightarrow> Inl (ErrMalformed ''signature is not DER'')
      | Some sig \<Rightarrow>
    (case VerifySignature w ProtocolName (p_Nonce p) identity
            (Canonical (p_Action p) (p_IdentityKey p) (p_ExpiresAt p) (p_Nonce p)) sig of
        Some True \<Rightarrow> Inr identity
      | _ \<Rightarrow> Inl ErrBadSignature))))))"

section \<open>Actions\<close>

lemma LastIndex_less: "LastIndex s sub < 0 \<longleftrightarrow> \<not> sublist sub s"
proof (induction s)
  case (Cons c s)
  then show ?case by (auto simp: Let_def sublist_Cons_right)
qed simp

lemma LastIndex_append:
  assumes "\<not> sublist sub (tl (sub @ t))" and "sub \<noteq> []"
  shows "LastIndex (s @ sub @ t) sub = int (length s)"
proof (induction s)
  case Nil
  obtain c cs where sub: "sub = c # cs" using assms(2) by (cases sub) auto
  have "LastIndex (cs @ t) sub < 0" using assms(1) by (simp add: LastIndex_less sub)
  then have "LastIndex (c # (cs @ t)) sub = 0" by (simp add: sub Let_def)
  then show ?case by (simp add: sub)
next
  case (Cons c s)
  then show ?case by (simp add: Let_def)
qed

text \<open>A digest without a blank cannot hold another separator.\<close>

lemma sublist_tl_sep:
  assumes "CHR '' '' \<notin> set d"
  shows "\<not> sublist sha_sep (tl (sha_sep @ d))"
proof
  assume "sublist sha_sep (tl (sha_sep @ d))"
  then have "set sha_sep \<subseteq> set (tl (sha_sep @ d))" by (rule set_mono_sublist)
  then have "CHR '' '' \<in> set (tl (sha_sep @ d))" by (auto simp: sha_sep_def)
  with assms show False by (simp add: sha_sep_def)
qed

lemma BodySha256_Action:
  assumes "CHR '' '' \<notin> set d" and "d \<noteq> ''''"
  shows "BodySha256 (Action m u d) = d"
proof -
  define x where "x = m @ '' '' @ u"
  have "LastIndex (x @ sha_sep @ d) sha_sep = int (length x)"
    by (rule LastIndex_append [OF sublist_tl_sep [OF assms(1)]]) (simp add: sha_sep_def)
  moreover have "Action m u d = x @ sha_sep @ d" using assms(2) by (simp add: Action_def x_def)
  ultimately show ?thesis by (simp add: BodySha256_def)
qed

lemma BodySha256_bodyless:
  assumes "CHR '' '' \<notin> set m" and "CHR '' '' \<notin> set u" and "\<not> prefix ''sha256='' u"
  shows "BodySha256 (Action m u '''') = ''''"
proof -
  have "\<not> sublist sha_sep (m @ '' '' @ u)"
  proof
    assume "sublist sha_sep (m @ '' '' @ u)"
    then obtain xs ys where eq: "m @ CHR '' '' # u = xs @ CHR '' '' # (''sha256='' @ ys)"
      by (auto simp: sublist_def sha_sep_def)
    have "u = ''sha256='' @ ys"
      using eq append_Cons_eq_iff [OF assms(1,2), of xs "''sha256='' @ ys"] by blast
    with assms(3) show False by simp
  qed
  then show ?thesis using LastIndex_less by (simp add: BodySha256_def Action_def Let_def)
qed

text \<open>An action names one request: method, request target and digest can be read off it.\<close>

lemma BodySha256_of_action:
  assumes "CHR '' '' \<notin> set m" "CHR '' '' \<notin> set u" "CHR '' '' \<notin> set d" "\<not> prefix ''sha256='' u"
  shows "BodySha256 (Action m u d) = d"
  using assms BodySha256_Action BodySha256_bodyless by (cases "d = ''''") simp_all

lemma Action_inject:
  assumes eq: "Action m u d = Action m' u' d'"
    and l: "CHR '' '' \<notin> set m" "CHR '' '' \<notin> set u" "CHR '' '' \<notin> set d" "\<not> prefix ''sha256='' u"
    and r: "CHR '' '' \<notin> set m'" "CHR '' '' \<notin> set u'" "CHR '' '' \<notin> set d'" "\<not> prefix ''sha256='' u'"
  shows "m = m' \<and> u = u' \<and> d = d'"
proof -
  have d: "d = d'" using BodySha256_of_action [OF l] BodySha256_of_action [OF r] eq by simp
  with eq have "m @ CHR '' '' # u = m' @ CHR '' '' # u'"
    by (auto simp: Action_def split: if_splits)
  then show ?thesis using append_sep_inject [of m "CHR '' ''" u m' u'] l(1) r(1) d by blast
qed

section \<open>Canonical bytes\<close>

text \<open>Newline-free actions and keys cannot be confused: the signed bytes determine all four fields.\<close>

lemma Canonical_inject:
  assumes "Canonical a k e n = Canonical a' k' e' n'"
    and "CHR 0x0A \<notin> set a" "CHR 0x0A \<notin> set k" "CHR 0x0A \<notin> set a'" "CHR 0x0A \<notin> set k'"
  shows "a = a' \<and> k = k' \<and> e = e' \<and> n = n'"
proof -
  have fmt: "CHR 0x0A \<notin> set (format_int i)" for i
    using format_int_chars [of "CHR 0x0A" i] by (auto simp: is_digit_def code_of_def)
  have "a @ CHR 0x0A # k @ CHR 0x0A # format_int e @ CHR 0x0A # n =
        a' @ CHR 0x0A # k' @ CHR 0x0A # format_int e' @ CHR 0x0A # n'"
    using assms(1) unfolding Canonical_def bytes_of_string_inject by simp
  then have "a = a'" "k @ CHR 0x0A # format_int e @ CHR 0x0A # n = k' @ CHR 0x0A # format_int e' @ CHR 0x0A # n'"
    using append_sep_inject [OF _ assms(2,4)] by blast+
  moreover from this have "k = k'" "format_int e @ CHR 0x0A # n = format_int e' @ CHR 0x0A # n'"
    using append_sep_inject [OF _ assms(3,5)] by blast+
  moreover from this have "format_int e = format_int e'" "n = n'"
    using append_sep_inject [OF _ fmt fmt] by blast+
  ultimately show ?thesis by (simp add: format_int_inject)
qed

section \<open>The wire format round trip\<close>

lemma expect_hit: "\<not> is_ws c \<Longrightarrow> expect c (c # r) = Some r"
  by (simp add: expect_def skip_ws_def)

lemma expect_miss: "\<not> is_ws x \<Longrightarrow> x \<noteq> c \<Longrightarrow> expect c (x # r) = None"
  by (simp add: expect_def skip_ws_def)

lemmas punct = expect_hit expect_miss is_ws_def

lemma json_value_quote:
  assumes "ascii s"
  shows "json_value d (json_quote s @ r) = Some (JStr s, r)"
  using json_unquote_escape [OF assms, of r]
  by (simp add: json_value.simps [of d "CHR 0x22 # json_escape s @ CHR 0x22 # r"] json_quote_def skip_ws_def is_ws_def)

lemma format_nat_leading: "format_nat n = CHR ''0'' # cs \<Longrightarrow> cs = []"
proof (induction n arbitrary: cs rule: format_nat.induct)
  case (1 n)
  show ?case
  proof (cases "n < 10")
    case True
    with 1(2) show ?thesis by (simp add: format_nat.simps [of n])
  next
    case False
    obtain c ds where f: "format_nat (n div 10) = c # ds" by (cases "format_nat (n div 10)") auto
    with False 1(2) have c: "c = CHR ''0''" by (simp add: format_nat.simps [of n])
    with 1(1) [OF False] f have "ds = []" by simp
    with f c have "parse_digits 0 [CHR ''0''] = Some (n div 10)"
      using parse_digits_format_nat [of "n div 10"] by simp
    with False show ?thesis by (simp add: is_digit_def digit_val_def code_of_def)
  qed
qed

lemma json_int_part_format:
  assumes "\<not> is_digit c"
  shows "json_int_part (format_nat n @ c # r) = Some (format_nat n, c # r)"
proof -
  obtain x cs where f: "format_nat n = x # cs" by (cases "format_nat n") auto
  have "\<forall>y \<in> set (format_nat n). is_digit y" using format_nat_digits by blast
  then have tw: "takeWhile is_digit (format_nat n @ c # r) = format_nat n"
    "dropWhile is_digit (format_nat n @ c # r) = c # r"
    using assms by (simp_all add: takeWhile_append2 dropWhile_append2)
  show ?thesis
  proof (cases "x = CHR ''0''")
    case True
    with f format_nat_leading [of n cs] show ?thesis by (simp add: json_int_part_def)
  next
    case False
    with f tw show ?thesis by (simp add: json_int_part_def json_digits_def)
  qed
qed

text \<open>What cannot go on a number.\<close>

definition num_end :: "char \<Rightarrow> bool" where
  "num_end c \<longleftrightarrow> \<not> is_digit c \<and> c \<notin> {CHR ''.'', CHR ''e'', CHR ''E''}"

lemma json_number_format:
  assumes "num_end c"
  shows "json_number (format_int i @ c # r) = Some (format_int i, c # r)"
proof -
  have c: "\<not> is_digit c" using assms by (simp add: num_end_def)
  obtain x cs where f: "format_nat (nat i) = x # cs" by (cases "format_nat (nat i)") auto
  then have "x \<noteq> CHR ''-''" using format_nat_not_sign by blast
  then show ?thesis
    using json_int_part_format [OF c, of "nat i" r] json_int_part_format [OF c, of "nat (- i)" r] f assms
    by (auto simp: json_number_def format_int_def json_frac_part_def json_exp_part_def num_end_def)
qed

lemma json_value_number:
  assumes "num_end c"
  shows "json_value d (format_int i @ c # r) = Some (JNum (format_int i), c # r)"
proof -
  obtain x cs where f: "format_int i = x # cs" by (cases "format_int i") (auto simp: format_int_def split: if_splits)
  then have x: "is_digit x \<or> x = CHR ''-''" using format_int_chars [of x i] by simp
  then have "\<not> is_ws x" "x \<noteq> CHR ''{''" "x \<noteq> CHR ''[''" "x \<noteq> CHR 0x22"
    by (auto simp: is_ws_def is_digit_def code_of_def)
  moreover have "json_number (x # cs @ c # r) = Some (x # cs, c # r)"
    using json_number_format [OF assms, of i r] f by simp
  ultimately have "json_value d (x # cs @ c # r) = Some (JNum (x # cs), c # r)"
    using x by (simp add: json_value.simps [of d "x # cs @ c # r"] skip_ws_def disj_commute)
  with f show ?thesis by simp
qed

lemma json_value_int:
  "json_value d (format_int i @ CHR '','' # r) = Some (JNum (format_int i), CHR '','' # r)"
  by (rule json_value_number) (simp add: num_end_def is_digit_def code_of_def)

lemma json_members_field:
  assumes "ascii key" and "json_value d (val @ CHR '','' # r) = Some (v, CHR '','' # r)"
  shows "json_members d (json_field key val @ CHR '','' # r) =
     map_option (\<lambda>(ms, t). ((key, v) # ms, t)) (json_members d r)"
  using json_unquote_escape [OF assms(1), of "CHR '':'' # val @ CHR '','' # r"] assms(2)
  by (simp add: json_members.simps [of d "CHR 0x22 # json_escape key @ CHR 0x22 # CHR '':'' # val @ CHR '','' # r"] json_field_def json_quote_def punct)

lemma json_members_last:
  assumes "ascii key" and "json_value d (val @ CHR ''}'' # r) = Some (v, CHR ''}'' # r)"
  shows "json_members d (json_field key val @ CHR ''}'' # r) = Some ([(key, v)], r)"
  using json_unquote_escape [OF assms(1), of "CHR '':'' # val @ CHR ''}'' # r"] assms(2)
  by (simp add: json_members.simps [of d "CHR 0x22 # json_escape key @ CHR 0x22 # CHR '':'' # val @ CHR ''}'' # r"] json_field_def json_quote_def punct)

lemma ascii_names:
  "ascii ''action''" "ascii ''identityKey''" "ascii ''expiresAt''" "ascii ''nonce''" "ascii ''signature''"
  by (simp_all add: ascii_def code_of_def)

definition proof_ascii :: "Proof \<Rightarrow> bool" where
  "proof_ascii p \<longleftrightarrow> ascii (p_Action p) \<and> ascii (p_IdentityKey p) \<and> ascii (p_Nonce p) \<and> ascii (p_Signature p)"

lemma json_parse_marshal:
  assumes "proof_ascii p"
  shows "json_parse (marshal_proof p) =
     Some (JObj [(''action'', JStr (p_Action p)), (''identityKey'', JStr (p_IdentityKey p)),
       (''expiresAt'', JNum (format_int (p_ExpiresAt p))), (''nonce'', JStr (p_Nonce p)),
       (''signature'', JStr (p_Signature p))])"
proof -
  have quote: "json_value d (json_quote (f p) @ r) = Some (JStr (f p), r)"
    if "f \<in> {p_Action, p_IdentityKey, p_Nonce, p_Signature}" for d f r
    using that assms by (intro json_value_quote) (auto simp: proof_ascii_def)
  let ?tail = "json_field ''identityKey'' (json_quote (p_IdentityKey p)) @ CHR '','' #
     json_field ''expiresAt'' (format_int (p_ExpiresAt p)) @ CHR '','' #
     json_field ''nonce'' (json_quote (p_Nonce p)) @ CHR '','' #
     json_field ''signature'' (json_quote (p_Signature p)) @ ''}''"
  let ?body = "json_field ''action'' (json_quote (p_Action p)) @ CHR '','' # ?tail"
  have "json_members 1 ?body = Some ([(''action'', JStr (p_Action p)), (''identityKey'', JStr (p_IdentityKey p)),
       (''expiresAt'', JNum (format_int (p_ExpiresAt p))), (''nonce'', JStr (p_Nonce p)),
       (''signature'', JStr (p_Signature p))], [])"
    by (simp add: json_members_field json_members_last ascii_names quote json_value_int)
  moreover have "expect (CHR ''}'') ?body = None"
    by (simp add: json_field_def json_quote_def punct)
  moreover have "marshal_proof p = CHR ''{'' # ?body" by (simp add: marshal_proof_def)
  ultimately show ?thesis
    by (simp add: json_parse_def json_value.simps [of 0 "CHR ''{'' # ?body"] skip_ws_def is_ws_def max_nesting_def)
qed

lemma fold_names:
  "fold_name ''action'' = ''ACTION''" "fold_name ''identityKey'' = ''IDENTITYKEY''"
  "fold_name ''expiresAt'' = ''EXPIRESAT''" "fold_name ''nonce'' = ''NONCE''"
  "fold_name ''signature'' = ''SIGNATURE''"
  by code_simp+

lemma set_member_fields:
  "set_member (''action'', JStr s) p = Some (p\<lparr>p_Action := s\<rparr>)"
  "set_member (''identityKey'', JStr s) p = Some (p\<lparr>p_IdentityKey := s\<rparr>)"
  "set_member (''nonce'', JStr s) p = Some (p\<lparr>p_Nonce := s\<rparr>)"
  "set_member (''signature'', JStr s) p = Some (p\<lparr>p_Signature := s\<rparr>)"
  "int64_ok i \<Longrightarrow> set_member (''expiresAt'', JNum (format_int i)) p = Some (p\<lparr>p_ExpiresAt := i\<rparr>)"
  by (simp_all add: set_member_def fold_names set_text_def set_int_def atoi_format_int Let_def
      del: fold_name.simps)

lemma unmarshal_marshal:
  assumes "proof_ascii p" and "int64_ok (p_ExpiresAt p)"
  shows "unmarshal_proof (marshal_proof p) = Some p"
  using assms by (simp add: unmarshal_proof_def json_parse_marshal set_member_fields zero_proof_def)

lemma Decode_Encode:
  assumes "proof_ascii p" and "int64_ok (p_ExpiresAt p)"
    and "p_Action p \<noteq> ''''" "p_IdentityKey p \<noteq> ''''" "p_Nonce p \<noteq> ''''" "p_Signature p \<noteq> ''''"
  shows "Decode (Encode p) = Inr p"
  using assms by (simp add: Decode_def Encode_def unmarshal_marshal)

section \<open>Freshness\<close>

lemma wrap64_id: "- (2 ^ 63) \<le> n \<Longrightarrow> n < 2 ^ 63 \<Longrightarrow> wrap64 n = n"
  by (simp add: wrap64_def)

text \<open>
  A proof that verifies describes the request, is fresh, and carries a valid signature of
  the identity returned. The subtraction cannot wrap on a clock past 1970.
\<close>

lemma Verify_sound:
  assumes "Verify w p expected now = Inr identity" and "0 \<le> now" and "int64_ok (p_ExpiresAt p)"
  shows "p_Action p = expected"
    and "unix_milli now < p_ExpiresAt p" and "p_ExpiresAt p \<le> unix_milli now + 150000"
    and "PublicKeyFromString w (p_IdentityKey p) = Some identity"
    and "\<exists>der sig. b64_decode (p_Signature p) = Some der \<and> ParseDERSignature w der = Some sig \<and>
       VerifySignature w ProtocolName (p_Nonce p) identity
         (Canonical expected (p_IdentityKey p) (p_ExpiresAt p) (p_Nonce p)) sig = Some True"
proof -
  have ms: "0 \<le> unix_milli now" using assms(2) by (simp add: unix_milli_def)
  have early: "unix_milli now < p_ExpiresAt p"
    and late: "\<not> wrap64 (p_ExpiresAt p - unix_milli now) > (Window + Skew) div 1000000"
    using assms(1) by (auto simp: Verify_def Let_def split: if_splits)
  have "wrap64 (p_ExpiresAt p - unix_milli now) = p_ExpiresAt p - unix_milli now"
    using ms early assms(3) by (intro wrap64_id) (auto simp: int64_ok_def)
  with late show "p_ExpiresAt p \<le> unix_milli now + 150000" by (simp add: Window_def Skew_def)
  show "unix_milli now < p_ExpiresAt p" by (rule early)
  show "p_Action p = expected" using assms(1) by (simp add: Verify_def split: if_splits)
  with assms(1) show "PublicKeyFromString w (p_IdentityKey p) = Some identity"
    and "\<exists>der sig. b64_decode (p_Signature p) = Some der \<and> ParseDERSignature w der = Some sig \<and>
       VerifySignature w ProtocolName (p_Nonce p) identity
         (Canonical expected (p_IdentityKey p) (p_ExpiresAt p) (p_Nonce p)) sig = Some True"
    by (auto simp: Verify_def Let_def split: if_splits option.splits bool.splits)
qed

section \<open>A signed proof verifies\<close>

text \<open>
  What the SDK documents of a pair of wallets, the client's \<open>cw\<close> and the server's \<open>sw\<close>:
  keys and signatures survive their encodings, and a signature made toward the server's key
  verifies at the server with the client as counterparty.
\<close>

definition sdk_pair :: "('k, 's) wallet_api \<Rightarrow> ('k, 's) wallet_api \<Rightarrow> 'k \<Rightarrow> 'k \<Rightarrow> bool" where
  "sdk_pair cw sw ck sk \<longleftrightarrow>
     GetPublicKey cw = Some ck \<and> GetPublicKey sw = Some sk \<and>
     (\<forall>k. PublicKeyFromString cw (ToDERHex cw k) = Some k) \<and>
     (\<forall>k. PublicKeyFromString sw (ToDERHex cw k) = Some k) \<and>
     (\<forall>sig der. ToDER cw sig = Some der \<longrightarrow> ParseDERSignature sw der = Some sig) \<and>
     (\<forall>n m sig. CreateSignature cw ProtocolName n sk m = Some sig \<longrightarrow>
        VerifySignature sw ProtocolName n ck m sig = Some True)"

lemma Verify_Sign:
  assumes "sdk_pair cw sw ck sk" and "Sign cw (ToDERHex cw sk) action now (Some nb) = Inr p"
    and "unix_milli now \<le> unix_milli now'" and "unix_milli now' < unix_milli (now + Window)"
  shows "Verify sw p action now' = Inr ck"
proof -
  have "unix_milli (now + Window) \<le> unix_milli now + 120000"
    by (simp add: unix_milli_def Window_def)
  then have "wrap64 (unix_milli (now + Window) - unix_milli now') = unix_milli (now + Window) - unix_milli now'"
    "unix_milli (now + Window) - unix_milli now' \<le> 150000"
    using assms(3,4) by (auto intro!: wrap64_id)
  then show ?thesis
    using assms
    by (auto simp: sdk_pair_def Sign_def Verify_def Let_def Window_def Skew_def split: option.splits)
qed

end
