(* ===== verification/Http.thy ===== *)
theory Http
  imports Readers Auth_Proof
begin

text \<open>
  The HTTP layer as the program sees it: requests (with \<open>net/url\<close>'s query parsing), and
  response writers. A writer is the connection's own (\<open>Base\<close>) or one of the server's two
  wrappers, \<open>Recorder\<close> (\<open>statusRecorder\<close> of \<open>telemetry.go\<close>) and \<open>Guard\<close> (\<open>sizeGuard\<close> of
  \<open>server.go\<close>). What a handler writes is kept as pieces, bytes or a JSON value, in the order
  written; the text of a JSON value is not spelled out. Also \<open>internal/server/responses\<close>.
\<close>

section \<open>Requests\<close>

record 'k request =
  rq_Method :: string
  rq_Path :: string
  rq_EscapedPath :: string
  rq_ForceQuery :: bool
  rq_RawQuery :: string
  rq_Header :: "(string \<times> string) list"
  rq_ContentLength :: int
  rq_Body :: reader
  rq_Params :: "(string \<times> string) list"
  rq_Identity :: "'k option"
  rq_Now :: time

text \<open>\<open>Header.Get\<close> on canonical names, and \<open>chi.URLParam\<close>: empty when absent.\<close>

definition first_value :: "(string \<times> string) list \<Rightarrow> string \<Rightarrow> string" where
  "first_value kvs name = (case map_of kvs name of None \<Rightarrow> '''' | Some v \<Rightarrow> v)"

definition URLParam :: "'k request \<Rightarrow> string \<Rightarrow> string" where
  "URLParam r name = first_value (rq_Params r) name"

definition RequestURI :: "'k request \<Rightarrow> string" where
  "RequestURI r =
     (if rq_EscapedPath r = '''' then ''/'' else rq_EscapedPath r) @
     (if rq_ForceQuery r \<or> rq_RawQuery r \<noteq> '''' then ''?'' @ rq_RawQuery r else '''')"

text \<open>\<open>strings.Cut\<close> at a character: the text before it and the text after it.\<close>

definition cut :: "char \<Rightarrow> string \<Rightarrow> string \<times> string" where
  "cut c s = (takeWhile (\<lambda>x. x \<noteq> c) s, drop 1 (dropWhile (\<lambda>x. x \<noteq> c) s))"

fun QueryUnescape :: "string \<Rightarrow> string option" where
  "QueryUnescape [] = Some []"
| "QueryUnescape (c # s) =
     (if c = CHR 0x25 then
        (case s of
           a # b # r \<Rightarrow>
             (case (hex_val a, hex_val b) of
                (Some x, Some y) \<Rightarrow> map_option (Cons (char_of (x * 16 + y))) (QueryUnescape r)
              | _ \<Rightarrow> None)
         | _ \<Rightarrow> None)
      else map_option (Cons (if c = CHR ''+'' then CHR '' '' else c)) (QueryUnescape s))"

fun split_on :: "char \<Rightarrow> string \<Rightarrow> string list" where
  "split_on c [] = [[]]"
| "split_on c (x # s) =
     (if x = c then [] # split_on c s
      else case split_on c s of [] \<Rightarrow> [[x]] | p # ps \<Rightarrow> (x # p) # ps)"

definition query_pair :: "string \<Rightarrow> (string \<times> string) list" where
  "query_pair part =
     (if CHR '';'' \<in> set part \<or> part = '''' then []
      else case cut (CHR ''='') part of
             (key, val) \<Rightarrow>
               (case (QueryUnescape key, QueryUnescape val) of
                  (Some k, Some v) \<Rightarrow> [(k, v)]
                | _ \<Rightarrow> []))"

definition Query :: "'k request \<Rightarrow> (string \<times> string) list" where
  "Query r = concat (map query_pair (split_on (CHR 0x26) (rq_RawQuery r)))"

section \<open>Payloads and response writers\<close>

datatype payload =
    PNum int
  | PText string
  | PTime time
  | PList "payload list"
  | PObj "(string \<times> payload) list"

datatype piece = PieceBytes bytes | PieceJson payload

record base_writer =
  bw_Header :: "(string \<times> string) list"
  bw_Sent :: "(int \<times> (string \<times> string) list) option"
  bw_Body :: "piece list"

datatype writer =
    Base base_writer
  | Recorder writer int "piece list"
  | Guard writer int bool bool

definition new_response :: base_writer where
  "new_response = \<lparr>bw_Header = [], bw_Sent = None, bw_Body = []\<rparr>"

primrec map_header :: "((string \<times> string) list \<Rightarrow> (string \<times> string) list) \<Rightarrow> writer \<Rightarrow> writer" where
  "map_header f (Base b) = Base (b\<lparr>bw_Header := f (bw_Header b)\<rparr>)"
| "map_header f (Recorder w status written) = Recorder (map_header f w) status written"
| "map_header f (Guard w limit over wrote) = Guard (map_header f w) limit over wrote"

definition set_header :: "string \<Rightarrow> string \<Rightarrow> writer \<Rightarrow> writer" where
  "set_header name val = map_header (AList.update name val)"

definition base_WriteHeader :: "int \<Rightarrow> base_writer \<Rightarrow> base_writer" where
  "base_WriteHeader code b =
     (case bw_Sent b of None \<Rightarrow> b\<lparr>bw_Sent := Some (code, bw_Header b)\<rparr> | Some _ \<Rightarrow> b)"

definition base_Write :: "piece \<Rightarrow> base_writer \<Rightarrow> base_writer" where
  "base_Write x b = (let b' = base_WriteHeader 200 b in b'\<lparr>bw_Body := bw_Body b' @ [x]\<rparr>)"

definition error_body :: "string \<Rightarrow> string \<Rightarrow> piece" where
  "error_body code description =
     PieceJson (PObj [(''status'', PText ''error''), (''code'', PText code), (''description'', PText description)])"

definition too_large_text :: "int \<Rightarrow> string" where
  "too_large_text blobLimit =
     ''Blob exceeds the maximum permitted size of '' @ format_int blobLimit @
     '' bytes. GET /v1/limits reports the current cap.''"

definition keeps_cors :: "string \<times> string \<Rightarrow> bool" where
  "keeps_cors h \<longleftrightarrow> prefix ''Access-Control-'' (fst h)"

lemma size_map_header [simp]: "size (map_header f w) = size w"
  by (induction w) simp_all

lemma size_set_header [simp]: "size (set_header n v w) = size w"
  by (simp add: set_header_def)

text \<open>
  \<open>WriteHeader\<close> and \<open>Write\<close>. A guard whose body overran answers with its own 413 through
  \<open>writeTooLarge\<close> on the writer it wraps; a second \<open>WriteHeader\<close> of the connection's writer
  has no effect.
\<close>

function WriteHeader :: "int \<Rightarrow> writer \<Rightarrow> writer" and Write :: "piece \<Rightarrow> writer \<Rightarrow> writer" where
  "WriteHeader code (Base b) = Base (base_WriteHeader code b)"
| "WriteHeader code (Recorder w status written) =
     Recorder (WriteHeader code w) (if status = 0 then code else status) written"
| "WriteHeader code (Guard w limit over wrote) =
     (if wrote then Guard w limit over wrote
      else if over then
        Guard (Write (error_body ''ERR_BLOB_TOO_LARGE'' (too_large_text limit))
                (WriteHeader 413 (set_header ''Content-Type'' ''application/json''
                  (map_header (filter keeps_cors) w)))) limit over True
      else Guard (WriteHeader code w) limit over True)"
| "Write x (Base b) = Base (base_Write x b)"
| "Write x (Recorder w status written) =
     Recorder (Write x w) (if status = 0 then 200 else status) (written @ [x])"
| "Write x (Guard w limit over wrote) =
     (if over then (if wrote then Guard w limit over wrote else WriteHeader 200 (Guard w limit over wrote))
      else if wrote then Guard (Write x w) limit over wrote
      else Guard (Write x (WriteHeader 200 w)) limit over True)"
  by pat_completeness auto
termination
proof -
  have same: "WriteHeader_Write_dom (Inl (code, w)) \<Longrightarrow> size (WriteHeader code w) = size w"
    "WriteHeader_Write_dom (Inr (x, w)) \<Longrightarrow> size (Write x w) = size w" for code x w
    by (induction code w and x w rule: WriteHeader_Write.pinduct)
      (auto simp: WriteHeader.psimps Write.psimps)
  show ?thesis
    by (relation "measure (\<lambda>x. case x of Inl (_, w) \<Rightarrow> 2 * size w | Inr (_, w) \<Rightarrow> 2 * size w + 1)")
      (auto simp: same)
qed

lemma writer_size: "size (WriteHeader code w) = size w" "size (Write x w) = size w"
  by (induction code w and x w rule: WriteHeader_Write.induct) auto

section \<open>Responses (internal/server/responses)\<close>

definition WriteJSON :: "writer \<Rightarrow> int \<Rightarrow> payload \<Rightarrow> writer" where
  "WriteJSON w status payload =
     Write (PieceJson payload) (WriteHeader status (set_header ''Content-Type'' ''application/json'' w))"

definition WriteError :: "writer \<Rightarrow> int \<Rightarrow> string \<Rightarrow> string \<Rightarrow> writer" where
  "WriteError w status code description =
     WriteJSON w status
       (PObj [(''status'', PText ''error''), (''code'', PText code), (''description'', PText description)])"

text \<open>The envelope of an error, for the statements about answers.\<close>

definition error_payload :: "string \<Rightarrow> string \<Rightarrow> payload" where
  "error_payload code t =
     PObj [(''status'', PText ''error''), (''code'', PText code), (''description'', PText t)]"

lemma WriteError_payload: "WriteError w status code t = WriteJSON w status (error_payload code t)"
  by (simp add: WriteError_def error_payload_def)

text \<open>\<open>writeTooLarge\<close> is what a guard does inside \<open>WriteHeader\<close>.\<close>

definition writeTooLarge :: "writer \<Rightarrow> int \<Rightarrow> writer" where
  "writeTooLarge w blobLimit = WriteError w 413 ''ERR_BLOB_TOO_LARGE'' (too_large_text blobLimit)"

lemma WriteHeader_Guard_over:
  "WriteHeader code (Guard w limit True False) =
     Guard (writeTooLarge (map_header (filter keeps_cors) w) limit) limit True True"
  by (simp add: writeTooLarge_def WriteError_def WriteJSON_def error_body_def)

section \<open>What has been answered\<close>

primrec base_of :: "writer \<Rightarrow> base_writer" where
  "base_of (Base b) = b"
| "base_of (Recorder w status written) = base_of w"
| "base_of (Guard w limit over wrote) = base_of w"

definition sent_status :: "writer \<Rightarrow> int option" where
  "sent_status w = map_option fst (bw_Sent (base_of w))"

text \<open>
  The countingBody of a request tells its guard through a shared pointer: after the store
  has read from the body, the guard's flag is the reader's.
\<close>

primrec sync_over :: "bool \<Rightarrow> writer \<Rightarrow> writer" where
  "sync_over ov (Base b) = Base b"
| "sync_over ov (Recorder w status written) = Recorder (sync_over ov w) status written"
| "sync_over ov (Guard w limit over wrote) = Guard w limit (over \<or> ov) wrote"

text \<open>A writer nothing has been written to yet, below a guard that has not answered.\<close>

primrec unsent :: "writer \<Rightarrow> bool" where
  "unsent (Base b) \<longleftrightarrow> bw_Sent b = None \<and> bw_Body b = []"
| "unsent (Recorder w status written) \<longleftrightarrow> unsent w \<and> status = 0 \<and> written = []"
| "unsent (Guard w limit over wrote) \<longleftrightarrow> unsent w \<and> \<not> wrote"

text \<open>No guard of the writer has seen an overrun.\<close>

primrec within :: "writer \<Rightarrow> bool" where
  "within (Base b) \<longleftrightarrow> True"
| "within (Recorder w status written) \<longleftrightarrow> within w"
| "within (Guard w limit over wrote) \<longleftrightarrow> within w \<and> \<not> over"

lemma base_of_map_header: "base_of (map_header f w) = (base_of w)\<lparr>bw_Header := f (bw_Header (base_of w))\<rparr>"
  by (induction w) simp_all

lemma unsent_map_header [simp]: "unsent (map_header f w) = unsent w"
  by (induction w) simp_all

lemma within_map_header [simp]: "within (map_header f w) = within w"
  by (induction w) simp_all

lemma unsent_base: "unsent w \<Longrightarrow> bw_Sent (base_of w) = None \<and> bw_Body (base_of w) = []"
  by (induction w) simp_all

text \<open>
  The first answer through writers without an overrun reaches the connection as it is: its
  status, the headers set so far, its body.
\<close>

lemma base_of_WriteHeader:
  assumes "unsent w" and "within w"
  shows "base_of (WriteHeader code w) = base_WriteHeader code (base_of w)"
  using assms by (induction w) simp_all

lemma within_WriteHeader: "within w \<Longrightarrow> within (WriteHeader code w)"
  by (induction w arbitrary: code) simp_all

primrec settled :: "writer \<Rightarrow> bool" where
  "settled (Base b) \<longleftrightarrow> bw_Sent b \<noteq> None"
| "settled (Recorder w status written) \<longleftrightarrow> settled w"
| "settled (Guard w limit over wrote) \<longleftrightarrow> settled w \<and> wrote"

lemma settled_WriteHeader: "unsent w \<Longrightarrow> within w \<Longrightarrow> settled (WriteHeader code w)"
  by (induction w) (simp_all add: base_WriteHeader_def)

lemma base_of_Write:
  assumes "settled w" and "within w"
  shows "base_of (Write x w) = (base_of w)\<lparr>bw_Body := bw_Body (base_of w) @ [x]\<rparr>"
  using assms by (induction w) (auto simp: base_Write_def base_WriteHeader_def)

lemma base_of_WriteJSON:
  assumes "unsent w" and "within w"
  shows "base_of (WriteJSON w status payload) =
     (let hdr = AList.update ''Content-Type'' ''application/json'' (bw_Header (base_of w))
      in \<lparr>bw_Header = hdr, bw_Sent = Some (status, hdr), bw_Body = [PieceJson payload]\<rparr>)"
proof -
  let ?w = "set_header ''Content-Type'' ''application/json'' w"
  have w: "unsent ?w" "within ?w" using assms by (simp_all add: set_header_def)
  then show ?thesis
    using unsent_base [OF w(1)]
    by (simp add: WriteJSON_def base_of_Write settled_WriteHeader within_WriteHeader base_of_WriteHeader
        base_WriteHeader_def set_header_def base_of_map_header Let_def)
qed

text \<open>Once a guard has seen an overrun, the first answer through it is the 413, whatever the handler wrote.\<close>

lemma guard_overrides:
  assumes "unsent w" and "within w"
  shows "base_of (WriteJSON (Guard w limit True False) status payload) =
     (let hdr = AList.update ''Content-Type'' ''application/json''
                  (filter keeps_cors (AList.update ''Content-Type'' ''application/json'' (bw_Header (base_of w))))
      in \<lparr>bw_Header = hdr, bw_Sent = Some (413, hdr),
          bw_Body = [error_body ''ERR_BLOB_TOO_LARGE'' (too_large_text limit)]\<rparr>)"
proof -
  let ?w = "map_header (filter keeps_cors) (set_header ''Content-Type'' ''application/json'' w)"
  have w: "unsent ?w" "within ?w" using assms by (simp_all add: set_header_def)
  have "base_of (WriteJSON (Guard w limit True False) status payload) =
      base_of (WriteJSON ?w 413 (PObj [(''status'', PText ''error''), (''code'', PText ''ERR_BLOB_TOO_LARGE''),
        (''description'', PText (too_large_text limit))]))"
    by (simp add: WriteJSON_def set_header_def error_body_def)
  then show ?thesis
    unfolding base_of_WriteJSON [OF w] by (simp add: set_header_def base_of_map_header error_body_def)
qed

end
