(* ===== verification/Blob_Types.thy ===== *)
theory Blob_Types
  imports Readers
begin

text \<open>
  \<open>internal/blobstore/blobstore.go\<close>: the addresses, the metadata, the errors and the
  interface \<open>BlobStore\<close>, and with them what the interface promises. The abstract state of
  a store is one log per (pseudonym, device, generation): a list whose position \<open>i\<close> holds
  sequence number \<open>i + 1\<close>, empty where there is no such generation. The locale
  \<open>blob_store\<close> states every operation's contract on these logs; the memory store, the
  PostgreSQL store and the tracing wrapper are interpretations of it.
\<close>

section \<open>Data\<close>

record BlobKey =
  key_Pseudonym :: string
  key_DeviceID :: string
  key_Generation :: int
  key_Seq :: int

record Entry =
  ent_Seq :: int
  ent_Sha256 :: string
  ent_PrevSha256 :: string
  ent_Size :: int
  ent_CreatedAt :: time

record DeviceSummary =
  dev_DeviceID :: string
  dev_Generation :: int
  dev_HeadSeq :: int
  dev_HeadSha256 :: string
  dev_TotalBytes :: int
  dev_UpdatedAt :: time

definition RetainedGenerations :: int where
  "RetainedGenerations = 2"

text \<open>
  Errors. The sentinel errors of the package, each with the detail its \<open>fmt.Errorf\<close>
  wrapping adds; a failed read of the body; an error of the database driver, which is
  either a PostgreSQL error with its SQLSTATE or anything else (a lost connection, a
  cancelled context).
\<close>

datatype pq_error = PqError string | DriverError string

datatype seq_detail = ExpectedSeq int int | AnotherAppend

datatype store_err =
    ErrSeqConflict seq_detail
  | ErrNotFound
  | ErrRetentionGuard int int
  | ErrEmptyBlob
  | ErrReadBody rd_err
  | ErrDatabase pq_error

text \<open>The texts of the two errors whose \<open>Error()\<close> reaches a client.\<close>

fun store_err_text :: "store_err \<Rightarrow> string" where
  "store_err_text (ErrSeqConflict (ExpectedSeq want got)) =
     ''sequence conflict: expected seq '' @ format_int want @ '', got '' @ format_int got"
| "store_err_text (ErrSeqConflict AnotherAppend) =
     ''sequence conflict: another append holds this sequence''"
| "store_err_text (ErrRetentionGuard generation newest) =
     ''generation is within the retained window: generation '' @ format_int generation @
     '', newest '' @ format_int newest"
| "store_err_text ErrNotFound = ''not found''"
| "store_err_text ErrEmptyBlob = ''empty blob''"
| "store_err_text (ErrReadBody e) = ''read body''"
| "store_err_text (ErrDatabase (PqError code)) = ''pq: '' @ code"
| "store_err_text (ErrDatabase (DriverError t)) = t"

text \<open>
  The interface: a record of operations on a store state \<open>'s\<close>. Every operation returns
  the state after it, and \<open>Append\<close> also the body reader, whose wrappers carry state that
  the response path looks at later.
\<close>

record 's BlobStore =
  bs_Append :: "'s \<Rightarrow> BlobKey \<Rightarrow> string \<Rightarrow> reader \<Rightarrow> (store_err + string \<times> int) \<times> 's \<times> reader"
  bs_Get :: "'s \<Rightarrow> BlobKey \<Rightarrow> (store_err + reader \<times> int) \<times> 's"
  bs_Index :: "'s \<Rightarrow> string \<Rightarrow> string \<Rightarrow> int \<Rightarrow> int \<Rightarrow> int \<Rightarrow> (store_err + Entry list) \<times> 's"
  bs_Manifest :: "'s \<Rightarrow> string \<Rightarrow> (store_err + DeviceSummary list) \<times> 's"
  bs_DeleteGeneration :: "'s \<Rightarrow> string \<Rightarrow> string \<Rightarrow> int \<Rightarrow> (store_err + int) \<times> 's"
  bs_DeleteAccount :: "'s \<Rightarrow> string \<Rightarrow> (store_err + int) \<times> 's"
  bs_Ping :: "'s \<Rightarrow> store_err option \<times> 's"

section \<open>What can be addressed\<close>

text \<open>
  \<open>name_ok\<close>: text without a zero byte and within ASCII, which both stores keep as it is
  (the memory store's row keys use the zero byte as separator, PostgreSQL refuses it);
  every pseudonym and device identifier the handlers pass is hexadecimal. \<open>int4_ok\<close>: the
  range of the INTEGER columns.
\<close>

definition name_ok :: "string \<Rightarrow> bool" where
  "name_ok s \<longleftrightarrow> (\<forall>c \<in> set s. 0 < code_of c \<and> code_of c < 128)"

definition int4_ok :: "int \<Rightarrow> bool" where
  "int4_ok n \<longleftrightarrow> - (2 ^ 31) \<le> n \<and> n < 2 ^ 31"

text \<open>
  A body of 2 to the power of 51 bytes or more would need more chunks of 1 MiB than the
  INTEGER column numbering them can count.
\<close>

definition chunkable :: "reader \<Rightarrow> bool" where
  "chunkable r \<longleftrightarrow> length (content r) < 2 ^ 51"

definition key_ok :: "BlobKey \<Rightarrow> bool" where
  "key_ok k \<longleftrightarrow> name_ok (key_Pseudonym k) \<and> name_ok (key_DeviceID k) \<and>
     1 \<le> key_Generation k \<and> int4_ok (key_Generation k) \<and> 1 \<le> key_Seq k \<and> int4_ok (key_Seq k)"

section \<open>The abstract logs\<close>

record stored =
  s_data :: bytes
  s_prev :: string
  s_created :: time

type_synonym logs = "string \<Rightarrow> string \<Rightarrow> int \<Rightarrow> stored list"

definition log_of :: "logs \<Rightarrow> BlobKey \<Rightarrow> stored list" where
  "log_of L k = L (key_Pseudonym k) (key_DeviceID k) (key_Generation k)"

definition set_log :: "logs \<Rightarrow> string \<Rightarrow> string \<Rightarrow> int \<Rightarrow> stored list \<Rightarrow> logs" where
  "set_log L p d g l = (\<lambda>p' d' g'. if p' = p \<and> d' = d \<and> g' = g then l else L p' d' g')"

definition logs_append :: "logs \<Rightarrow> BlobKey \<Rightarrow> stored \<Rightarrow> logs" where
  "logs_append L k st =
     set_log L (key_Pseudonym k) (key_DeviceID k) (key_Generation k) (log_of L k @ [st])"

definition erase_account :: "logs \<Rightarrow> string \<Rightarrow> logs" where
  "erase_account L p = L(p := \<lambda>_ _. [])"

definition entry_at :: "nat \<Rightarrow> stored \<Rightarrow> Entry" where
  "entry_at i st =
     \<lparr>ent_Seq = int i + 1, ent_Sha256 = sha256_hex (s_data st), ent_PrevSha256 = s_prev st,
      ent_Size = int (length (s_data st)), ent_CreatedAt = s_created st\<rparr>"

definition log_entries :: "stored list \<Rightarrow> Entry list" where
  "log_entries l = map2 entry_at [0..<length l] l"

definition index_page :: "stored list \<Rightarrow> int \<Rightarrow> int \<Rightarrow> Entry list" where
  "index_page l from limit = take (nat limit) (filter (\<lambda>e. from \<le> ent_Seq e) (log_entries l))"

definition summary_of :: "string \<Rightarrow> int \<Rightarrow> stored list \<Rightarrow> DeviceSummary" where
  "summary_of d g l =
     \<lparr>dev_DeviceID = d, dev_Generation = g, dev_HeadSeq = int (length l),
      dev_HeadSha256 = sha256_hex (s_data (last l)),
      dev_TotalBytes = sum_list (map (\<lambda>st. int (length (s_data st))) l),
      dev_UpdatedAt = Max (s_created ` set l)\<rparr>"

definition live_gens :: "logs \<Rightarrow> string \<Rightarrow> (string \<times> int) set" where
  "live_gens L p = {(d, g). L p d g \<noteq> []}"

definition device_gens :: "logs \<Rightarrow> string \<Rightarrow> string \<Rightarrow> int set" where
  "device_gens L p d = {g. L p d g \<noteq> []}"

definition manifest_of :: "logs \<Rightarrow> string \<Rightarrow> DeviceSummary list" where
  "manifest_of L p = map (\<lambda>(d, g). summary_of d g (L p d g)) (sorted_list_of_set (live_gens L p))"

definition account_rows :: "logs \<Rightarrow> string \<Rightarrow> int" where
  "account_rows L p = (\<Sum>(d, g) \<in> live_gens L p. int (length (L p d g)))"

lemmas log_defs = log_of_def set_log_def logs_append_def erase_account_def live_gens_def
  device_gens_def

lemma log_of_append_same [log_simps]: "log_of (logs_append L k st) k = log_of L k @ [st]"
  by (simp add: log_defs)

lemma logs_append_other [log_simps]:
  "(p, d, g) \<noteq> (key_Pseudonym k, key_DeviceID k, key_Generation k) \<Longrightarrow>
     logs_append L k st p d g = L p d g"
  by (auto simp: log_defs)

lemma length_log_entries [simp]: "length (log_entries l) = length l"
  by (simp add: log_entries_def)

lemma nth_log_entries [simp]: "i < length l \<Longrightarrow> log_entries l ! i = entry_at i (l ! i)"
  by (simp add: log_entries_def)

lemma map_ent_Seq_log_entries: "map ent_Seq (log_entries l) = map (\<lambda>i. int i + 1) [0..<length l]"
  by (rule nth_equalityI) (simp_all add: entry_at_def)

lemma device_gens_finite:
  "finite (live_gens L p) \<Longrightarrow> finite (device_gens L p d)"
  by (rule finite_subset [of _ "snd ` live_gens L p"]) (force simp: log_defs)+

section \<open>The contract\<close>

locale blob_store =
  fixes ops :: "'s BlobStore" and logs :: "'s \<Rightarrow> logs" and ok :: "'s \<Rightarrow> bool"
    and clock :: "'s \<Rightarrow> time"
  assumes ok_finite: "ok s \<Longrightarrow> finite (live_gens (logs s) p)"
    and ok_entry: "ok s \<Longrightarrow> st \<in> set (logs s p d g) \<Longrightarrow> s_data st \<noteq> []"
    and ok_gen: "ok s \<Longrightarrow> logs s p d g \<noteq> [] \<Longrightarrow> 1 \<le> g"
    and Append_conflict:
      "ok s \<Longrightarrow> key_ok k \<Longrightarrow> key_Seq k \<noteq> int (length (log_of (logs s) k)) + 1 \<Longrightarrow>
       \<exists>s'. bs_Append ops s k prev body =
              (Inl (ErrSeqConflict (ExpectedSeq (int (length (log_of (logs s) k)) + 1) (key_Seq k))),
               s', body) \<and> ok s' \<and> logs s' = logs s"
    and Append_stored:
      "ok s \<Longrightarrow> key_ok k \<Longrightarrow> name_ok prev \<Longrightarrow> reader_wf body \<Longrightarrow> chunkable body \<Longrightarrow>
       key_Seq k = int (length (log_of (logs s) k)) + 1 \<Longrightarrow>
       ending body = EOF \<Longrightarrow> content body \<noteq> [] \<Longrightarrow>
       \<exists>s' body'. bs_Append ops s k prev body =
              (Inr (sha256_hex (content body), int (length (content body))), s', body') \<and> ok s' \<and>
            logs s' = logs_append (logs s) k
              \<lparr>s_data = content body, s_prev = prev, s_created = clock s\<rparr> \<and>
            (reader_over body' \<longleftrightarrow> reader_over body)"
    and Append_empty:
      "ok s \<Longrightarrow> key_ok k \<Longrightarrow> reader_wf body \<Longrightarrow>
       key_Seq k = int (length (log_of (logs s) k)) + 1 \<Longrightarrow>
       ending body = EOF \<Longrightarrow> content body = [] \<Longrightarrow>
       \<exists>s' body'. bs_Append ops s k prev body = (Inl ErrEmptyBlob, s', body') \<and> ok s' \<and>
            logs s' = logs s \<and> (reader_over body' \<longleftrightarrow> reader_over body)"
    and Append_read_error:
      "ok s \<Longrightarrow> key_ok k \<Longrightarrow> reader_wf body \<Longrightarrow> chunkable body \<Longrightarrow>
       key_Seq k = int (length (log_of (logs s) k)) + 1 \<Longrightarrow>
       ending body \<noteq> EOF \<Longrightarrow> ending body \<noteq> ErrUnexpectedEOF \<Longrightarrow>
       \<exists>s' body'. bs_Append ops s k prev body = (Inl (ErrReadBody (ending body)), s', body') \<and>
            ok s' \<and> logs s' = logs s \<and>
            (reader_over body' \<longleftrightarrow> reader_over body \<or> ending body = ErrBodyTooLarge)"
    and Get_found:
      "ok s \<Longrightarrow> key_ok k \<Longrightarrow> key_Seq k \<le> int (length (log_of (logs s) k)) \<Longrightarrow>
       \<exists>r s'. bs_Get ops s k =
             (Inr (r, int (length (s_data (log_of (logs s) k ! nat (key_Seq k - 1))))), s') \<and>
            stream r = (s_data (log_of (logs s) k ! nat (key_Seq k - 1)), EOF) \<and>
            ok s' \<and> logs s' = logs s"
    and Get_missing:
      "ok s \<Longrightarrow> key_ok k \<Longrightarrow> key_Seq k > int (length (log_of (logs s) k)) \<Longrightarrow>
       \<exists>s'. bs_Get ops s k = (Inl ErrNotFound, s') \<and> ok s' \<and> logs s' = logs s"
    and Index_page:
      "ok s \<Longrightarrow> name_ok p \<Longrightarrow> name_ok d \<Longrightarrow> int4_ok g \<Longrightarrow> int4_ok from \<Longrightarrow> 1 \<le> limit \<Longrightarrow>
       \<exists>s'. bs_Index ops s p d g from limit = (Inr (index_page (logs s p d g) from limit), s') \<and>
            ok s' \<and> logs s' = logs s"
    and Manifest_all:
      "ok s \<Longrightarrow> name_ok p \<Longrightarrow>
       \<exists>s'. bs_Manifest ops s p = (Inr (manifest_of (logs s) p), s') \<and> ok s' \<and> logs s' = logs s"
    and DeleteGeneration_guard:
      "ok s \<Longrightarrow> name_ok p \<Longrightarrow> name_ok d \<Longrightarrow> int4_ok g \<Longrightarrow> device_gens (logs s) p d \<noteq> {} \<Longrightarrow>
       g > Max (device_gens (logs s) p d) - RetainedGenerations \<Longrightarrow>
       \<exists>s'. bs_DeleteGeneration ops s p d g =
              (Inl (ErrRetentionGuard g (Max (device_gens (logs s) p d))), s') \<and>
            ok s' \<and> logs s' = logs s"
    and DeleteGeneration_done:
      "ok s \<Longrightarrow> name_ok p \<Longrightarrow> name_ok d \<Longrightarrow> int4_ok g \<Longrightarrow>
       device_gens (logs s) p d = {} \<or> g \<le> Max (device_gens (logs s) p d) - RetainedGenerations \<Longrightarrow>
       \<exists>s'. bs_DeleteGeneration ops s p d g = (Inr (int (length (logs s p d g))), s') \<and>
            ok s' \<and> logs s' = set_log (logs s) p d g []"
    and DeleteAccount_done:
      "ok s \<Longrightarrow> name_ok p \<Longrightarrow>
       \<exists>s'. bs_DeleteAccount ops s p = (Inr (account_rows (logs s) p), s') \<and>
            ok s' \<and> logs s' = erase_account (logs s) p"
    and Ping_alive: "ok s \<Longrightarrow> \<exists>s'. bs_Ping ops s = (None, s') \<and> ok s' \<and> logs s' = logs s"
    and Append_any:
      "ok s \<Longrightarrow> key_ok k \<Longrightarrow> reader_wf body \<Longrightarrow> chunkable body \<Longrightarrow>
       bs_Append ops s k prev body = (r, s', body') \<Longrightarrow>
       ok s' \<and> (reader_over body' \<longrightarrow> reader_over body \<or> ending body = ErrBodyTooLarge) \<and>
       ((\<exists>e. r = Inl e) \<and> logs s' = logs s \<or>
        key_Seq k = int (length (log_of (logs s) k)) + 1 \<and> content body \<noteq> [] \<and>
        (ending body = EOF \<or> ending body = ErrUnexpectedEOF) \<and>
        r = Inr (sha256_hex (content body), int (length (content body))) \<and>
        logs s' = logs_append (logs s) k \<lparr>s_data = content body, s_prev = prev, s_created = clock s\<rparr>)"
    and Index_any:
      "ok s \<Longrightarrow> bs_Index ops s p d g from limit = (ri, s') \<Longrightarrow> ok s' \<and> logs s' = logs s"

end
