(* ===== verification/Store_Laws.thy ===== *)
theory Store_Laws
  imports Blob_Types
begin

text \<open>
  What the clients of a \<open>BlobStore\<close> rely on, proved once from the contract: the
  specification as a function on the abstract logs (\<open>spec_op\<close>), that every store meeting
  the contract refines it, and what follows for an entry once it is stored (it is read
  back, nothing but a prune or an erasure of its own account removes it, a second append
  at its number is refused). \<open>two_stores\<close> puts two implementations side by side: they give
  the same replies to the same requests.
\<close>

section \<open>Requests and replies\<close>

datatype store_op =
    OpAppend BlobKey string reader
  | OpGet BlobKey
  | OpIndex string string int int int
  | OpManifest string
  | OpDeleteGeneration string string int
  | OpDeleteAccount string

text \<open>A reply, with the reader \<open>Get\<close> returns replaced by the stream it delivers.\<close>

datatype store_reply =
    RAppend "store_err + string \<times> int"
  | RGet "store_err + (bytes \<times> rd_err) \<times> int"
  | RIndex "store_err + Entry list"
  | RManifest "store_err + DeviceSummary list"
  | RDelete "store_err + int"

fun apply_op :: "'s BlobStore \<Rightarrow> 's \<Rightarrow> store_op \<Rightarrow> store_reply \<times> 's" where
  "apply_op ops s (OpAppend k prev body) =
     (case bs_Append ops s k prev body of (r, s', _) \<Rightarrow> (RAppend r, s'))"
| "apply_op ops s (OpGet k) =
     (case bs_Get ops s k of
        (Inl e, s') \<Rightarrow> (RGet (Inl e), s')
      | (Inr (rd, sz), s') \<Rightarrow> (RGet (Inr (stream rd, sz)), s'))"
| "apply_op ops s (OpIndex p d g from limit) =
     (case bs_Index ops s p d g from limit of (r, s') \<Rightarrow> (RIndex r, s'))"
| "apply_op ops s (OpManifest p) = (case bs_Manifest ops s p of (r, s') \<Rightarrow> (RManifest r, s'))"
| "apply_op ops s (OpDeleteGeneration p d g) =
     (case bs_DeleteGeneration ops s p d g of (r, s') \<Rightarrow> (RDelete r, s'))"
| "apply_op ops s (OpDeleteAccount p) =
     (case bs_DeleteAccount ops s p of (r, s') \<Rightarrow> (RDelete r, s'))"

fun op_ok :: "store_op \<Rightarrow> bool" where
  "op_ok (OpAppend k prev body) \<longleftrightarrow> key_ok k \<and> name_ok prev \<and> reader_wf body \<and> chunkable body \<and>
     ending body \<noteq> ErrUnexpectedEOF"
| "op_ok (OpGet k) \<longleftrightarrow> key_ok k"
| "op_ok (OpIndex p d g from limit) \<longleftrightarrow>
     name_ok p \<and> name_ok d \<and> int4_ok g \<and> int4_ok from \<and> 1 \<le> limit"
| "op_ok (OpManifest p) \<longleftrightarrow> name_ok p"
| "op_ok (OpDeleteGeneration p d g) \<longleftrightarrow> name_ok p \<and> name_ok d \<and> int4_ok g"
| "op_ok (OpDeleteAccount p) \<longleftrightarrow> name_ok p"

definition op_body_wf :: "store_op \<Rightarrow> bool" where
  "op_body_wf op \<longleftrightarrow> (case op of OpAppend k prev body \<Rightarrow> reader_wf body | _ \<Rightarrow> True)"

section \<open>The specification\<close>

definition guarded :: "logs \<Rightarrow> string \<Rightarrow> string \<Rightarrow> int \<Rightarrow> bool" where
  "guarded L p d g \<longleftrightarrow> device_gens L p d \<noteq> {} \<and> g > Max (device_gens L p d) - RetainedGenerations"

fun spec_op :: "logs \<Rightarrow> time \<Rightarrow> store_op \<Rightarrow> store_reply \<times> logs" where
  "spec_op L now (OpAppend k prev body) =
     (let want = int (length (log_of L k)) + 1
      in if key_Seq k \<noteq> want then (RAppend (Inl (ErrSeqConflict (ExpectedSeq want (key_Seq k)))), L)
         else if ending body \<noteq> EOF then (RAppend (Inl (ErrReadBody (ending body))), L)
         else if content body = [] then (RAppend (Inl ErrEmptyBlob), L)
         else (RAppend (Inr (sha256_hex (content body), int (length (content body)))),
               logs_append L k \<lparr>s_data = content body, s_prev = prev, s_created = now\<rparr>))"
| "spec_op L now (OpGet k) =
     (if key_Seq k \<le> int (length (log_of L k))
      then let data = s_data (log_of L k ! nat (key_Seq k - 1))
           in (RGet (Inr ((data, EOF), int (length data))), L)
      else (RGet (Inl ErrNotFound), L))"
| "spec_op L now (OpIndex p d g from limit) = (RIndex (Inr (index_page (L p d g) from limit)), L)"
| "spec_op L now (OpManifest p) = (RManifest (Inr (manifest_of L p)), L)"
| "spec_op L now (OpDeleteGeneration p d g) =
     (if guarded L p d g then (RDelete (Inl (ErrRetentionGuard g (Max (device_gens L p d)))), L)
      else (RDelete (Inr (int (length (L p d g)))), set_log L p d g []))"
| "spec_op L now (OpDeleteAccount p) = (RDelete (Inr (account_rows L p)), erase_account L p)"

text \<open>A run: requests with the time at which each reaches the store.\<close>

fun spec_run :: "logs \<Rightarrow> (time \<times> store_op) list \<Rightarrow> store_reply list \<times> logs" where
  "spec_run L [] = ([], L)"
| "spec_run L ((now, op) # rest) =
     (case spec_op L now op of (r, L') \<Rightarrow> (case spec_run L' rest of (rs, L'') \<Rightarrow> (r # rs, L'')))"

fun run_ops :: "'s BlobStore \<Rightarrow> ('s \<Rightarrow> time \<Rightarrow> 's) \<Rightarrow> 's \<Rightarrow> (time \<times> store_op) list \<Rightarrow> store_reply list \<times> 's" where
  "run_ops ops at s [] = ([], s)"
| "run_ops ops at s ((now, op) # rest) =
     (case apply_op ops (at s now) op of
        (r, s') \<Rightarrow> (case run_ops ops at s' rest of (rs, s'') \<Rightarrow> (r # rs, s'')))"

definition run_ok :: "(time \<times> store_op) list \<Rightarrow> bool" where
  "run_ok reqs \<longleftrightarrow> list_all (\<lambda>(now, op). time_zero < now \<and> op_ok op) reqs"

section \<open>Every store refines the specification\<close>

context blob_store
begin

lemma refines_spec:
  assumes "ok s" and "op_ok op"
  shows "\<exists>s'. apply_op ops s op = (fst (spec_op (logs s) (clock s) op), s') \<and> ok s' \<and>
     logs s' = snd (spec_op (logs s) (clock s) op)"
proof (cases op)
  case (OpAppend k prev body)
  show ?thesis
  proof (cases "key_Seq k = int (length (log_of (logs s) k)) + 1")
    case False
    with assms OpAppend Append_conflict [OF assms(1), of k prev body] show ?thesis by auto
  next
    case seq: True
    show ?thesis
    proof (cases "ending body = EOF")
      case False
      with seq assms OpAppend Append_read_error [OF assms(1) _ _ _ seq, of body prev]
      show ?thesis by auto
    next
      case True
      with seq assms OpAppend show ?thesis
        using Append_empty [OF assms(1) _ _ seq True, of prev]
          Append_stored [OF assms(1) _ _ _ _ seq True, of prev]
        by (cases "content body = []") auto
    qed
  qed
next
  case (OpGet k)
  with assms show ?thesis
    using Get_found [OF assms(1), of k] Get_missing [OF assms(1), of k]
    by (cases "key_Seq k \<le> int (length (log_of (logs s) k))") (fastforce simp: Let_def)+
next
  case (OpIndex p d g f limit)
  with assms Index_page [OF assms(1), of p d g f limit] show ?thesis by auto
next
  case (OpManifest p)
  with assms Manifest_all [OF assms(1), of p] show ?thesis by auto
next
  case (OpDeleteGeneration p d g)
  with assms show ?thesis
    using DeleteGeneration_guard [OF assms(1), of p d g] DeleteGeneration_done [OF assms(1), of p d g]
    by (cases "guarded (logs s) p d g") (auto simp: guarded_def)
next
  case (OpDeleteAccount p)
  with assms DeleteAccount_done [OF assms(1), of p] show ?thesis by auto
qed

text \<open>A stored entry is read back, byte for byte, with its length.\<close>

lemma append_then_get:
  assumes "ok s" "key_ok k" "bs_Append ops s k prev body = (Inr (sha, sz), s', body')"
    and "name_ok prev" "reader_wf body" "chunkable body" "ending body \<noteq> ErrUnexpectedEOF"
  shows "\<exists>r s''. bs_Get ops s' k = (Inr (r, sz), s'') \<and> stream r = (content body, EOF) \<and>
     sha = sha256_hex (content body) \<and> sz = int (length (content body)) \<and>
     ending body = EOF \<and> content body \<noteq> []"
proof -
  have op: "op_ok (OpAppend k prev body)" using assms by simp
  have r: "fst (spec_op (logs s) (clock s) (OpAppend k prev body)) = RAppend (Inr (sha, sz))"
    and s': "ok s'" "logs s' = snd (spec_op (logs s) (clock s) (OpAppend k prev body))"
    using refines_spec [OF assms(1) op] assms(3) by auto
  let ?st = "\<lparr>s_data = content body, s_prev = prev, s_created = clock s\<rparr>"
  from r s' have st: "logs s' = logs_append (logs s) k ?st" "key_Seq k = int (length (log_of (logs s) k)) + 1"
    "sha = sha256_hex (content body)" "sz = int (length (content body))"
    "ending body = EOF" "content body \<noteq> []"
    by (auto simp: Let_def split: if_splits)
  then have "log_of (logs s') k ! nat (key_Seq k - 1) = ?st" by (simp add: log_simps)
  with Get_found [OF s'(1) assms(2)] st show ?thesis by (fastforce simp: log_simps)
qed

end

section \<open>Stores seen through a view\<close>

text \<open>
  A store on a larger state that answers as another does on the part \<open>get\<close> of it, and
  changes that part as the other would. It meets the contract when the other does: this
  carries the contract through a wrapper, and into the state of a whole process.
\<close>

definition views :: "('w \<Rightarrow> 's) \<Rightarrow> 'w BlobStore \<Rightarrow> 's BlobStore \<Rightarrow> bool" where
  "views get wide ops \<longleftrightarrow>
     (\<forall>w k prev body. map_prod id (map_prod get id) (bs_Append wide w k prev body) = bs_Append ops (get w) k prev body) \<and>
     (\<forall>w k. map_prod id get (bs_Get wide w k) = bs_Get ops (get w) k) \<and>
     (\<forall>w p d g from limit. map_prod id get (bs_Index wide w p d g from limit) = bs_Index ops (get w) p d g from limit) \<and>
     (\<forall>w p. map_prod id get (bs_Manifest wide w p) = bs_Manifest ops (get w) p) \<and>
     (\<forall>w p d g. map_prod id get (bs_DeleteGeneration wide w p d g) = bs_DeleteGeneration ops (get w) p d g) \<and>
     (\<forall>w p. map_prod id get (bs_DeleteAccount wide w p) = bs_DeleteAccount ops (get w) p) \<and>
     (\<forall>w. map_prod id get (bs_Ping wide w) = bs_Ping ops (get w))"

lemma viewsD:
  assumes "views get wide ops"
  shows "bs_Append wide w k prev body = (ra, w', b) \<Longrightarrow> bs_Append ops (get w) k prev body = (ra, get w', b)"
    and "bs_Get wide w k = (rg, w') \<Longrightarrow> bs_Get ops (get w) k = (rg, get w')"
    and "bs_Index wide w p d g from limit = (ri, w') \<Longrightarrow> bs_Index ops (get w) p d g from limit = (ri, get w')"
    and "bs_Manifest wide w p = (rm, w') \<Longrightarrow> bs_Manifest ops (get w) p = (rm, get w')"
    and "bs_DeleteGeneration wide w p d g = (rd, w') \<Longrightarrow> bs_DeleteGeneration ops (get w) p d g = (rd, get w')"
    and "bs_DeleteAccount wide w p = (re, w') \<Longrightarrow> bs_DeleteAccount ops (get w) p = (re, get w')"
    and "bs_Ping wide w = (rp, w') \<Longrightarrow> bs_Ping ops (get w) = (rp, get w')"
  using assms unfolding views_def by (metis map_prod_simp id_apply)+

lemma views_apply_op:
  assumes "views get wide ops" and "apply_op wide w op = (r, w')"
  shows "apply_op ops (get w) op = (r, get w')"
  using assms(2) by (cases op) (auto dest!: viewsD [OF assms(1)] split: prod.splits sum.splits)

context blob_store
begin

lemma viewed:
  assumes v: "views get wide ops"
  shows "blob_store wide (\<lambda>w. logs (get w)) (\<lambda>w. ok (get w)) (\<lambda>w. clock (get w))"
proof (unfold_locales, goal_cases)
  case (1 w p)
  then show ?case by (simp add: ok_finite)
next
  case (2 w st p d g)
  then show ?case by (simp add: ok_entry)
next
  case (3 w p d g)
  then show ?case by (simp add: ok_gen)
next
  case (4 w k prev body)
  then show ?case using Append_conflict [of "get w" k prev body]
    by (cases "bs_Append wide w k prev body") (auto dest!: viewsD [OF v])
next
  case (5 w k prev body)
  then show ?case using Append_stored [of "get w" k prev body]
    by (cases "bs_Append wide w k prev body") (auto dest!: viewsD [OF v])
next
  case (6 w k body prev)
  then show ?case using Append_empty [of "get w" k body prev]
    by (cases "bs_Append wide w k prev body") (auto dest!: viewsD [OF v])
next
  case (7 w k body prev)
  then show ?case using Append_read_error [of "get w" k body prev]
    by (cases "bs_Append wide w k prev body") (auto dest!: viewsD [OF v])
next
  case (8 w k)
  then show ?case using Get_found [of "get w" k]
    by (cases "bs_Get wide w k") (auto dest!: viewsD [OF v])
next
  case (9 w k)
  then show ?case using Get_missing [of "get w" k]
    by (cases "bs_Get wide w k") (auto dest!: viewsD [OF v])
next
  case (10 w p d g f limit)
  then show ?case using Index_page [of "get w" p d g f limit]
    by (cases "bs_Index wide w p d g f limit") (auto dest!: viewsD [OF v])
next
  case (11 w p)
  then show ?case using Manifest_all [of "get w" p]
    by (cases "bs_Manifest wide w p") (auto dest!: viewsD [OF v])
next
  case (12 w p d g)
  then show ?case using DeleteGeneration_guard [of "get w" p d g]
    by (cases "bs_DeleteGeneration wide w p d g") (auto dest!: viewsD [OF v])
next
  case (13 w p d g)
  then show ?case using DeleteGeneration_done [of "get w" p d g]
    by (cases "bs_DeleteGeneration wide w p d g") (auto dest!: viewsD [OF v])
next
  case (14 w p)
  then show ?case using DeleteAccount_done [of "get w" p]
    by (cases "bs_DeleteAccount wide w p") (auto dest!: viewsD [OF v])
next
  case (15 w)
  then show ?case using Ping_alive [of "get w"]
    by (cases "bs_Ping wide w") (auto dest!: viewsD [OF v])
next
  case (16 w k body prev r w' body')
  then show ?case using Append_any [of "get w" k body prev r "get w'" body'] viewsD(1) [OF v] by blast
next
  case (17 w p d g f limit ri w')
  then show ?case using Index_any [of "get w" p d g f limit ri "get w'"] viewsD(3) [OF v] by blast
qed

end

section \<open>Entries are never changed in place\<close>

text \<open>
  The log of a generation after any request is an extension of what it was, or empty, and
  it becomes empty only by a prune of this generation outside the retained window or by an
  erasure of its account.
\<close>

lemma spec_op_log:
  assumes "spec_op L now op = (r, L')"
  shows "(\<exists>ext. L' p d g = L p d g @ ext) \<or>
     L' p d g = [] \<and> (op = OpDeleteAccount p \<or> (op = OpDeleteGeneration p d g \<and> \<not> guarded L p d g))"
  using assms
  by (cases op) (auto simp: Let_def logs_append_def set_log_def erase_account_def log_of_def split: if_splits)

text \<open>Only requests that name a pseudonym change its logs.\<close>

fun op_account :: "store_op \<Rightarrow> string" where
  "op_account (OpAppend k prev body) = key_Pseudonym k"
| "op_account (OpGet k) = key_Pseudonym k"
| "op_account (OpIndex p d g from limit) = p"
| "op_account (OpManifest p) = p"
| "op_account (OpDeleteGeneration p d g) = p"
| "op_account (OpDeleteAccount p) = p"

lemma spec_op_other_account:
  "p \<noteq> op_account op \<Longrightarrow> snd (spec_op L now op) p = L p"
  by (cases op) (auto simp: Let_def logs_append_def set_log_def erase_account_def fun_eq_iff)

lemma live_gens_cong: "L p = L' p \<Longrightarrow> live_gens L p = live_gens L' p"
  by (simp add: live_gens_def)

text \<open>What a request answers depends on nothing but the logs of the account it names.\<close>

lemma spec_op_reply_local:
  assumes "L (op_account op) = L' (op_account op)"
  shows "fst (spec_op L now op) = fst (spec_op L' now op)"
    and "snd (spec_op L now op) (op_account op) = snd (spec_op L' now op) (op_account op)"
proof -
  have live: "live_gens L (op_account op) = live_gens L' (op_account op)"
    using assms by (rule live_gens_cong)
  show "fst (spec_op L now op) = fst (spec_op L' now op)"
    using assms live
    by (cases op) (simp_all add: Let_def log_of_def guarded_def device_gens_def manifest_of_def account_rows_def)
  show "snd (spec_op L now op) (op_account op) = snd (spec_op L' now op) (op_account op)"
    using assms
    by (cases op) (simp_all add: Let_def log_of_def guarded_def device_gens_def
        logs_append_def set_log_def erase_account_def cong: if_cong)
qed

section \<open>Runs of the specification\<close>

lemma spec_run_other_account:
  "\<forall>(now, op) \<in> set reqs. op_account op \<noteq> p \<Longrightarrow> snd (spec_run L reqs) p = L p"
proof (induction L reqs rule: spec_run.induct)
  case (2 L now op rest)
  obtain r L1 where step: "spec_op L now op = (r, L1)" by force
  with 2 spec_op_other_account [of p op L now] show ?case by (auto simp: case_prod_unfold)
qed simp

text \<open>Without a delete that names it, a log only ever grows at its end.\<close>

lemma spec_run_append_only:
  assumes "\<forall>(now, op) \<in> set reqs. op \<noteq> OpDeleteAccount p \<and> op \<noteq> OpDeleteGeneration p d g"
  shows "\<exists>ext. snd (spec_run L reqs) p d g = L p d g @ ext"
  using assms
proof (induction L reqs rule: spec_run.induct)
  case (2 L now op rest)
  obtain r L1 where step: "spec_op L now op = (r, L1)" by force
  from spec_op_log [OF step, of p d g] 2(2) obtain x where "L1 p d g = L p d g @ x" by auto
  with 2 step show ?case by (fastforce simp: case_prod_unfold)
qed simp

text \<open>
  Requests other than an append and an erasure of the account leave the logs within the
  retained window of a device as they are, however many prunes they ask for.
\<close>

fun keeps_account :: "string \<Rightarrow> store_op \<Rightarrow> bool" where
  "keeps_account p (OpAppend k prev body) \<longleftrightarrow> key_Pseudonym k \<noteq> p"
| "keeps_account p (OpDeleteAccount p') \<longleftrightarrow> p' \<noteq> p"
| "keeps_account p _ \<longleftrightarrow> True"

lemma spec_op_window:
  assumes "spec_op L now op = (r, L')" and "keeps_account p op" and "finite (device_gens L p d)"
  shows "guarded L p d g \<Longrightarrow> L' p d g = L p d g"
    and "L' p d g = L p d g \<or> L' p d g = [] \<and> \<not> guarded L p d g"
  using assms
  by (cases op; auto simp: Let_def logs_append_def set_log_def erase_account_def split: if_splits)+

lemma spec_op_newest:
  assumes "spec_op L now op = (r, L')" and "keeps_account p op" and fin: "finite (device_gens L p d)"
  shows "finite (device_gens L' p d)"
    and "device_gens L p d \<noteq> {} \<Longrightarrow> device_gens L' p d \<noteq> {} \<and> Max (device_gens L' p d) = Max (device_gens L p d)"
proof -
  have sub: "device_gens L' p d \<subseteq> device_gens L p d"
    using spec_op_window(2) [OF assms] unfolding device_gens_def by (metis (mono_tags, lifting) Collect_mono)
  then show fin': "finite (device_gens L' p d)" using fin by (rule finite_subset)
  assume ne: "device_gens L p d \<noteq> {}"
  let ?m = "Max (device_gens L p d)"
  have m: "?m \<in> device_gens L p d" using fin ne by (rule Max_in)
  have "guarded L p d ?m" using ne by (simp add: guarded_def RetainedGenerations_def)
  then have "?m \<in> device_gens L' p d"
    using spec_op_window(1) [OF assms] m by (simp add: device_gens_def)
  moreover from this have "Max (device_gens L' p d) = ?m"
    using sub fin fin' by (intro antisym Max_mono Max_ge) auto
  ultimately show "device_gens L' p d \<noteq> {} \<and> Max (device_gens L' p d) = ?m" by auto
qed

lemma spec_run_window:
  assumes "\<forall>(now, op) \<in> set reqs. keeps_account p op" and "finite (device_gens L p d)"
    and "guarded L p d g"
  shows "snd (spec_run L reqs) p d g = L p d g"
  using assms
proof (induction L reqs rule: spec_run.induct)
  case (2 L now op rest)
  obtain r L1 where step: "spec_op L now op = (r, L1)" by force
  have keep: "keeps_account p op" using 2(2) by auto
  note step' = step keep 2(3)
  have "guarded L1 p d g" using spec_op_newest(2) [OF step'] 2(4) by (auto simp: guarded_def)
  moreover have "L1 p d g = L p d g" using spec_op_window(1) [OF step' 2(4)] .
  ultimately show ?case
    using 2(1) [of r L1] step 2(2) spec_op_newest(1) [OF step'] by (simp add: case_prod_unfold)
qed simp

section \<open>Runs\<close>

text \<open>
  A store whose clock can be set: the time of a request is an input of a run, so that two
  stores can be compared request by request.
\<close>

locale timed_blob_store = blob_store +
  fixes at :: "'a \<Rightarrow> time \<Rightarrow> 'a"
  assumes at_clock: "clock (at s now) = now"
    and at_logs: "logs (at s now) = logs s"
    and at_ok: "ok s \<Longrightarrow> time_zero < now \<Longrightarrow> ok (at s now)"
begin

lemma run_refines_spec:
  assumes "ok s" and "run_ok reqs"
  shows "\<exists>s'. run_ops ops at s reqs = (fst (spec_run (logs s) reqs), s') \<and> ok s' \<and>
     logs s' = snd (spec_run (logs s) reqs)"
  using assms
proof (induction reqs arbitrary: s)
  case (Cons req reqs)
  obtain now op where req: "req = (now, op)" by (cases req)
  with Cons have "ok (at s now)" "op_ok op" and rest: "run_ok reqs" by (auto simp: run_ok_def at_ok)
  then obtain s1 where s1: "apply_op ops (at s now) op = (fst (spec_op (logs s) now op), s1)"
    "ok s1" "logs s1 = snd (spec_op (logs s) now op)"
    using refines_spec [of "at s now" op] by (auto simp: at_clock at_logs)
  with Cons.IH [OF s1(2) rest] req show ?case by (auto simp: case_prod_unfold)
qed simp

lemma op_at_refines:
  assumes "ok s" and "time_zero < now" and "op_ok op"
  shows "fst (apply_op ops (at s now) op) = fst (spec_op (logs s) now op)"
  using refines_spec [OF at_ok [OF assms(1,2)] assms(3)] by (auto simp: at_clock at_logs)

text \<open>Requests for other accounts cannot be noticed.\<close>

lemma run_isolated:
  assumes "ok s" and "run_ok reqs" and "\<forall>(now, op') \<in> set reqs. op_account op' \<noteq> op_account op"
    and "time_zero < now" and "op_ok op"
  shows "fst (apply_op ops (at (snd (run_ops ops at s reqs)) now) op) = fst (apply_op ops (at s now) op)"
proof -
  obtain s' where s': "run_ops ops at s reqs = (fst (spec_run (logs s) reqs), s')" "ok s'"
    "logs s' = snd (spec_run (logs s) reqs)"
    using run_refines_spec [OF assms(1,2)] by blast
  then have "logs s' (op_account op) = logs s (op_account op)"
    using spec_run_other_account [OF assms(3)] by simp
  then have "fst (spec_op (logs s') now op) = fst (spec_op (logs s) now op)"
    by (rule spec_op_reply_local)
  with s' assms show ?thesis by (simp add: op_at_refines)
qed

text \<open>A stored entry stays readable through any requests but a delete that names its generation.\<close>

lemma run_keeps_entry:
  assumes "ok s" and "run_ok reqs" and "key_ok k" and "time_zero < now"
    and "apply_op ops (at s now) (OpGet k) = (RGet (Inr reply), s1)"
    and "\<forall>(now, op) \<in> set reqs. op \<noteq> OpDeleteAccount (key_Pseudonym k) \<and>
       op \<noteq> OpDeleteGeneration (key_Pseudonym k) (key_DeviceID k) (key_Generation k)"
  shows "fst (apply_op ops (at (snd (run_ops ops at s reqs)) now) (OpGet k)) = RGet (Inr reply)"
proof -
  obtain s' where s': "run_ops ops at s reqs = (fst (spec_run (logs s) reqs), s')" "ok s'"
    "logs s' = snd (spec_run (logs s) reqs)"
    using run_refines_spec [OF assms(1,2)] by blast
  with spec_run_append_only [OF assms(6), of "logs s"]
  obtain ext where ext: "log_of (logs s') k = log_of (logs s) k @ ext" by (auto simp: log_of_def)
  have "fst (spec_op (logs s) now (OpGet k)) = RGet (Inr reply)"
    using op_at_refines [OF assms(1,4), of "OpGet k"] assms(3,5) by simp
  with ext assms(3) have "fst (spec_op (logs s') now (OpGet k)) = RGet (Inr reply)"
    by (auto simp: Let_def nth_append key_ok_def split: if_splits)
  with s' assms(3,4) show ?thesis by (simp add: op_at_refines del: spec_op.simps apply_op.simps)
qed

text \<open>Prunes never reach the two newest generation numbers of a device.\<close>

lemma run_keeps_window:
  assumes "ok s" and "run_ok reqs" and "\<forall>(now, op) \<in> set reqs. keeps_account p op"
    and "guarded (logs s) p d g"
  shows "logs (snd (run_ops ops at s reqs)) p d g = logs s p d g"
  using run_refines_spec [OF assms(1,2)]
    spec_run_window [OF assms(3) device_gens_finite [OF ok_finite [OF assms(1)]] assms(4)] by auto

text \<open>After an erasure nothing of the account is left.\<close>

lemma erased:
  assumes "ok s" and "name_ok p"
  obtains n s' where "bs_DeleteAccount ops s p = (Inr n, s')" and "ok s'"
    and "\<And>d g. logs s' p d g = []" and "\<And>p' d g. p' \<noteq> p \<Longrightarrow> logs s' p' d g = logs s p' d g"
    and "n = account_rows (logs s) p"
  using DeleteAccount_done [OF assms] that by (auto simp: erase_account_def)

end

locale two_stores =
  a: timed_blob_store ops_a logs_a ok_a clock_a at_a +
  b: timed_blob_store ops_b logs_b ok_b clock_b at_b
  for ops_a logs_a ok_a clock_a at_a ops_b logs_b ok_b clock_b at_b
begin

lemma same_replies:
  assumes "ok_a s" and "ok_b t" and "logs_a s = logs_b t" and "run_ok reqs"
  shows "fst (run_ops ops_a at_a s reqs) = fst (run_ops ops_b at_b t reqs)"
  using a.run_refines_spec [OF assms(1,4)] b.run_refines_spec [OF assms(2,4)] assms(3) by auto

end

end
