(* ===== verification/Handlers.thy ===== *)
theory Handlers
  imports Http Store_Laws
begin

text \<open>
  \<open>internal/server/handlers\<close>: the endpoints, over any \<open>BlobStore\<close>. A handler takes the
  state of the store, the request and the response writer, and returns the state and the
  writer after it. Logging is left out. The account a handler addresses is the identity the
  auth middleware put into the request and nothing else.
\<close>

type_synonym ('s, 'k) handler = "'s \<Rightarrow> 'k request \<Rightarrow> writer \<Rightarrow> 's \<times> writer"

section \<open>Parameters (handlers.go, read.go)\<close>

definition deviceIDPattern :: "string \<Rightarrow> bool" where
  "deviceIDPattern s \<longleftrightarrow> length s = 32 \<and> list_all is_lower_hex s"

text \<open>\<open>GetIdentityKey\<close> is the request's context value.\<close>

definition GetIdentityKey :: "'k request \<Rightarrow> 'k option" where
  "GetIdentityKey r = rq_Identity r"

definition pseudonym :: "('k, 'g) wallet_api \<Rightarrow> writer \<Rightarrow> 'k request \<Rightarrow> string \<times> writer" where
  "pseudonym sdk w r =
     (case GetIdentityKey r of
        None \<Rightarrow> ('''', WriteError w 401 ''ERR_AUTH_REQUIRED'' ''Authentication required.'')
      | Some key \<Rightarrow> (ToDERHex sdk key, w))"

definition deviceID :: "writer \<Rightarrow> string \<Rightarrow> string option \<times> writer" where
  "deviceID w raw =
     (if \<not> deviceIDPattern raw
      then (None, WriteError w 400 ''ERR_INVALID_DEVICE_ID''
                    ''Device id must be 32 lowercase hexadecimal characters.'')
      else (Some raw, w))"

definition positiveIntParam :: "'k request \<Rightarrow> string \<Rightarrow> int option" where
  "positiveIntParam r name =
     (case atoi (first_value (Query r) name) of
        None \<Rightarrow> None
      | Some v \<Rightarrow> if v < 1 \<or> v > 2 ^ 30 then None else Some v)"

definition optionalIntParam :: "'k request \<Rightarrow> string \<Rightarrow> int \<Rightarrow> int" where
  "optionalIntParam r name fallback =
     (case atoi (first_value (Query r) name) of None \<Rightarrow> fallback | Some v \<Rightarrow> v)"

fun parsePathInt_loop :: "int \<Rightarrow> string \<Rightarrow> int option" where
  "parsePathInt_loop n [] = (if n < 1 then None else Some n)"
| "parsePathInt_loop n (c # cs) =
     (if \<not> is_digit c then None
      else let n' = n * 10 + int (digit_val c)
           in if n' > 2 ^ 30 then None else parsePathInt_loop n' cs)"

definition parsePathInt :: "string \<Rightarrow> int option" where
  "parsePathInt raw = (if raw = '''' then None else parsePathInt_loop 0 raw)"

section \<open>Uploads (append.go)\<close>

definition ContentTypeOctetStream :: string where
  "ContentTypeOctetStream = ''application/octet-stream''"

definition Append_reply :: "writer \<Rightarrow> int \<Rightarrow> store_err + string \<times> int \<Rightarrow> writer" where
  "Append_reply w seq res =
     (case res of
        Inl (ErrSeqConflict d) \<Rightarrow> WriteError w 409 ''ERR_SEQ_CONFLICT'' (store_err_text (ErrSeqConflict d))
      | Inl ErrEmptyBlob \<Rightarrow> WriteError w 400 ''ERR_EMPTY_BLOB'' ''Blob must not be empty.''
      | Inl (ErrReadBody ErrBodyDigestMismatch) \<Rightarrow>
          WriteError w 400 ''ERR_BODY_DIGEST_MISMATCH''
            ''Body does not hash to the digest the auth proof signed. Nothing was stored.''
      | Inl _ \<Rightarrow> WriteError w 500 ''ERR_INTERNAL'' ''Could not store the blob.''
      | Inr (sha, sz) \<Rightarrow>
          WriteJSON w 201
            (PObj [(''seq'', PNum seq), (''sha256'', PText sha), (''size'', PNum sz),
                   (''status'', PText ''success'')]))"

definition Append :: "('k, 'g) wallet_api \<Rightarrow> 's BlobStore \<Rightarrow> ('s, 'k) handler" where
  "Append sdk store s r w =
     (case pseudonym sdk w r of (account, w) \<Rightarrow>
      if account = '''' then (s, w)
      else if first_value (rq_Header r) ''Content-Type'' \<noteq> ContentTypeOctetStream
      then (s, WriteError w 415 ''ERR_UNSUPPORTED_MEDIA_TYPE'' ''Body must be application/octet-stream.'')
      else
     (case deviceID w (URLParam r ''deviceId'') of
        (None, w) \<Rightarrow> (s, w)
      | (Some device, w) \<Rightarrow>
     (case (positiveIntParam r ''seq'', positiveIntParam r ''generation'') of
        (Some seq, Some generation) \<Rightarrow>
          (let key = \<lparr>key_Pseudonym = account, key_DeviceID = device, key_Generation = generation, key_Seq = seq\<rparr>
           in case bs_Append store s key (first_value (Query r) ''prevSha256'') (rq_Body r) of
                (res, s', body') \<Rightarrow> (s', Append_reply (sync_over (reader_over body') w) seq res))
      | _ \<Rightarrow>
          (s, WriteError w 400 ''ERR_INVALID_PARAMS''
                ''Query parameters seq and generation must be positive integers.''))))"

section \<open>Reads (read.go)\<close>

definition DefaultIndexLimit :: int where
  "DefaultIndexLimit = 500"

definition payload_of_summary :: "DeviceSummary \<Rightarrow> payload" where
  "payload_of_summary d =
     PObj [(''deviceId'', PText (dev_DeviceID d)), (''generation'', PNum (dev_Generation d)),
           (''headSeq'', PNum (dev_HeadSeq d)), (''headSha256'', PText (dev_HeadSha256 d)),
           (''totalBytes'', PNum (dev_TotalBytes d)), (''updatedAt'', PTime (dev_UpdatedAt d))]"

definition payload_of_entry :: "Entry \<Rightarrow> payload" where
  "payload_of_entry e =
     PObj ([(''seq'', PNum (ent_Seq e)), (''sha256'', PText (ent_Sha256 e))] @
           (if ent_PrevSha256 e = '''' then [] else [(''prevSha256'', PText (ent_PrevSha256 e))]) @
           [(''size'', PNum (ent_Size e)), (''createdAt'', PTime (ent_CreatedAt e))])"

definition Manifest :: "('k, 'g) wallet_api \<Rightarrow> 's BlobStore \<Rightarrow> ('s, 'k) handler" where
  "Manifest sdk store s r w =
     (case pseudonym sdk w r of (account, w) \<Rightarrow>
      if account = '''' then (s, w)
      else case bs_Manifest store s account of
             (Inl _, s') \<Rightarrow> (s', WriteError w 500 ''ERR_INTERNAL'' ''Could not read the manifest.'')
           | (Inr devices, s') \<Rightarrow>
               (s', WriteJSON w 200 (PObj [(''devices'', PList (map payload_of_summary devices)),
                                           (''status'', PText ''success'')])))"

definition Index_limit :: "'k request \<Rightarrow> int" where
  "Index_limit r =
     (let limit = optionalIntParam r ''limit'' DefaultIndexLimit
      in if limit < 1 \<or> limit > DefaultIndexLimit then DefaultIndexLimit else limit)"

definition Index :: "('k, 'g) wallet_api \<Rightarrow> 's BlobStore \<Rightarrow> ('s, 'k) handler" where
  "Index sdk store s r w =
     (case pseudonym sdk w r of (account, w) \<Rightarrow>
      if account = '''' then (s, w)
      else
     (case deviceID w (URLParam r ''deviceId'') of
        (None, w) \<Rightarrow> (s, w)
      | (Some device, w) \<Rightarrow>
     (case positiveIntParam r ''generation'' of
        None \<Rightarrow> (s, WriteError w 400 ''ERR_INVALID_PARAMS'' ''Query parameter generation must be a positive integer.'')
      | Some generation \<Rightarrow>
          (case bs_Index store s account device generation (optionalIntParam r ''from'' 1) (Index_limit r) of
             (Inl _, s') \<Rightarrow> (s', WriteError w 500 ''ERR_INTERNAL'' ''Could not read the log index.'')
           | (Inr entries, s') \<Rightarrow>
               (s', WriteJSON w 200 (PObj [(''entries'', PList (map payload_of_entry entries)),
                                           (''status'', PText ''success'')]))))))"

text \<open>
  \<open>Blob\<close> streams the body through \<open>io.Copy\<close>: the bytes it delivers, whether or not the
  reader then fails.
\<close>

definition Blob :: "('k, 'g) wallet_api \<Rightarrow> 's BlobStore \<Rightarrow> ('s, 'k) handler" where
  "Blob sdk store s r w =
     (case pseudonym sdk w r of (account, w) \<Rightarrow>
      if account = '''' then (s, w)
      else
     (case deviceID w (URLParam r ''deviceId'') of
        (None, w) \<Rightarrow> (s, w)
      | (Some device, w) \<Rightarrow>
     (case (positiveIntParam r ''generation'', parsePathInt (URLParam r ''seq'')) of
        (Some generation, Some seq) \<Rightarrow>
          (case bs_Get store s \<lparr>key_Pseudonym = account, key_DeviceID = device,
                                key_Generation = generation, key_Seq = seq\<rparr> of
             (Inl ErrNotFound, s') \<Rightarrow> (s', WriteError w 404 ''ERR_BLOB_NOT_FOUND'' ''No such blob.'')
           | (Inl _, s') \<Rightarrow> (s', WriteError w 500 ''ERR_INTERNAL'' ''Could not read the blob.'')
           | (Inr (body, sz), s') \<Rightarrow>
               (let w = set_header ''Content-Type'' ContentTypeOctetStream w;
                    w = set_header ''Content-Length'' (format_int sz) w;
                    w = WriteHeader 200 w
                in (s', case Copy body of (bytes, _) \<Rightarrow> if bytes = [] then w else Write (PieceBytes bytes) w)))
      | _ \<Rightarrow> (s, WriteError w 400 ''ERR_INVALID_PARAMS'' ''Sequence and generation must be positive integers.''))))"

section \<open>Deletes (prune.go, erase.go)\<close>

definition PruneGeneration :: "('k, 'g) wallet_api \<Rightarrow> 's BlobStore \<Rightarrow> ('s, 'k) handler" where
  "PruneGeneration sdk store s r w =
     (case pseudonym sdk w r of (account, w) \<Rightarrow>
      if account = '''' then (s, w)
      else
     (case deviceID w (URLParam r ''deviceId'') of
        (None, w) \<Rightarrow> (s, w)
      | (Some device, w) \<Rightarrow>
     (case parsePathInt (URLParam r ''generation'') of
        None \<Rightarrow> (s, WriteError w 400 ''ERR_INVALID_PARAMS'' ''Generation must be a positive integer.'')
      | Some generation \<Rightarrow>
          (case bs_DeleteGeneration store s account device generation of
             (Inl (ErrRetentionGuard g n), s') \<Rightarrow>
               (s', WriteError w 409 ''ERR_RETENTION_GUARD'' (store_err_text (ErrRetentionGuard g n)))
           | (Inl _, s') \<Rightarrow> (s', WriteError w 500 ''ERR_INTERNAL'' ''Could not prune the generation.'')
           | (Inr n, s') \<Rightarrow>
               if n = 0 then (s', WriteError w 404 ''ERR_GENERATION_NOT_FOUND'' ''No such generation.'')
               else (s', WriteHeader 204 w)))))"

definition DeleteAccount :: "('k, 'g) wallet_api \<Rightarrow> 's BlobStore \<Rightarrow> ('s, 'k) handler" where
  "DeleteAccount sdk store s r w =
     (case pseudonym sdk w r of (account, w) \<Rightarrow>
      if account = '''' then (s, w)
      else case bs_DeleteAccount store s account of
             (Inl _, s') \<Rightarrow> (s', WriteError w 500 ''ERR_INTERNAL'' ''Could not erase the account.'')
           | (Inr n, s') \<Rightarrow> (s', WriteJSON w 200 (PObj [(''deleted'', PNum n)])))"

section \<open>Unauthenticated endpoints (limits.go, health.go)\<close>

definition Limits :: "int \<Rightarrow> string \<Rightarrow> ('s, 'k) handler" where
  "Limits maxBlobBytes serverIdentityKey s r w =
     (s, WriteJSON w 200
           (PObj [(''maxBlobBytes'', PNum maxBlobBytes), (''maxBodyBytes'', PNum maxBlobBytes),
                  (''serverIdentityKey'', PText serverIdentityKey), (''status'', PText ''success'')]))"

definition Health :: "'s BlobStore \<Rightarrow> ('s, 'k) handler" where
  "Health store s r w =
     (case bs_Ping store s of
        (Some _, s') \<Rightarrow>
          (s', WriteJSON w 503 (PObj [(''details'', PObj [(''store'', PText ''unreachable'')]),
                                      (''status'', PText ''degraded'')]))
      | (None, s') \<Rightarrow>
          (s', WriteJSON w 200 (PObj [(''details'', PObj [(''store'', PText ''ok'')]),
                                      (''status'', PText ''ok'')])))"

end
