(* ===== verification/Database.thy ===== *)
theory Database
  imports Store_Laws
begin

text \<open>
  The PostgreSQL database as the program uses it: the three tables of its migrations, the
  meaning of the SQL statements in its source (each a function on the tables, with the
  checks the column types and primary keys impose), and what can go wrong around a
  statement. \<open>outcome\<close> scripts the environment: for each call in turn whether the server
  performed it and answered, refused or never performed it, or performed it but the reply
  was lost (which makes the fate of a COMMIT or of an autocommitted statement unknown to
  the caller), or broke off the result set after some rows. Theorems that speak of every
  script cover every such environment. \<open>db_coins\<close> scripts the random draws the nonce store
  makes before its sweep.
\<close>

section \<open>Tables\<close>

record log_row =
  l_pseudonym :: string
  l_device_id :: string
  l_generation :: int
  l_seq :: int
  l_sha256 :: string
  l_prev_sha256 :: "string option"
  l_size :: int
  l_created_at :: time

record chunk_row =
  ch_pseudonym :: string
  ch_device_id :: string
  ch_generation :: int
  ch_seq :: int
  ch_idx :: int
  ch_chunk :: bytes

record nonce_row =
  n_nonce :: string
  n_expires_at :: time

record tables =
  blob_log :: "log_row list"
  blob_chunks :: "chunk_row list"
  auth_nonces :: "nonce_row list"

datatype outcome =
    Done
  | Failed pq_error
  | Lost pq_error
  | Cut nat pq_error

record database =
  db_tables :: tables
  db_now :: time
  db_faults :: "outcome list"
  db_coins :: "bool list"

section \<open>Calls\<close>

text \<open>One statement whose effect stays in a transaction (or that only reads).\<close>

definition exec :: "outcome list \<Rightarrow> (pq_error + 'a) \<Rightarrow> (pq_error + 'a) \<times> outcome list" where
  "exec fs r =
     (case fs of
        [] \<Rightarrow> (r, [])
      | Failed e # fs' \<Rightarrow> (Inl e, fs')
      | Lost e # fs' \<Rightarrow> (Inl e, fs')
      | _ # fs' \<Rightarrow> (r, fs'))"

text \<open>
  A COMMIT (or an autocommitted statement) that would turn \<open>old\<close> into \<open>new\<close>: the error
  reported, and the tables that are then visible.
\<close>

definition commit :: "outcome list \<Rightarrow> tables \<Rightarrow> tables \<Rightarrow> pq_error option \<times> tables \<times> outcome list" where
  "commit fs old new =
     (case fs of
        [] \<Rightarrow> (None, new, [])
      | Failed e # fs' \<Rightarrow> (Some e, old, fs')
      | Lost e # fs' \<Rightarrow> (Some e, new, fs')
      | _ # fs' \<Rightarrow> (None, new, fs'))"

text \<open>A query for several rows: the rows that arrive and the error of the result set.\<close>

definition fetch :: "outcome list \<Rightarrow> (pq_error + 'a list) \<Rightarrow> (pq_error + 'a list \<times> pq_error option) \<times> outcome list" where
  "fetch fs r =
     (case r of
        Inl e \<Rightarrow> (case exec fs r of (_, fs') \<Rightarrow> (Inl e, fs'))
      | Inr rows \<Rightarrow>
          (case fs of
             [] \<Rightarrow> (Inr (rows, None), [])
           | Done # fs' \<Rightarrow> (Inr (rows, None), fs')
           | Cut n e # fs' \<Rightarrow> (Inr (take n rows, Some e), fs')
           | Failed e # fs' \<Rightarrow> (Inl e, fs')
           | Lost e # fs' \<Rightarrow> (Inl e, fs')))"

section \<open>Parameter types\<close>

text \<open>
  A parameter compared with or stored in an INTEGER column has to fit it (SQLSTATE 22003),
  and text has to be valid UTF-8 without a zero byte (22021).
\<close>

definition text_ok :: "string \<Rightarrow> bool" where
  "text_ok s \<longleftrightarrow> (\<forall>c \<in> set s. code_of c \<noteq> 0) \<and> valid_utf8 s"

definition params_err :: "string list \<Rightarrow> int list \<Rightarrow> pq_error option" where
  "params_err ts ns =
     (if \<exists>s \<in> set ts. \<not> text_ok s then Some (PqError ''22021'')
      else if \<exists>n \<in> set ns. \<not> int4_ok n then Some (PqError ''22003'')
      else None)"

definition checked :: "string list \<Rightarrow> int list \<Rightarrow> (pq_error + 'a) \<Rightarrow> pq_error + 'a" where
  "checked ts ns r = (case params_err ts ns of Some e \<Rightarrow> Inl e | None \<Rightarrow> r)"

lemma text_ok_name: "name_ok s \<Longrightarrow> text_ok s"
  by (auto simp: text_ok_def name_ok_def intro!: valid_utf8_ascii)

lemma checked_ok:
  "(\<And>s. s \<in> set ts \<Longrightarrow> text_ok s) \<Longrightarrow> (\<And>n. n \<in> set ns \<Longrightarrow> int4_ok n) \<Longrightarrow> checked ts ns r = r"
  by (auto simp: checked_def params_err_def)

section \<open>Statements on blob_log and blob_chunks\<close>

definition log_in :: "string \<Rightarrow> string \<Rightarrow> int \<Rightarrow> log_row \<Rightarrow> bool" where
  "log_in p d g l \<longleftrightarrow> l_pseudonym l = p \<and> l_device_id l = d \<and> l_generation l = g"

definition chunk_in :: "string \<Rightarrow> string \<Rightarrow> int \<Rightarrow> chunk_row \<Rightarrow> bool" where
  "chunk_in p d g c \<longleftrightarrow> ch_pseudonym c = p \<and> ch_device_id c = d \<and> ch_generation c = g"

text \<open>\<open>SELECT MAX(...)\<close>: NULL on no rows.\<close>

definition sql_max :: "('a \<Rightarrow> int) \<Rightarrow> 'a list \<Rightarrow> int option" where
  "sql_max f rows = (if rows = [] then None else Some (Max (set (map f rows))))"

definition select_max_seq :: "tables \<Rightarrow> BlobKey \<Rightarrow> pq_error + int option" where
  "select_max_seq t k =
     checked [key_Pseudonym k, key_DeviceID k] [key_Generation k]
       (Inr (sql_max l_seq (filter
          (log_in (key_Pseudonym k) (key_DeviceID k) (key_Generation k)) (blob_log t))))"

definition insert_chunk :: "tables \<Rightarrow> BlobKey \<Rightarrow> int \<Rightarrow> bytes \<Rightarrow> pq_error + tables" where
  "insert_chunk t k idx buf =
     checked [key_Pseudonym k, key_DeviceID k] [key_Generation k, key_Seq k, idx]
       (if \<exists>c \<in> set (blob_chunks t). chunk_in (key_Pseudonym k) (key_DeviceID k) (key_Generation k) c \<and>
              ch_seq c = key_Seq k \<and> ch_idx c = idx
        then Inl (PqError ''23505'')
        else Inr (t\<lparr>blob_chunks := blob_chunks t @
               [\<lparr>ch_pseudonym = key_Pseudonym k, ch_device_id = key_DeviceID k,
                 ch_generation = key_Generation k, ch_seq = key_Seq k, ch_idx = idx,
                 ch_chunk = buf\<rparr>]\<rparr>))"

definition insert_log ::
  "tables \<Rightarrow> time \<Rightarrow> BlobKey \<Rightarrow> string \<Rightarrow> string option \<Rightarrow> int \<Rightarrow> pq_error + tables" where
  "insert_log t now k sha prev sz =
     checked ([key_Pseudonym k, key_DeviceID k, sha] @ (case prev of None \<Rightarrow> [] | Some s \<Rightarrow> [s]))
       [key_Generation k, key_Seq k]
       (if \<exists>l \<in> set (blob_log t). log_in (key_Pseudonym k) (key_DeviceID k) (key_Generation k) l \<and>
              l_seq l = key_Seq k
        then Inl (PqError ''23505'')
        else Inr (t\<lparr>blob_log := blob_log t @
               [\<lparr>l_pseudonym = key_Pseudonym k, l_device_id = key_DeviceID k,
                 l_generation = key_Generation k, l_seq = key_Seq k, l_sha256 = sha,
                 l_prev_sha256 = prev, l_size = sz, l_created_at = now\<rparr>]\<rparr>))"

definition select_size :: "tables \<Rightarrow> BlobKey \<Rightarrow> pq_error + int option" where
  "select_size t k =
     checked [key_Pseudonym k, key_DeviceID k] [key_Generation k, key_Seq k]
       (Inr (map_option l_size (find (\<lambda>l.
          log_in (key_Pseudonym k) (key_DeviceID k) (key_Generation k) l \<and> l_seq l = key_Seq k)
          (blob_log t))))"

definition chunks_for :: "tables \<Rightarrow> string \<Rightarrow> string \<Rightarrow> int \<Rightarrow> int \<Rightarrow> bytes list" where
  "chunks_for t p d g q =
     map ch_chunk (sort_key ch_idx (filter (\<lambda>c. chunk_in p d g c \<and> ch_seq c = q) (blob_chunks t)))"

definition select_chunks :: "tables \<Rightarrow> BlobKey \<Rightarrow> pq_error + bytes list" where
  "select_chunks t k =
     checked [key_Pseudonym k, key_DeviceID k] [key_Generation k, key_Seq k]
       (Inr (chunks_for t (key_Pseudonym k) (key_DeviceID k) (key_Generation k) (key_Seq k)))"

definition select_index ::
  "tables \<Rightarrow> string \<Rightarrow> string \<Rightarrow> int \<Rightarrow> int \<Rightarrow> int \<Rightarrow> pq_error + log_row list" where
  "select_index t p d g from limit =
     checked [p, d] [g, from]
       (if limit < 0 then Inl (PqError ''2201W'')
        else Inr (take (nat limit)
          (sort_key l_seq (filter (\<lambda>l. log_in p d g l \<and> l_seq l \<ge> from) (blob_log t)))))"

text \<open>
  \<open>SELECT DISTINCT ON (device_id, generation) ... ORDER BY device_id, generation, seq DESC\<close>:
  the first row of each run of equal keys, with the two window aggregates over its
  partition. Text is ordered bytewise here, as the device identifiers (lower-case
  hexadecimal) are under every collation that puts digits before letters.
\<close>

function distinct_on :: "('a \<Rightarrow> 'k) \<Rightarrow> 'a list \<Rightarrow> 'a list" where
  "distinct_on f [] = []"
| "distinct_on f (x # xs) = x # distinct_on f (dropWhile (\<lambda>y. f y = f x) xs)"
  by pat_completeness auto
termination
  by (relation "measure (\<lambda>(f, xs). length xs)") (auto simp: length_dropWhile_le le_imp_less_Suc)

definition manifest_row :: "log_row list \<Rightarrow> log_row \<Rightarrow> DeviceSummary" where
  "manifest_row rows l =
     (let part = filter (\<lambda>x. l_device_id x = l_device_id l \<and> l_generation x = l_generation l) rows
      in \<lparr>dev_DeviceID = l_device_id l, dev_Generation = l_generation l, dev_HeadSeq = l_seq l,
          dev_HeadSha256 = l_sha256 l, dev_TotalBytes = sum_list (map l_size part),
          dev_UpdatedAt = Max (set (map l_created_at part))\<rparr>)"

definition select_manifest :: "tables \<Rightarrow> string \<Rightarrow> pq_error + DeviceSummary list" where
  "select_manifest t p =
     checked [p] []
       (let rows = filter (\<lambda>l. l_pseudonym l = p) (blob_log t);
            ordered = sort_key (\<lambda>l. (l_device_id l, l_generation l, - l_seq l)) rows
        in Inr (map (manifest_row rows) (distinct_on (\<lambda>l. (l_device_id l, l_generation l)) ordered)))"

definition select_max_generation :: "tables \<Rightarrow> string \<Rightarrow> string \<Rightarrow> pq_error + int option" where
  "select_max_generation t p d =
     checked [p, d] []
       (Inr (sql_max l_generation (filter (\<lambda>l. l_pseudonym l = p \<and> l_device_id l = d) (blob_log t))))"

definition delete_gen_chunks :: "tables \<Rightarrow> string \<Rightarrow> string \<Rightarrow> int \<Rightarrow> pq_error + tables" where
  "delete_gen_chunks t p d g =
     checked [p, d] [g] (Inr (t\<lparr>blob_chunks := filter (\<lambda>c. \<not> chunk_in p d g c) (blob_chunks t)\<rparr>))"

definition delete_gen_log :: "tables \<Rightarrow> string \<Rightarrow> string \<Rightarrow> int \<Rightarrow> pq_error + tables \<times> int" where
  "delete_gen_log t p d g =
     checked [p, d] [g]
       (Inr (t\<lparr>blob_log := filter (\<lambda>l. \<not> log_in p d g l) (blob_log t)\<rparr>,
             int (length (filter (log_in p d g) (blob_log t)))))"

definition delete_account_chunks :: "tables \<Rightarrow> string \<Rightarrow> pq_error + tables" where
  "delete_account_chunks t p =
     checked [p] [] (Inr (t\<lparr>blob_chunks := filter (\<lambda>c. ch_pseudonym c \<noteq> p) (blob_chunks t)\<rparr>))"

definition delete_account_log :: "tables \<Rightarrow> string \<Rightarrow> pq_error + tables \<times> int" where
  "delete_account_log t p =
     checked [p] []
       (Inr (t\<lparr>blob_log := filter (\<lambda>l. l_pseudonym l \<noteq> p) (blob_log t)\<rparr>,
             int (length (filter (\<lambda>l. l_pseudonym l = p) (blob_log t)))))"

section \<open>Statements on auth_nonces\<close>

text \<open>
  A statement outside a transaction commits by itself: the tables and the rows affected, or
  the error. When the reply is lost, the statement has been performed.
\<close>

definition autocommit ::
  "outcome list \<Rightarrow> tables \<Rightarrow> (pq_error + tables \<times> int) \<Rightarrow> (pq_error + int) \<times> tables \<times> outcome list" where
  "autocommit fs t r =
     (case exec fs r of
        (Inl e, fs') \<Rightarrow>
          (Inl e, case (fs, r) of (Lost _ # _, Inr (t', _)) \<Rightarrow> t' | _ \<Rightarrow> t, fs')
      | (Inr (t', n), fs') \<Rightarrow> (Inr n, t', fs'))"

definition delete_expired :: "tables \<Rightarrow> time \<Rightarrow> pq_error + tables \<times> int" where
  "delete_expired t now =
     Inr (t\<lparr>auth_nonces := filter (\<lambda>r. \<not> n_expires_at r < now) (auth_nonces t)\<rparr>,
          int (length (filter (\<lambda>r. n_expires_at r < now) (auth_nonces t))))"

definition insert_nonce :: "tables \<Rightarrow> string \<Rightarrow> time \<Rightarrow> pq_error + tables \<times> int" where
  "insert_nonce t nonce expiresAt =
     checked [nonce] []
       (if \<exists>r \<in> set (auth_nonces t). n_nonce r = nonce then Inr (t, 0)
        else Inr (t\<lparr>auth_nonces := auth_nonces t @ [\<lparr>n_nonce = nonce, n_expires_at = expiresAt\<rparr>]\<rparr>, 1))"

end
