(* ===== verification/Nonce_Store.thy ===== *)
theory Nonce_Store
  imports Database
begin

text \<open>
  \<open>internal/nonce\<close>: the two stores that make an auth proof single-use, \<open>nonce.go\<close>'s map
  and \<open>postgres.go\<close>'s table, and the contract \<open>nonce_store\<close> they share: a record once made
  stands until its expiry, and while it stands no second \<open>Consume\<close> of the nonce succeeds.
  Each store reads its own clock for its sweep of expired records.
\<close>

section \<open>The interface\<close>

record 'n NonceStore =
  ns_Consume :: "'n \<Rightarrow> string \<Rightarrow> time \<Rightarrow> (pq_error + bool) \<times> 'n"

section \<open>The in-memory store\<close>

record NonceMemory =
  nm_seen :: "(string \<times> time) list"
  nm_now :: time

definition NewNonceMemory :: "time \<Rightarrow> NonceMemory" where
  "NewNonceMemory now = \<lparr>nm_seen = [], nm_now = now\<rparr>"

definition NonceMemory_Consume :: "NonceMemory \<Rightarrow> string \<Rightarrow> time \<Rightarrow> (pq_error + bool) \<times> NonceMemory" where
  "NonceMemory_Consume m nonce expiresAt =
     (let seen = filter (\<lambda>(_, exp). \<not> nm_now m > exp) (nm_seen m)
      in if map_of seen nonce \<noteq> None then (Inr False, m\<lparr>nm_seen := seen\<rparr>)
         else (Inr True, m\<lparr>nm_seen := AList.update nonce expiresAt seen\<rparr>))"

definition nonce_memory_ops :: "NonceMemory NonceStore" where
  "nonce_memory_ops = \<lparr>ns_Consume = NonceMemory_Consume\<rparr>"

section \<open>The PostgreSQL store\<close>

text \<open>
  \<open>rand.IntN(64) == 0\<close> is the next draw of \<open>db_coins\<close> (none left: no sweep).
\<close>

definition NoncePostgres_Consume :: "database \<Rightarrow> string \<Rightarrow> time \<Rightarrow> (pq_error + bool) \<times> database" where
  "NoncePostgres_Consume db nonce expiresAt =
     (let sweep = (case db_coins db of c # _ \<Rightarrow> c | [] \<Rightarrow> False);
          db = db\<lparr>db_coins := tl (db_coins db)\<rparr>;
          (err, db) =
            (if sweep
             then case autocommit (db_faults db) (db_tables db) (delete_expired (db_tables db) (db_now db)) of
                    (Inl e, t, fs) \<Rightarrow> (Some e, db\<lparr>db_tables := t, db_faults := fs\<rparr>)
                  | (Inr _, t, fs) \<Rightarrow> (None, db\<lparr>db_tables := t, db_faults := fs\<rparr>)
             else (None, db))
      in case err of
           Some e \<Rightarrow> (Inl e, db)
         | None \<Rightarrow>
             (case autocommit (db_faults db) (db_tables db) (insert_nonce (db_tables db) nonce expiresAt) of
                (Inl e, t, fs) \<Rightarrow> (Inl e, db\<lparr>db_tables := t, db_faults := fs\<rparr>)
              | (Inr n, t, fs) \<Rightarrow> (Inr (n = 1), db\<lparr>db_tables := t, db_faults := fs\<rparr>)))"

definition nonce_postgres_ops :: "database NonceStore" where
  "nonce_postgres_ops = \<lparr>ns_Consume = NoncePostgres_Consume\<rparr>"

section \<open>The contract\<close>

text \<open>A sequence of calls \<open>(clock reading, nonce, expiry)\<close> and their results.\<close>

fun run_consume ::
  "'n NonceStore \<Rightarrow> ('n \<Rightarrow> time \<Rightarrow> 'n) \<Rightarrow> 'n \<Rightarrow> (time \<times> string \<times> time) list \<Rightarrow> (pq_error + bool) list \<times> 'n" where
  "run_consume ops at s [] = ([], s)"
| "run_consume ops at s ((now, n, e) # calls) =
     (case ns_Consume ops (at s now) n e of
        (r, s') \<Rightarrow> (case run_consume ops at s' calls of (rs, s'') \<Rightarrow> (r # rs, s'')))"

text \<open>
  \<open>spent s n = Some e\<close>: the nonce is on record until \<open>e\<close>. A store may drop a record only
  once its clock is past the expiry, it answers \<open>True\<close> only for a nonce not on record, and
  then it has it on record.
\<close>

locale nonce_store =
  fixes ops :: "'n NonceStore" and spent :: "'n \<Rightarrow> string \<Rightarrow> time option"
    and clock :: "'n \<Rightarrow> time" and at :: "'n \<Rightarrow> time \<Rightarrow> 'n"
  assumes at_clock: "clock (at s now) = now"
    and at_spent: "spent (at s now) = spent s"
    and consume_recorded:
      "ns_Consume ops s n e = (Inr True, s') \<Longrightarrow> spent s' n = Some e"
    and consume_standing:
      "ns_Consume ops s n e = (r, s') \<Longrightarrow> spent s m = Some x \<Longrightarrow> clock s \<le> x \<Longrightarrow> spent s' m = Some x"
    and consume_refused:
      "ns_Consume ops s n e = (r, s') \<Longrightarrow> spent s n = Some x \<Longrightarrow> clock s \<le> x \<Longrightarrow> r \<noteq> Inr True"
begin

lemma run_standing:
  assumes "spent s n = Some x" and "\<forall>(now, _) \<in> set calls. now \<le> x"
  shows "\<forall>((_, m, _), r) \<in> set (zip calls (fst (run_consume ops at s calls))). m = n \<longrightarrow> r \<noteq> Inr True"
  using assms
proof (induction calls arbitrary: s)
  case (Cons c calls)
  obtain now m e where c: "c = (now, m, e)" by (cases c)
  obtain r s1 where step: "ns_Consume ops (at s now) m e = (r, s1)" by force
  have "spent s1 n = Some x" "m = n \<longrightarrow> r \<noteq> Inr True"
    using consume_standing [OF step, of n x] consume_refused [OF step, of x] Cons.prems c
    by (auto simp: at_clock at_spent)
  with Cons.IH [of s1] Cons.prems(2) c step show ?case by (auto split: prod.splits)
qed simp

text \<open>
  Single use: after a successful \<open>Consume\<close> of a nonce, no call made no later than the
  expiry given with it succeeds for it again.
\<close>

lemma single_use:
  assumes "ns_Consume ops (at s now) n e = (Inr True, s')" and "\<forall>(now, _) \<in> set calls. now \<le> e"
  shows "\<forall>((_, m, _), r) \<in> set (zip calls (fst (run_consume ops at s' calls))). m = n \<longrightarrow> r \<noteq> Inr True"
  using run_standing [OF consume_recorded [OF assms(1)] assms(2)] .

end

section \<open>Nonce stores seen through a view\<close>

definition nonce_views :: "('w \<Rightarrow> 'n) \<Rightarrow> 'w NonceStore \<Rightarrow> 'n NonceStore \<Rightarrow> bool" where
  "nonce_views get wide ops \<longleftrightarrow>
     (\<forall>w n e. map_prod id get (ns_Consume wide w n e) = ns_Consume ops (get w) n e)"

lemma nonce_viewsD:
  "nonce_views get wide ops \<Longrightarrow> ns_Consume wide w n e = (r, w') \<Longrightarrow> ns_Consume ops (get w) n e = (r, get w')"
  unfolding nonce_views_def by (metis map_prod_simp id_apply)

context nonce_store
begin

lemma nonce_viewed:
  assumes v: "nonce_views get wide ops" and at: "\<And>w now. get (at' w now) = at (get w) now"
  shows "nonce_store wide (\<lambda>w. spent (get w)) (\<lambda>w. clock (get w)) at'"
proof
  show "clock (get (at' w now)) = now" "spent (get (at' w now)) = spent (get w)" for w now
    by (simp_all add: at at_clock at_spent)
  show "ns_Consume wide w n e = (Inr True, w') \<Longrightarrow> spent (get w') n = Some e" for w n e w'
    using consume_recorded nonce_viewsD [OF v] by blast
  show "ns_Consume wide w n e = (r, w') \<Longrightarrow> spent (get w) m = Some x \<Longrightarrow> clock (get w) \<le> x \<Longrightarrow>
      spent (get w') m = Some x" for w n e r w' m x
    using consume_standing nonce_viewsD [OF v] by blast
  show "ns_Consume wide w n e = (r, w') \<Longrightarrow> spent (get w) n = Some x \<Longrightarrow> clock (get w) \<le> x \<Longrightarrow> r \<noteq> Inr True"
    for w n e r w' x
    using consume_refused nonce_viewsD [OF v] by blast
qed

end

section \<open>Both stores meet it\<close>

definition mem_spent :: "NonceMemory \<Rightarrow> string \<Rightarrow> time option" where
  "mem_spent m = map_of (nm_seen m)"

lemma map_of_filter_value:
  "map_of xs k = Some v \<Longrightarrow> P v \<Longrightarrow> map_of (filter (\<lambda>(_, v). P v) xs) k = Some v"
  by (induction xs) (auto split: if_splits)

lemma find_filter_first:
  "find P xs = Some x \<Longrightarrow> Q x \<Longrightarrow> find P (filter Q xs) = Some x"
  by (induction xs) (auto split: if_splits)

lemma find_append_Some: "find P xs = Some x \<Longrightarrow> find P (xs @ ys) = Some x"
  by (induction xs) (auto split: if_splits)

lemma find_append_None: "find P xs = None \<Longrightarrow> find P (xs @ ys) = find P ys"
  by (induction xs) (auto split: if_splits)

definition nm_at :: "NonceMemory \<Rightarrow> time \<Rightarrow> NonceMemory" where
  "nm_at m now = m\<lparr>nm_now := now\<rparr>"

definition pg_nonce_at :: "database \<Rightarrow> time \<Rightarrow> database" where
  "pg_nonce_at db now = db\<lparr>db_now := now\<rparr>"

interpretation nm: nonce_store nonce_memory_ops mem_spent nm_now nm_at
proof
  show "nm_now (nm_at s now) = now" "mem_spent (nm_at s now) = mem_spent s" for s now
    by (simp_all add: nm_at_def mem_spent_def)
next
  fix s n e s'
  assume "ns_Consume nonce_memory_ops s n e = (Inr True, s')"
  then show "mem_spent s' n = Some e"
    by (auto simp: nonce_memory_ops_def NonceMemory_Consume_def mem_spent_def Let_def update_conv'
        split: if_splits)
next
  fix s n e r s' m x
  assume call: "ns_Consume nonce_memory_ops s n e = (r, s')" and "mem_spent s m = Some x" "nm_now s \<le> x"
  then have "map_of (filter (\<lambda>(_, exp). \<not> nm_now s > exp) (nm_seen s)) m = Some x"
    by (intro map_of_filter_value) (auto simp: mem_spent_def)
  with call show "mem_spent s' m = Some x"
    by (auto simp: nonce_memory_ops_def NonceMemory_Consume_def mem_spent_def Let_def update_conv'
        split: if_splits)
next
  fix s n e r s' x
  assume call: "ns_Consume nonce_memory_ops s n e = (r, s')" and "mem_spent s n = Some x" "nm_now s \<le> x"
  then have "map_of (filter (\<lambda>(_, exp). \<not> nm_now s > exp) (nm_seen s)) n = Some x"
    by (intro map_of_filter_value) (auto simp: mem_spent_def)
  with call show "r \<noteq> Inr True"
    by (auto simp: nonce_memory_ops_def NonceMemory_Consume_def)
qed

text \<open>
  The PostgreSQL store, under any script of faults and any draws: a sweep keeps standing
  records, and the insert reports one row only for a nonce not in the table.
\<close>

lemma autocommit_cases:
  assumes "autocommit fs t r = (res, t', fs')"
  obtains (failed) e where "res = Inl e" "t' = t"
    | (lost) e n where "res = Inl e" "r = Inr (t', n)"
    | (finished) n where "res = Inr n" "r = Inr (t', n)"
  using assms
  by (auto simp: autocommit_def exec_def split: list.splits outcome.splits sum.splits prod.splits)

definition spent_in :: "tables \<Rightarrow> string \<Rightarrow> time option" where
  "spent_in t n = map_option n_expires_at (find (\<lambda>r. n_nonce r = n) (auth_nonces t))"

lemma delete_expired_standing:
  assumes "delete_expired t now = Inr (t', k)" "spent_in t m = Some x" "now \<le> x"
  shows "spent_in t' m = Some x"
  using assms find_filter_first [of "\<lambda>r. n_nonce r = m" "auth_nonces t" _ "\<lambda>r. \<not> n_expires_at r < now"]
  by (auto simp: delete_expired_def spent_in_def)

lemma insert_nonce_standing:
  assumes "insert_nonce t n e = Inr (t', k)" "spent_in t m = Some x"
  shows "spent_in t' m = Some x"
  using assms by (auto simp: insert_nonce_def checked_def spent_in_def find_append_Some
      split: option.splits if_splits)

lemma insert_nonce_one:
  assumes "insert_nonce t n e = Inr (t', 1)"
  shows "spent_in t n = None" "spent_in t' n = Some e"
  using assms find_append_None [of "\<lambda>r. n_nonce r = n" "auth_nonces t"]
  by (auto simp: insert_nonce_def checked_def spent_in_def find_None_iff split: option.splits if_splits)

lemma NoncePostgres_Consume_cases:
  assumes "NoncePostgres_Consume db n e = (r, db')"
  obtains t where "t = db_tables db \<or> (\<exists>k. delete_expired (db_tables db) (db_now db) = Inr (t, k))"
    and "(db_tables db' = t \<and> (\<exists>x. r = Inl x)) \<or>
       (\<exists>k. insert_nonce t n e = Inr (db_tables db', k) \<and> (r = Inr (k = 1) \<or> (\<exists>x. r = Inl x)))"
proof -
  define sweep where "sweep = (case db_coins db of c # _ \<Rightarrow> c | [] \<Rightarrow> False)"
  obtain r1 t1 fs1 where del: "autocommit (db_faults db) (db_tables db)
      (delete_expired (db_tables db) (db_now db)) = (r1, t1, fs1)" by (metis prod_cases3)
  have t1: "t1 = db_tables db \<or> (\<exists>k. delete_expired (db_tables db) (db_now db) = Inr (t1, k))"
    using del by (cases rule: autocommit_cases) auto
  show thesis
  proof (cases "sweep \<and> (\<exists>x. r1 = Inl x)")
    case True
    with assms del that [of t1] t1 show thesis
      by (auto simp: NoncePostgres_Consume_def Let_def sweep_def [symmetric])
  next
    case False
    define t fs where "t = (if sweep then t1 else db_tables db)" and "fs = (if sweep then fs1 else db_faults db)"
    obtain r2 t2 fs2 where ins: "autocommit fs t (insert_nonce t n e) = (r2, t2, fs2)" by (metis prod_cases3)
    with False assms del have "db_tables db' = t2" "r = (case r2 of Inl x \<Rightarrow> Inl x | Inr k \<Rightarrow> Inr (k = 1))"
      by (cases r1; cases r2; auto simp: NoncePostgres_Consume_def Let_def sweep_def [symmetric] t_def fs_def
          split: if_splits)+
    moreover have "t = db_tables db \<or> (\<exists>k. delete_expired (db_tables db) (db_now db) = Inr (t, k))"
      using t1 by (simp add: t_def)
    ultimately show thesis using that ins by (cases rule: autocommit_cases [OF ins]) auto
  qed
qed

interpretation npg: nonce_store nonce_postgres_ops "\<lambda>db. spent_in (db_tables db)" db_now pg_nonce_at
proof
  show "db_now (pg_nonce_at s now) = now" "spent_in (db_tables (pg_nonce_at s now)) = spent_in (db_tables s)" for s now
    by (simp_all add: pg_nonce_at_def)
next
  fix s n e s'
  assume "ns_Consume nonce_postgres_ops s n e = (Inr True, s')"
  then have "NoncePostgres_Consume s n e = (Inr True, s')" by (simp add: nonce_postgres_ops_def)
  then show "spent_in (db_tables s') n = Some e"
    by (rule NoncePostgres_Consume_cases) (auto dest: insert_nonce_one)
next
  fix s n e r s' m x
  assume "ns_Consume nonce_postgres_ops s n e = (r, s')" and x: "spent_in (db_tables s) m = Some x" "db_now s \<le> x"
  then have "NoncePostgres_Consume s n e = (r, s')" by (simp add: nonce_postgres_ops_def)
  then show "spent_in (db_tables s') m = Some x"
  proof (rule NoncePostgres_Consume_cases)
    fix t
    assume t: "t = db_tables s \<or> (\<exists>k. delete_expired (db_tables s) (db_now s) = Inr (t, k))"
      and ins: "(db_tables s' = t \<and> (\<exists>x. r = Inl x)) \<or>
       (\<exists>k. insert_nonce t n e = Inr (db_tables s', k) \<and> (r = Inr (k = 1) \<or> (\<exists>x. r = Inl x)))"
    have "spent_in t m = Some x" using t x delete_expired_standing by blast
    with ins show ?thesis using insert_nonce_standing by blast
  qed
next
  fix s n e r s' x
  assume "ns_Consume nonce_postgres_ops s n e = (r, s')" and x: "spent_in (db_tables s) n = Some x" "db_now s \<le> x"
  then have "NoncePostgres_Consume s n e = (r, s')" by (simp add: nonce_postgres_ops_def)
  then show "r \<noteq> Inr True"
  proof (rule NoncePostgres_Consume_cases)
    fix t
    assume t: "t = db_tables s \<or> (\<exists>k. delete_expired (db_tables s) (db_now s) = Inr (t, k))"
      and ins: "(db_tables s' = t \<and> (\<exists>x. r = Inl x)) \<or>
       (\<exists>k. insert_nonce t n e = Inr (db_tables s', k) \<and> (r = Inr (k = 1) \<or> (\<exists>x. r = Inl x)))"
    have "spent_in t n = Some x" using t x delete_expired_standing by blast
    with ins insert_nonce_one show ?thesis by fastforce
  qed
qed

end
