(* ===== verification/Logger.thy ===== *)
theory Logger
  imports Go_Std
begin

text \<open>
  \<open>internal/logger\<close>: the choice of level and format, and the handler that stamps the trace
  identifiers of the context onto a record. \<open>slog\<close>'s own handlers are constructors: the two
  it can be built on, with the attributes and groups added to them.
\<close>

datatype slog_level = LevelDebug | LevelInfo | LevelWarn | LevelError

type_synonym attrs = "(string \<times> string) list"

datatype slog_handler =
    NewJSONHandler slog_level
  | NewTextHandler slog_level
  | With_attrs slog_handler attrs
  | With_group slog_handler string
  | traceHandler slog_handler

text \<open>\<open>strings.ToLower\<close>, as far as a comparison with an ASCII word without i and k can tell.\<close>

definition to_lower :: "string \<Rightarrow> string" where
  "to_lower = map (\<lambda>c. if 65 \<le> code_of c \<and> code_of c \<le> 90 then char_of (code_of c + 32) else c)"

definition level_of :: "string \<Rightarrow> slog_level" where
  "level_of level =
     (if to_lower level = ''debug'' then LevelDebug
      else if to_lower level = ''warn'' then LevelWarn
      else if to_lower level = ''error'' then LevelError
      else LevelInfo)"

definition WithTraceContext :: "slog_handler \<Rightarrow> slog_handler" where
  "WithTraceContext h = traceHandler h"

definition Configure :: "string \<Rightarrow> string \<Rightarrow> slog_handler" where
  "Configure level format =
     (let l = level_of level
      in WithTraceContext (if to_lower format = ''text'' then NewTextHandler l else NewJSONHandler l))"

text \<open>\<open>Handler.WithAttrs\<close> and \<open>Handler.WithGroup\<close>: the trace handler re-wraps what it wraps.\<close>

fun WithAttrs :: "slog_handler \<Rightarrow> attrs \<Rightarrow> slog_handler" where
  "WithAttrs (traceHandler h) as = traceHandler (WithAttrs h as)"
| "WithAttrs h as = With_attrs h as"

fun WithGroup :: "slog_handler \<Rightarrow> string \<Rightarrow> slog_handler" where
  "WithGroup (traceHandler h) name = traceHandler (WithGroup h name)"
| "WithGroup h name = With_group h name"

text \<open>
  \<open>Handle\<close>: the span context is the trace and span identifiers when it is valid. What comes
  out is what \<open>slog\<close> writes: the attributes added to the handler before those of the record,
  each under the names of the groups opened before it.
\<close>

fun Handle :: "slog_handler \<Rightarrow> (string \<times> string) option \<Rightarrow> attrs \<Rightarrow> attrs" where
  "Handle (NewJSONHandler l) sc r = r"
| "Handle (NewTextHandler l) sc r = r"
| "Handle (With_attrs h as) sc r = Handle h sc (as @ r)"
| "Handle (With_group h name) sc r = Handle h sc (map (\<lambda>(k, v). (name @ ''.'' @ k, v)) r)"
| "Handle (traceHandler h) sc r =
     Handle h sc (r @ (case sc of None \<Rightarrow> [] | Some (trace, span) \<Rightarrow> [(''trace_id'', trace), (''span_id'', span)]))"

text \<open>What a logger may be turned into by adding attributes and groups.\<close>

inductive derived :: "slog_handler \<Rightarrow> slog_handler \<Rightarrow> bool" for h where
  same: "derived h h"
| attrs: "derived h h' \<Longrightarrow> derived h (WithAttrs h' as)"
| group: "derived h h' \<Longrightarrow> derived h (WithGroup h' name)"

lemma derived_trace: "derived h h' \<Longrightarrow> \<exists>k. h = traceHandler k \<Longrightarrow> \<exists>k'. h' = traceHandler k'"
  by (induction rule: derived.induct) auto

text \<open>
  Whatever logger is derived from the configured one, a record logged inside a traced
  request is handled exactly as one that carries the two trace identifiers as its last
  attributes, and a record outside a trace exactly as it is.
\<close>

theorem Configure_stamps:
  assumes "derived (Configure level format) h"
  shows "\<exists>k. h = traceHandler k \<and> Handle h None r = Handle k None r \<and>
     Handle h (Some (trace, span)) r = Handle k (Some (trace, span)) (r @ [(''trace_id'', trace), (''span_id'', span)])"
  using derived_trace [OF assms] by (auto simp: Configure_def WithTraceContext_def Let_def)

theorem Configure_stamps_witness:
  "derived (Configure ''WARN'' ''json'') (WithAttrs (Configure ''WARN'' ''json'') [(''a'', ''b'')]) \<and>
   (\<exists>k. WithAttrs (Configure ''WARN'' ''json'') [(''a'', ''b'')] = traceHandler k \<and>
     Handle (WithAttrs (Configure ''WARN'' ''json'') [(''a'', ''b'')]) (Some (''t'', ''s'')) [(''msg'', ''m'')] =
     Handle k (Some (''t'', ''s'')) [(''msg'', ''m''), (''trace_id'', ''t''), (''span_id'', ''s'')])"
proof
  show d: "derived (Configure ''WARN'' ''json'') (WithAttrs (Configure ''WARN'' ''json'') [(''a'', ''b'')])"
    by (intro derived.intros)
  show "\<exists>k. WithAttrs (Configure ''WARN'' ''json'') [(''a'', ''b'')] = traceHandler k \<and>
     Handle (WithAttrs (Configure ''WARN'' ''json'') [(''a'', ''b'')]) (Some (''t'', ''s'')) [(''msg'', ''m'')] =
     Handle k (Some (''t'', ''s'')) [(''msg'', ''m''), (''trace_id'', ''t''), (''span_id'', ''s'')]"
    using Configure_stamps [OF d, of "[(''msg'', ''m'')]" "''t''" "''s''"] by auto
qed

end
