(* ===== verification/Server.thy ===== *)
theory Server
  imports Handlers Nonce_Store Logger
begin

text \<open>
  \<open>internal/server\<close>: the auth middleware (\<open>middlewares\<close>), the size guard, CORS, telemetry
  and the router that composes them. The blob store and the nonce store are operations on
  one state \<open>'s\<close>, since in production both live in one database. Matching a request to a
  route is the chi router's, a parameter \<open>mux\<close> of the model; which handler a route has,
  and what runs around it, is the program's.
\<close>

section \<open>Authentication (middlewares/authproof.go, identity.go)\<close>

definition sha256HexPattern :: "string \<Rightarrow> bool" where
  "sha256HexPattern s \<longleftrightarrow> length s = 64 \<and> list_all is_lower_hex s"

definition WithIdentityKey :: "'k request \<Rightarrow> 'k \<Rightarrow> 'k request" where
  "WithIdentityKey r k = r\<lparr>rq_Identity := Some k\<rparr>"

definition refusalReason :: "auth_err \<Rightarrow> string" where
  "refusalReason err =
     (case err of
        ErrExpired \<Rightarrow> ''proof expired.''
      | ErrTooFarFuture \<Rightarrow> ''proof expiry too far in the future.''
      | ErrActionMismatch \<Rightarrow> ''proof does not describe this request.''
      | _ \<Rightarrow> ''proof signature invalid.'')"

definition refuse :: "writer \<Rightarrow> string \<Rightarrow> writer" where
  "refuse w reason = WriteError w 401 ''ERR_AUTH_REQUIRED'' (''Authentication required: '' @ reason)"

definition AuthProof ::
  "('k, 'g) wallet_api \<Rightarrow> 's NonceStore \<Rightarrow> ('s, 'k) handler \<Rightarrow> ('s, 'k) handler" where
  "AuthProof sdk nonces nxt s r w =
     (let headerValue = first_value (rq_Header r) Header
      in if headerValue = '''' then (s, refuse w (''missing '' @ Header @ '' header.''))
         else
    (case Decode headerValue of
       Inl _ \<Rightarrow> (s, refuse w ''proof is malformed.'')
     | Inr proof \<Rightarrow>
    (let digest = BodySha256 (p_Action proof)
     in if digest \<noteq> '''' \<and> \<not> sha256HexPattern digest
        then (s, refuse w ''body digest is not a sha256 hex.'')
        else if rq_Method r = ''POST'' \<and> digest = ''''
        then (s, refuse w ''an upload proof must bind the body digest.'')
        else
    (case Verify sdk proof (Action (rq_Method r) (RequestURI r) digest) (rq_Now r) of
       Inl err \<Rightarrow> (s, refuse w (refusalReason err))
     | Inr identity \<Rightarrow>
    (case ns_Consume nonces s (p_Nonce proof) (p_ExpiresAt proof * 1000000) of
       (Inl _, s') \<Rightarrow> (s', WriteError w 500 ''ERR_INTERNAL'' ''Could not check the proof for reuse.'')
     | (Inr False, s') \<Rightarrow> (s', refuse w ''proof already used.'')
     | (Inr True, s') \<Rightarrow>
         nxt s' (WithIdentityKey
                  (if digest \<noteq> '''' then r\<lparr>rq_Body := DigestBody (rq_Body r) [] digest False\<rparr> else r)
                  identity) w)))))"

section \<open>The layers around routing (server.go)\<close>

text \<open>
  A layer also returns the route pattern that matched, which chi keeps in the request's
  routing context: empty when the request never reached a route.
\<close>

type_synonym ('s, 'k) layer = "'s \<Rightarrow> 'k request \<Rightarrow> writer \<Rightarrow> 's \<times> writer \<times> string"

primrec inner :: "writer \<Rightarrow> writer" where
  "inner (Base b) = Base b"
| "inner (Recorder w status written) = w"
| "inner (Guard w limit over wrote) = w"

definition guard_owes :: "writer \<Rightarrow> bool" where
  "guard_owes g = (case g of Guard _ _ over wrote \<Rightarrow> over \<and> \<not> wrote | _ \<Rightarrow> False)"

definition maxBody :: "int \<Rightarrow> ('s, 'k) layer \<Rightarrow> ('s, 'k) layer" where
  "maxBody blobLimit nxt s r w =
     (if rq_ContentLength r > blobLimit then (s, writeTooLarge w blobLimit, '''')
      else case nxt s (r\<lparr>rq_Body := CountingBody (rq_Body r) blobLimit 0 False\<rparr>)
                  (Guard w blobLimit False False) of
             (s', g, route) \<Rightarrow> (s', inner (if guard_owes g then WriteHeader 413 g else g), route))"

definition corsMiddleware :: "('s, 'k) layer \<Rightarrow> ('s, 'k) layer" where
  "corsMiddleware nxt s r w =
     (let w = set_header ''Access-Control-Allow-Origin'' ''*'' w;
          w = set_header ''Access-Control-Allow-Headers'' ''*'' w;
          w = set_header ''Access-Control-Allow-Methods'' ''GET, POST, DELETE, OPTIONS'' w
      in if rq_Method r = ''OPTIONS'' then (s, WriteHeader 200 w, '''') else nxt s r w)"

section \<open>Telemetry (telemetry.go)\<close>

text \<open>
  What one request reports: the span's name, attributes and error status, the labels of the
  metrics and whether the error counter moved, and the log line. Durations are left out;
  the bytes counted are kept as the pieces written.
\<close>

record tel_record =
  tel_Span :: string
  tel_Method :: string
  tel_Route :: string
  tel_Status :: int
  tel_Error :: bool
  tel_Level :: slog_level
  tel_Written :: "piece list"

definition recorded :: "writer \<Rightarrow> int \<times> piece list" where
  "recorded w = (case w of Recorder _ status written \<Rightarrow> (status, written) | _ \<Rightarrow> (0, []))"

definition Telemetry :: "('s, 'k) layer \<Rightarrow> 's \<times> tel_record list \<Rightarrow> 'k request \<Rightarrow> writer \<Rightarrow>
    ('s \<times> tel_record list) \<times> writer \<times> string" where
  "Telemetry nxt st r w =
     (case st of (s, tel) \<Rightarrow>
        if rq_Path r = ''/health'' then (case nxt s r w of (s', w', route) \<Rightarrow> ((s', tel), w', route))
        else
     (case nxt s r (Recorder w 0 []) of
        (s', rec, pattern) \<Rightarrow>
          (let route = (if pattern = '''' then ''unmatched'' else pattern);
               (code, written) = recorded rec;
               status = (if code = 0 then 200 else code)
           in ((s', tel @ [\<lparr>tel_Span = rq_Method r @ '' '' @ route, tel_Method = rq_Method r,
                            tel_Route = route, tel_Status = status, tel_Error = (status \<ge> 500),
                            tel_Level = (if status \<ge> 500 then LevelWarn else LevelInfo),
                            tel_Written = written\<rparr>]),
               inner rec, pattern))))"

section \<open>The router\<close>

datatype mux_result = MuxHit string "(string \<times> string) list" | MuxNotFound | MuxMethodNotAllowed

type_synonym mux = "(string \<times> string) list \<Rightarrow> string \<Rightarrow> string \<Rightarrow> mux_result"

record ('s, 'k, 'g) Deps =
  Wallet :: "('k, 'g) wallet_api"
  Store :: "'s BlobStore"
  Nonces :: "'s NonceStore"
  MaxBlobBytes :: int
  Port :: int

definition routes :: "('s, 'k, 'g) Deps \<Rightarrow> string \<Rightarrow> ((string \<times> string) \<times> ('s, 'k) handler) list" where
  "routes d serverIdentityKey =
     (let auth = AuthProof (Wallet d) (Nonces d)
      in [((''GET'', ''/health''), Health (Store d)),
          ((''GET'', ''/v1/limits''), Limits (MaxBlobBytes d) serverIdentityKey),
          ((''GET'', ''/v1/manifest''), auth (Manifest (Wallet d) (Store d))),
          ((''POST'', ''/v1/log/{deviceId}''), auth (Append (Wallet d) (Store d))),
          ((''GET'', ''/v1/log/{deviceId}''), auth (Index (Wallet d) (Store d))),
          ((''GET'', ''/v1/log/{deviceId}/{seq}''), auth (Blob (Wallet d) (Store d))),
          ((''DELETE'', ''/v1/generation/{deviceId}/{generation}''), auth (PruneGeneration (Wallet d) (Store d))),
          ((''DELETE'', ''/v1/account''), auth (DeleteAccount (Wallet d) (Store d)))])"

text \<open>The 405 of a known path with another method is chi's own answer.\<close>

definition dispatch :: "mux \<Rightarrow> ((string \<times> string) \<times> ('s, 'k) handler) list \<Rightarrow> ('s, 'k) layer" where
  "dispatch mux table s r w =
     (let notFound = (s, WriteError w 404 ''ERR_NOT_FOUND'' ''No such route.'', '''')
      in case mux (map fst table) (rq_Method r) (rq_EscapedPath r) of
           MuxHit pattern params \<Rightarrow>
             (case map_of table (rq_Method r, pattern) of
                Some h \<Rightarrow> (case h s (r\<lparr>rq_Params := params\<rparr>) w of (s', w') \<Rightarrow> (s', w', pattern))
              | None \<Rightarrow> notFound)
         | MuxNotFound \<Rightarrow> notFound
         | MuxMethodNotAllowed \<Rightarrow> (s, WriteHeader 405 w, ''''))"

definition app :: "mux \<Rightarrow> ('s, 'k, 'g) Deps \<Rightarrow> string \<Rightarrow> ('s, 'k) layer" where
  "app mux d serverIdentityKey =
     corsMiddleware (maxBody (MaxBlobBytes d) (dispatch mux (routes d serverIdentityKey)))"

definition NewRouter :: "mux \<Rightarrow> ('s, 'k, 'g) Deps \<Rightarrow>
    string + ('s \<times> tel_record list \<Rightarrow> 'k request \<Rightarrow> writer \<Rightarrow> ('s \<times> tel_record list) \<times> writer \<times> string)" where
  "NewRouter mux d =
     (case GetPublicKey (Wallet d) of
        None \<Rightarrow> Inl ''read server identity key''
      | Some pub \<Rightarrow> Inr (Telemetry (app mux d (ToDERHex (Wallet d) pub))))"

section \<open>The HTTP server\<close>

definition StreamTimeout :: int where
  "StreamTimeout = 30 * 60 * 1000000000"

record ('s, 'k) http_server =
  Addr :: string
  Handler :: "'s \<times> tel_record list \<Rightarrow> 'k request \<Rightarrow> writer \<Rightarrow> ('s \<times> tel_record list) \<times> writer \<times> string"
  ReadHeaderTimeout :: int
  ReadTimeout :: int
  WriteTimeout :: int
  IdleTimeout :: int

definition New :: "mux \<Rightarrow> ('s, 'k, 'g) Deps \<Rightarrow> string + ('s, 'k) http_server" where
  "New mux d =
     (case NewRouter mux d of
        Inl e \<Rightarrow> Inl e
      | Inr h \<Rightarrow>
          Inr \<lparr>Addr = '':'' @ format_int (Port d), Handler = h, ReadHeaderTimeout = 10 * 1000000000,
               ReadTimeout = StreamTimeout, WriteTimeout = StreamTimeout, IdleTimeout = 2 * 60 * 1000000000\<rparr>)"

end
