(* ===== verification/Service.thy ===== *)
theory Service
  imports Server
begin

text \<open>
  The whole service over any stores that meet their contracts: what reaches a handler, what
  a request can change, and what it is answered. The locale \<open>service\<close> joins the two store
  contracts on one state; the deployments interpret it.
\<close>

section \<open>Admission\<close>

text \<open>
  A request is admitted when its header decodes to a proof that verifies for exactly this
  request line (and, on a POST, names a body digest), and the nonce was fresh.
\<close>

definition admits ::
  "('k, 'g) wallet_api \<Rightarrow> 's NonceStore \<Rightarrow> 's \<Rightarrow> 'k request \<Rightarrow> Proof \<Rightarrow> 'k \<Rightarrow> 's \<Rightarrow> bool" where
  "admits sdk nonces s r proof identity s1 \<longleftrightarrow>
     Decode (first_value (rq_Header r) Header) = Inr proof \<and>
     (let digest = BodySha256 (p_Action proof)
      in (digest = '''' \<or> sha256HexPattern digest) \<and> (rq_Method r = ''POST'' \<longrightarrow> digest \<noteq> '''') \<and>
         Verify sdk proof (Action (rq_Method r) (RequestURI r) digest) (rq_Now r) = Inr identity) \<and>
     ns_Consume nonces s (p_Nonce proof) (p_ExpiresAt proof * 1000000) = (Inr True, s1)"

definition authed :: "'k request \<Rightarrow> Proof \<Rightarrow> 'k \<Rightarrow> 'k request" where
  "authed r proof identity =
     WithIdentityKey
       (if BodySha256 (p_Action proof) \<noteq> ''''
        then r\<lparr>rq_Body := DigestBody (rq_Body r) [] (BodySha256 (p_Action proof)) False\<rparr> else r) identity"

lemma AuthProof_cases:
  assumes "AuthProof sdk nonces nxt s r w = (s', w')"
  obtains (refused) status code t where "w' = WriteError w status code t" "status = 401 \<or> status = 500"
      "s' = s \<or> (\<exists>n e res. ns_Consume nonces s n e = (res, s'))"
      "\<And>pf i s1. \<not> admits sdk nonces s r pf i s1"
    | (admitted) pf i s1 where "admits sdk nonces s r pf i s1"
        "nxt s1 (authed r pf i) w = (s', w')"
proof (cases "Decode (first_value (rq_Header r) Header)")
  case (Inl e)
  have "\<not> admits sdk nonces s r pf i s1" for pf i s1
    using Inl by (simp add: admits_def)
  moreover have "\<exists>t. w' = WriteError w 401 ''ERR_AUTH_REQUIRED'' t \<and> s' = s"
    using assms Inl by (auto simp: AuthProof_def Let_def refuse_def split: if_splits)
  ultimately show thesis using refused by blast
next
  case (Inr p)
  have hdr: "first_value (rq_Header r) Header \<noteq> ''''"
  proof
    assume "first_value (rq_Header r) Header = ''''"
    moreover have "Decode '''' = Inl (ErrMalformed ''header is not a JSON proof'')"
      by (simp add: Decode_def b64_decode_def unmarshal_proof_def json_parse_def string_of_bytes_def
          json_value.simps [of 0 "[]"] skip_ws_def)
    ultimately show False using Inr by simp
  qed
  let ?digest = "BodySha256 (p_Action p)"
  let ?v = "Verify sdk p (Action (rq_Method r) (RequestURI r) ?digest) (rq_Now r)"
  obtain res s1 where c: "ns_Consume nonces s (p_Nonce p) (p_ExpiresAt p * 1000000) = (res, s1)" by force
  have adm: "admits sdk nonces s r pf i s2 \<longleftrightarrow> pf = p \<and> (?digest = '''' \<or> sha256HexPattern ?digest) \<and>
      (rq_Method r = ''POST'' \<longrightarrow> ?digest \<noteq> '''') \<and> ?v = Inr i \<and> res = Inr True \<and> s2 = s1" for pf i s2
    using Inr c by (auto simp: admits_def Let_def)
  show thesis
  proof (cases "\<exists>i. admits sdk nonces s r p i s1")
    case True
    then obtain i where i: "admits sdk nonces s r p i s1" by blast
    with adm have "?v = Inr i" "res = Inr True" "?digest = '''' \<or> sha256HexPattern ?digest"
      "rq_Method r = ''POST'' \<longrightarrow> ?digest \<noteq> ''''" by blast+
    with assms Inr c hdr have "nxt s1 (authed r p i) w = (s', w')"
      by (auto simp: AuthProof_def Let_def authed_def split: if_splits)
    with i admitted show thesis by blast
  next
    case False
    then have none: "\<not> admits sdk nonces s r pf i s2" for pf i s2 using adm by blast
    have "\<exists>status code t. w' = WriteError w status code t \<and> (status = 401 \<or> status = 500) \<and> (s' = s \<or> s' = s1)"
      using False adm assms Inr c hdr
      by (cases ?v; cases res; auto simp: AuthProof_def Let_def refuse_def split: if_splits bool.splits)
    with none c refused show thesis by metis
  qed
qed

lemma admits_body [simp]: "admits sdk nonces s (r\<lparr>rq_Body := b\<rparr>) = admits sdk nonces s r"
  by (intro ext) (simp add: admits_def RequestURI_def)

lemma admits_params [simp]: "admits sdk nonces s (r\<lparr>rq_Params := ps\<rparr>) = admits sdk nonces s r"
  by (intro ext) (simp add: admits_def RequestURI_def)

lemma admits_unique:
  "admits sdk nonces s r pf i s1 \<Longrightarrow> admits sdk nonces s r pf' i' s1' \<Longrightarrow> pf' = pf \<and> i' = i \<and> s1' = s1"
  by (auto simp: admits_def Let_def)

lemma AuthProof_admits:
  assumes "admits sdk nonces s r pf i s1"
  shows "AuthProof sdk nonces nxt s r w = nxt s1 (authed r pf i) w"
proof -
  obtain s' w' where run: "AuthProof sdk nonces nxt s r w = (s', w')" by force
  then show ?thesis
  proof (cases rule: AuthProof_cases)
    case (admitted pf' i' s1')
    with admits_unique [OF assms admitted(1)] run show ?thesis by simp
  qed (use assms in blast)
qed

text \<open>
  What a client relies on of its own SDK beside \<open>sdk_pair\<close>: keys are encoded as non-empty
  ASCII text, signatures as at least one byte.
\<close>

definition sdk_client :: "('k, 'g) wallet_api \<Rightarrow> bool" where
  "sdk_client cw \<longleftrightarrow>
     (\<forall>k. ascii (ToDERHex cw k) \<and> ToDERHex cw k \<noteq> '''') \<and> (\<forall>sig der. ToDER cw sig = Some der \<longrightarrow> der \<noteq> [])"

lemma Sign_fields:
  assumes "Sign cw ckey action now nb = Inr p" and "sdk_client cw" and "ascii action" "nb \<noteq> Some []" "action \<noteq> ''''"
  shows "proof_ascii p" "p_Action p = action" "p_ExpiresAt p = unix_milli (now + Window)" "p_IdentityKey p \<noteq> ''''"
    "p_Nonce p \<noteq> ''''" "p_Signature p \<noteq> ''''"
proof -
  from assms(1) obtain pub nbs sig der where p: "p = \<lparr>p_Action = action, p_IdentityKey = ToDERHex cw pub,
      p_ExpiresAt = unix_milli (now + Window), p_Nonce = b64_encode nbs, p_Signature = b64_encode der\<rparr>"
    "nb = Some nbs" "ToDER cw sig = Some der"
    by (auto simp: Sign_def Let_def split: option.splits)
  have ne: "b64_encode bs \<noteq> ''''" if "bs \<noteq> []" for bs
    using that by (cases bs rule: b64_encode.cases) (auto simp: Let_def)
  have asc: "ascii (b64_encode bs)" for bs
    using b64_encode_chars [of _ bs] by (auto simp: ascii_def)
  show "proof_ascii p" "p_Action p = action" "p_ExpiresAt p = unix_milli (now + Window)" "p_IdentityKey p \<noteq> ''''"
    "p_Nonce p \<noteq> ''''" "p_Signature p \<noteq> ''''"
    using p assms(2-4) asc ne by (auto simp: proof_ascii_def sdk_client_def)
qed

text \<open>A request that carries a proof signed for it, in time and for the first time, is admitted.\<close>

lemma signed_admitted:
  assumes pair: "sdk_pair cw sw ck sk" "sdk_client cw"
    and sign: "Sign cw (ToDERHex cw sk) (Action (rq_Method r) (RequestURI r) digest) now (Some nb) = Inr p"
    and txts: "ascii (rq_Method r)" "ascii (RequestURI r)" "CHR '' '' \<notin> set (rq_Method r)" "CHR '' '' \<notin> set (RequestURI r)"
      "\<not> prefix ''sha256='' (RequestURI r)"
    and digest: "digest = '''' \<or> sha256HexPattern digest" "rq_Method r = ''POST'' \<longrightarrow> digest \<noteq> ''''"
    and hdr: "first_value (rq_Header r) Header = Encode p" and nb: "nb \<noteq> []"
    and time: "unix_milli now \<le> unix_milli (rq_Now r)" "unix_milli (rq_Now r) < unix_milli (now + Window)"
      "int64_ok (unix_milli (now + Window))"
    and fresh: "ns_Consume nonces s (p_Nonce p) (p_ExpiresAt p * 1000000) = (Inr True, s1)"
  shows "admits sw nonces s r p ck s1"
proof -
  have d: "ascii digest" "CHR '' '' \<notin> set digest"
    using digest(1)
    by (auto simp: sha256HexPattern_def list_all_iff ascii_def is_lower_hex_def is_digit_def code_of_def)
  let ?a = "Action (rq_Method r) (RequestURI r) digest"
  have a: "ascii ?a" "?a \<noteq> ''''"
    using txts d by (auto simp: Action_def ascii_def code_of_def sha_sep_def)
  note f = Sign_fields [OF sign pair(2) a(1) _ a(2)]
  have dec: "Decode (Encode p) = Inr p" using f nb a time(3) by (intro Decode_Encode) simp_all
  have dig: "BodySha256 (p_Action p) = digest"
    using f(2) nb BodySha256_of_action [OF txts(3,4) d(2) txts(5)] by simp
  have "Verify sw p ?a (rq_Now r) = Inr ck"
    by (rule Verify_Sign [OF pair(1) sign time(1,2)])
  with dec dig digest fresh hdr show ?thesis by (simp add: admits_def)
qed

text \<open>What a handler reads of a request is untouched by the middleware.\<close>

lemma authed_same [simp]:
  "rq_Header (authed r pf i) = rq_Header r" "rq_Params (authed r pf i) = rq_Params r"
  "rq_Identity (authed r pf i) = Some i"
  "positiveIntParam (authed r pf i) = positiveIntParam r" "Query (authed r pf i) = Query r"
  "optionalIntParam (authed r pf i) = optionalIntParam r"
  by (auto simp: authed_def WithIdentityKey_def positiveIntParam_def optionalIntParam_def Query_def fun_eq_iff)

lemma body_params_same [simp]:
  "positiveIntParam (r\<lparr>rq_Body := b\<rparr>) = positiveIntParam r" "Query (r\<lparr>rq_Body := b\<rparr>) = Query r"
  "positiveIntParam (r\<lparr>rq_Params := ps\<rparr>) = positiveIntParam r" "Query (r\<lparr>rq_Params := ps\<rparr>) = Query r"
  "optionalIntParam (r\<lparr>rq_Body := b\<rparr>) = optionalIntParam r" "optionalIntParam (r\<lparr>rq_Params := ps\<rparr>) = optionalIntParam r"
  by (auto simp: positiveIntParam_def optionalIntParam_def Query_def fun_eq_iff)

definition append_status :: "store_err + string \<times> int \<Rightarrow> int" where
  "append_status res =
     (case res of
        Inr _ \<Rightarrow> 201
      | Inl (ErrSeqConflict _) \<Rightarrow> 409
      | Inl ErrEmptyBlob \<Rightarrow> 400
      | Inl (ErrReadBody ErrBodyDigestMismatch) \<Rightarrow> 400
      | Inl _ \<Rightarrow> 500)"

lemma Append_reply_status:
  "\<exists>payload. Append_reply w n res = WriteJSON w (append_status res) payload"
  by (auto simp: Append_reply_def append_status_def WriteError_def split: sum.splits store_err.splits rd_err.splits prod.splits)

text \<open>Whose key a request speaks for: that of the proof in its header, when the proof verifies.\<close>

definition speaks_for :: "('k, 'g) wallet_api \<Rightarrow> 'k request \<Rightarrow> string \<Rightarrow> bool" where
  "speaks_for sdk r q \<longleftrightarrow>
     (case Decode (first_value (rq_Header r) Header) of
        Inl _ \<Rightarrow> False
      | Inr pf \<Rightarrow>
          (case Verify sdk pf (p_Action pf) (rq_Now r) of Inl _ \<Rightarrow> False | Inr i \<Rightarrow> ToDERHex sdk i = q))"

lemma admits_speaks_for: "admits sdk nonces s r pf i s1 \<Longrightarrow> speaks_for sdk r (ToDERHex sdk i)"
  by (auto simp: admits_def speaks_for_def Verify_def Let_def split: if_splits)

text \<open>
  A history: requests served one after the other, each with the reading of the stores'
  clock, each answered on a connection of its own.
\<close>

fun serve ::
  "mux \<Rightarrow> ('s, 'k, 'g) Deps \<Rightarrow> string \<Rightarrow> ('s \<Rightarrow> time \<Rightarrow> 's) \<Rightarrow> 's \<Rightarrow> (time \<times> 'k request) list \<Rightarrow> writer list \<times> 's" where
  "serve mux d key at s [] = ([], s)"
| "serve mux d key at s ((now, r) # rest) =
     (case app mux d key (at s now) r (Base new_response) of
        (s', w, _) \<Rightarrow> (case serve mux d key at s' rest of (ws, s'') \<Rightarrow> (w # ws, s'')))"

text \<open>A request as it arrives: nobody has been authenticated, its body is one \<open>net/http\<close> delivers.\<close>

definition arriving :: "'k request \<Rightarrow> bool" where
  "arriving r \<longleftrightarrow> rq_Identity r = None \<and> reader_wf (rq_Body r) \<and> chunkable (rq_Body r) \<and> \<not> reader_over (rq_Body r)"

definition history_ok :: "(time \<times> 'k request) list \<Rightarrow> bool" where
  "history_ok hist \<longleftrightarrow> list_all (\<lambda>(now, r). time_zero < now \<and> arriving r) hist"

section \<open>Answers through the guard\<close>

lemma WriteJSON_Guard: "\<exists>w'. WriteJSON (Guard w l ov False) status payload = Guard w' l ov True"
  by (cases ov) (simp_all add: WriteJSON_def set_header_def)

lemma sent_WriteJSON_Guard:
  assumes "unsent w" "within w"
  shows "sent_status (WriteJSON (Guard w l ov False) status payload) = Some (if ov then 413 else status)"
proof (cases ov)
  case True
  with guard_overrides [OF assms] show ?thesis by (simp add: sent_status_def Let_def)
next
  case False
  with assms base_of_WriteJSON [of "Guard w l False False"] show ?thesis
    by (simp add: sent_status_def Let_def)
qed

lemma sent_maxBody:
  assumes "unsent w" "within w" and g: "g = WriteJSON (Guard w l ov False) status payload"
  shows "sent_status (inner (if guard_owes g then WriteHeader 413 g else g)) = Some (if ov then 413 else status)"
proof -
  obtain w2 where w2: "g = Guard w2 l ov True" using WriteJSON_Guard g by blast
  then have "\<not> guard_owes g" "sent_status (inner g) = sent_status g"
    by (simp_all add: guard_owes_def sent_status_def)
  with sent_WriteJSON_Guard [OF assms(1,2)] g show ?thesis by simp
qed

lemma body_maxBody:
  assumes "unsent w" "within w" and g: "g = WriteJSON (Guard w l False False) status payload"
  shows "bw_Body (base_of (inner (if guard_owes g then WriteHeader 413 g else g))) = [PieceJson payload]"
proof -
  obtain w2 where w2: "g = Guard w2 l False True" using WriteJSON_Guard g by blast
  then have "\<not> guard_owes g" "base_of (inner g) = base_of g" by (simp_all add: guard_owes_def)
  with base_of_WriteJSON [of "Guard w l False False" status payload] assms show ?thesis by (simp add: Let_def)
qed

section \<open>Validated parameters\<close>

lemma is_lower_hex_code: "is_lower_hex c \<Longrightarrow> 0 < code_of c \<and> code_of c < 128"
  by (auto simp: is_lower_hex_def is_digit_def)

lemma deviceID_Some: "deviceID w raw = (Some d, w') \<Longrightarrow> d = raw \<and> w' = w \<and> deviceIDPattern d \<and> name_ok d"
  by (auto simp: deviceID_def deviceIDPattern_def name_ok_def list_all_iff is_lower_hex_code split: if_splits)

lemma device_name: "deviceIDPattern d \<Longrightarrow> name_ok d"
  by (auto simp: deviceIDPattern_def name_ok_def list_all_iff is_lower_hex_code)

lemma positiveIntParam_range: "positiveIntParam r name = Some v \<Longrightarrow> 1 \<le> v \<and> v \<le> 2 ^ 30"
  by (auto simp: positiveIntParam_def split: option.splits if_splits)

lemma parsePathInt_loop_range: "parsePathInt_loop n cs = Some v \<Longrightarrow> n \<le> 2 ^ 30 \<Longrightarrow> 1 \<le> v \<and> v \<le> 2 ^ 30"
  by (induction n cs rule: parsePathInt_loop.induct) (auto simp: Let_def split: if_splits)

lemma parsePathInt_range: "parsePathInt s = Some v \<Longrightarrow> 1 \<le> v \<and> v \<le> 2 ^ 30"
  using parsePathInt_loop_range [of 0 s v] by (auto simp: parsePathInt_def split: if_splits)

lemma int4_param: "1 \<le> v \<Longrightarrow> v \<le> 2 ^ 30 \<Longrightarrow> int4_ok v"
  by (simp add: int4_ok_def)

section \<open>Frames\<close>

text \<open>
  What any handler may do to the store: keep its invariant, and touch no account but the
  one the request was authenticated for.
\<close>

definition account_of :: "('k, 'g) wallet_api \<Rightarrow> 'k request \<Rightarrow> string option" where
  "account_of sdk r = map_option (ToDERHex sdk) (rq_Identity r)"

definition frames ::
  "('k, 'g) wallet_api \<Rightarrow> ('s \<Rightarrow> bool) \<Rightarrow> ('s \<Rightarrow> logs) \<Rightarrow> ('s \<Rightarrow> string \<Rightarrow> time option) \<Rightarrow>
     ('s, 'k) handler \<Rightarrow> bool" where
  "frames sdk ok logs spent h \<longleftrightarrow>
     (\<forall>s r w s' w'. ok s \<longrightarrow> reader_wf (rq_Body r) \<longrightarrow> chunkable (rq_Body r) \<longrightarrow> h s r w = (s', w') \<longrightarrow>
        ok s' \<and> spent s' = spent s \<and> (\<forall>q. account_of sdk r \<noteq> Some q \<longrightarrow> logs s' q = logs s q))"

lemma framesI:
  assumes "\<And>s r w s' w'. ok s \<Longrightarrow> reader_wf (rq_Body r) \<Longrightarrow> chunkable (rq_Body r) \<Longrightarrow> h s r w = (s', w') \<Longrightarrow>
     s' = s \<or> (\<exists>k. rq_Identity r = Some k \<and> frame (ToDERHex sdk k) s s')"
    and "\<And>p s s'. frame p s s' \<Longrightarrow> ok s \<Longrightarrow> ok s' \<and> spent s' = spent s \<and> (\<forall>q. q \<noteq> p \<longrightarrow> logs s' q = logs s q)"
  shows "frames sdk ok logs spent h"
  unfolding frames_def
proof (intro allI impI)
  fix s r w s' w'
  assume s: "ok s" "reader_wf (rq_Body r)" "chunkable (rq_Body r)" "h s r w = (s', w')"
  from assms(1) [OF this] show "ok s' \<and> spent s' = spent s \<and> (\<forall>q. account_of sdk r \<noteq> Some q \<longrightarrow> logs s' q = logs s q)"
    using assms(2) s(1) by (fastforce simp: account_of_def)
qed

lemma framesD:
  assumes "frames sdk ok logs spent h" and "ok s" "reader_wf (rq_Body r)" "chunkable (rq_Body r)" "h s r w = (s', w')"
  shows "ok s'" and "spent s' = spent s" and "account_of sdk r \<noteq> Some q \<Longrightarrow> logs s' q = logs s q"
  using assms unfolding frames_def by blast+

text \<open>What the service relies on of the SDK's key encoding: text without zero bytes, never empty.\<close>

definition sdk_ok :: "('k, 'g) wallet_api \<Rightarrow> bool" where
  "sdk_ok sdk \<longleftrightarrow> (\<forall>k. name_ok (ToDERHex sdk k) \<and> ToDERHex sdk k \<noteq> '''')"

lemma ToDERHex_hex: "sdk_ok sdk \<Longrightarrow> name_ok (ToDERHex sdk k)"
  and ToDERHex_nonempty: "sdk_ok sdk \<Longrightarrow> ToDERHex sdk k \<noteq> ''''"
  by (simp_all add: sdk_ok_def)

lemma request_key_ok:
  assumes "sdk_ok sdk" "name_ok d" "1 \<le> g \<and> g \<le> 2 ^ 30" "1 \<le> n \<and> n \<le> 2 ^ 30"
  shows "key_ok \<lparr>key_Pseudonym = ToDERHex sdk k, key_DeviceID = d, key_Generation = g, key_Seq = n\<rparr>"
  using assms ToDERHex_hex by (simp add: key_ok_def int4_ok_def)

locale service = timed_blob_store ops logs ok clock at + nonces: nonce_store nops spent nclock at
  for ops :: "'s BlobStore" and logs ok clock at
    and nops :: "'s NonceStore" and spent nclock +
  assumes consume_logs: "ns_Consume nops s n e = (res, s') \<Longrightarrow> logs s' = logs s"
    and consume_ok: "ns_Consume nops s n e = (res, s') \<Longrightarrow> ok s \<Longrightarrow> ok s'"
    and op_spent: "apply_op ops s op = (rep, s') \<Longrightarrow> op_body_wf op \<Longrightarrow> spent s' = spent s"
    and ping_spent: "bs_Ping ops s = (err, s') \<Longrightarrow> spent s' = spent s"
begin

lemma pseudonym_cases:
  obtains (absent) "rq_Identity r = None" "fst (pseudonym sdk w r) = ''''"
    | (present) k where "rq_Identity r = Some k" "pseudonym sdk w r = (ToDERHex sdk k, w)"
  by (cases "rq_Identity r") (auto simp: pseudonym_def GetIdentityKey_def)

text \<open>
  A frame of one account: the invariant and the nonces are kept, and the logs of every other
  account. Every operation of the store is one for the account it names.
\<close>

definition frame :: "string \<Rightarrow> 's \<Rightarrow> 's \<Rightarrow> bool" where
  "frame p s s' \<longleftrightarrow> ok s' \<and> spent s' = spent s \<and> (\<forall>q. q \<noteq> p \<longrightarrow> logs s' q = logs s q)"

lemma store_spent:
  "bs_Append ops s k prev body = (r1, s1, body') \<Longrightarrow> reader_wf body \<Longrightarrow> spent s1 = spent s"
  "bs_Get ops s k = (r2, s2) \<Longrightarrow> spent s2 = spent s"
  "bs_Index ops s p d g f l = (r3, s3) \<Longrightarrow> spent s3 = spent s"
  "bs_Manifest ops s p = (r4, s4) \<Longrightarrow> spent s4 = spent s"
  "bs_DeleteGeneration ops s p d g = (r5, s5) \<Longrightarrow> spent s5 = spent s"
  "bs_DeleteAccount ops s p = (r6, s6) \<Longrightarrow> spent s6 = spent s"
  using op_spent [of s "OpAppend k prev body"] op_spent [of s "OpGet k"] op_spent [of s "OpIndex p d g f l"]
    op_spent [of s "OpManifest p"] op_spent [of s "OpDeleteGeneration p d g"] op_spent [of s "OpDeleteAccount p"]
  by (cases r2; force simp: op_body_wf_def)+

lemma DeleteGeneration_frame:
  assumes "bs_DeleteGeneration ops s p d g = (res, s')" "ok s" "name_ok p" "name_ok d" "1 \<le> g \<and> g \<le> 2 ^ 30"
  shows "frame p s s'"
  using DeleteGeneration_guard [of s p d g] DeleteGeneration_done [of s p d g] assms int4_param [of g]
    store_spent(5) [OF assms(1)]
  by (cases "guarded (logs s) p d g") (auto simp: guarded_def set_log_def frame_def)

lemma DeleteAccount_frame:
  assumes "bs_DeleteAccount ops s p = (res, s')" "ok s" "name_ok p"
  shows "frame p s s'"
  using DeleteAccount_done [of s p] assms store_spent(6) [OF assms(1)] by (auto simp: erase_account_def frame_def)

lemma Append_frame:
  assumes "bs_Append ops s k prev body = (res, s', body')" "ok s" "key_ok k" "reader_wf body" "chunkable body"
  shows "frame (key_Pseudonym k) s s'"
  using Append_any [OF assms(2-5,1)] store_spent(1) [OF assms(1,4)]
  by (auto simp: logs_append_def set_log_def frame_def)

lemma Get_frame:
  assumes "bs_Get ops s k = (res, s')" "ok s" "key_ok k"
  shows "frame (key_Pseudonym k) s s'"
  using Get_found [of s k] Get_missing [of s k] assms store_spent(2) [OF assms(1)]
  by (cases "key_Seq k \<le> int (length (log_of (logs s) k))") (auto simp: frame_def)

lemma Manifest_frame:
  assumes "bs_Manifest ops s p = (res, s')" "ok s" "name_ok p"
  shows "frame p s s'"
  using Manifest_all [of s p] assms store_spent(4) [OF assms(1)] by (auto simp: frame_def)

lemma Index_frame:
  assumes "bs_Index ops s p d g f l = (res, s')" "ok s"
  shows "frame p s s'"
  using Index_any [of s p d g f l res s'] assms store_spent(3) [OF assms(1)] by (auto simp: frame_def)

lemmas store_frames =
  Append_frame [OF _ _ request_key_ok, simplified] Get_frame [OF _ _ request_key_ok, simplified]
  Index_frame Manifest_frame [OF _ _ ToDERHex_hex]
  DeleteGeneration_frame [OF _ _ ToDERHex_hex] DeleteAccount_frame [OF _ _ ToDERHex_hex]

lemmas handler_splits =
  prod.splits if_splits sum.splits option.splits store_err.splits

lemmas valid_params = deviceID_Some positiveIntParam_range parsePathInt_range

lemma handlers_frame:
  assumes s: "sdk_ok sdk" "ok s" "reader_wf (rq_Body r)" "chunkable (rq_Body r)" and k: "rq_Identity r = Some k"
  shows "Append sdk ops s r w = (s1, w1) \<Longrightarrow> s1 = s \<or> frame (ToDERHex sdk k) s s1"
    and "Manifest sdk ops s r w = (s2, w2) \<Longrightarrow> s2 = s \<or> frame (ToDERHex sdk k) s s2"
    and "Index sdk ops s r w = (s3, w3) \<Longrightarrow> s3 = s \<or> frame (ToDERHex sdk k) s s3"
    and "Blob sdk ops s r w = (s4, w4) \<Longrightarrow> s4 = s \<or> frame (ToDERHex sdk k) s s4"
    and "PruneGeneration sdk ops s r w = (s5, w5) \<Longrightarrow> s5 = s \<or> frame (ToDERHex sdk k) s s5"
    and "DeleteAccount sdk ops s r w = (s6, w6) \<Longrightarrow> s6 = s \<or> frame (ToDERHex sdk k) s s6"
proof -
  have p: "pseudonym sdk w r = (ToDERHex sdk k, w)"
    using k by (simp add: pseudonym_def GetIdentityKey_def)
  show "Append sdk ops s r w = (s1, w1) \<Longrightarrow> s1 = s \<or> frame (ToDERHex sdk k) s s1"
    using s p by (auto simp: Append_def Let_def split: handler_splits dest!: valid_params dest: store_frames)
  show "Manifest sdk ops s r w = (s2, w2) \<Longrightarrow> s2 = s \<or> frame (ToDERHex sdk k) s s2"
    using s p by (auto simp: Manifest_def split: handler_splits dest: store_frames)
  show "Index sdk ops s r w = (s3, w3) \<Longrightarrow> s3 = s \<or> frame (ToDERHex sdk k) s s3"
    using s p by (auto simp: Index_def split: handler_splits dest: store_frames)
  show "Blob sdk ops s r w = (s4, w4) \<Longrightarrow> s4 = s \<or> frame (ToDERHex sdk k) s s4"
    using s p by (auto simp: Blob_def Let_def split: handler_splits dest!: valid_params dest: store_frames)
  show "PruneGeneration sdk ops s r w = (s5, w5) \<Longrightarrow> s5 = s \<or> frame (ToDERHex sdk k) s s5"
    using s p by (auto simp: PruneGeneration_def split: handler_splits dest!: valid_params dest: store_frames)
  show "DeleteAccount sdk ops s r w = (s6, w6) \<Longrightarrow> s6 = s \<or> frame (ToDERHex sdk k) s s6"
    using s p by (auto simp: DeleteAccount_def split: handler_splits dest: store_frames)
qed

text \<open>A request with no identity in its context never reaches the store.\<close>

lemma handlers_anonymous:
  assumes "rq_Identity r = None"
  shows "Append sdk ops s r w = (s1, w1) \<Longrightarrow> s1 = s" "Manifest sdk ops s r w = (s2, w2) \<Longrightarrow> s2 = s"
    "Index sdk ops s r w = (s3, w3) \<Longrightarrow> s3 = s" "Blob sdk ops s r w = (s4, w4) \<Longrightarrow> s4 = s"
    "PruneGeneration sdk ops s r w = (s5, w5) \<Longrightarrow> s5 = s" "DeleteAccount sdk ops s r w = (s6, w6) \<Longrightarrow> s6 = s"
  using assms
  by (simp_all add: Append_def Manifest_def Index_def Blob_def PruneGeneration_def DeleteAccount_def
      pseudonym_def GetIdentityKey_def)

lemma handlers_frames:
  "sdk_ok sdk \<Longrightarrow> h \<in> {Append sdk ops, Manifest sdk ops, Index sdk ops, Blob sdk ops, PruneGeneration sdk ops, DeleteAccount sdk ops}
     \<Longrightarrow> frames sdk ok logs spent h"
proof (rule framesI [where frame = frame])
  fix s r w s' w'
  assume sdk: "sdk_ok sdk" and h: "h \<in> {Append sdk ops, Manifest sdk ops, Index sdk ops, Blob sdk ops,
      PruneGeneration sdk ops, DeleteAccount sdk ops}"
    and s: "ok s" "reader_wf (rq_Body r)" "chunkable (rq_Body r)" and run: "h s r w = (s', w')"
  show "s' = s \<or> (\<exists>k. rq_Identity r = Some k \<and> frame (ToDERHex sdk k) s s')"
  proof (cases "rq_Identity r")
    case None
    then show ?thesis using h run by (auto dest: handlers_anonymous [OF None])
  next
    case (Some k)
    then show ?thesis using h run by (auto dest: handlers_frame [OF sdk s Some])
  qed
qed (simp add: frame_def)

text \<open>
  Behind the auth middleware, whatever changes of an account's logs was asked for by a
  request admitted for that account, and its nonce is then on record.
\<close>

definition spender :: "('k, 'g) wallet_api \<Rightarrow> 's \<Rightarrow> 's \<Rightarrow> 'k request \<Rightarrow> string \<Rightarrow> bool" where
  "spender sdk s s' r q \<longleftrightarrow>
     (\<exists>pf i s1. admits sdk nops s r pf i s1 \<and> ToDERHex sdk i = q \<and>
        spent s' (p_Nonce pf) = Some (p_ExpiresAt pf * 1000000))"

lemma spender_same [simp]:
  "spender sdk s s' (r\<lparr>rq_Body := b\<rparr>) = spender sdk s s' r" "spender sdk s s' (r\<lparr>rq_Params := ps\<rparr>) = spender sdk s s' r"
  by (intro ext; simp add: spender_def)+

definition changes_authorised :: "('k, 'g) wallet_api \<Rightarrow> ('s, 'k) handler \<Rightarrow> bool" where
  "changes_authorised sdk h \<longleftrightarrow>
     (\<forall>s r w s' w'. ok s \<longrightarrow> reader_wf (rq_Body r) \<longrightarrow> chunkable (rq_Body r) \<longrightarrow> rq_Identity r = None \<longrightarrow>
        h s r w = (s', w') \<longrightarrow>
        ok s' \<and> (\<forall>q. logs s' q \<noteq> logs s q \<longrightarrow>
          spender sdk s s' r q))"

lemma AuthProof_authorised:
  assumes "frames sdk ok logs spent nxt"
  shows "changes_authorised sdk (AuthProof sdk nops nxt)"
  unfolding changes_authorised_def
proof (intro allI impI)
  fix s r w s' w'
  assume s: "ok s" "reader_wf (rq_Body r)" "chunkable (rq_Body r)" and run: "AuthProof sdk nops nxt s r w = (s', w')"
  from run show "ok s' \<and> (\<forall>q. logs s' q \<noteq> logs s q \<longrightarrow>
      spender sdk s s' r q)"
  proof (cases rule: AuthProof_cases)
    case (refused status code t)
    have "logs s' = logs s \<and> ok s'"
      using refused(3) s(1) consume_logs consume_ok by metis
    then show ?thesis by simp
  next
    case (admitted pf i s1)
    have s1: "ok s1" "logs s1 = logs s"
      using admitted(1) consume_logs consume_ok s(1) by (auto simp: admits_def)
    have body: "reader_wf (rq_Body (authed r pf i))" "chunkable (rq_Body (authed r pf i))"
      using s by (auto simp: authed_def WithIdentityKey_def chunkable_def case_prod_unfold)
    have acc: "account_of sdk (authed r pf i) = Some (ToDERHex sdk i)"
      by (simp add: authed_def WithIdentityKey_def account_of_def)
    have "spent s1 (p_Nonce pf) = Some (p_ExpiresAt pf * 1000000)"
      using admitted(1) nonces.consume_recorded by (auto simp: admits_def)
    with framesD [OF assms s1(1) body admitted(2)] s1(2) admitted(1) acc show ?thesis
      unfolding spender_def by (metis option.inject)
  qed
qed

text \<open>What a request can come to: nothing, or one handler of the routing table on the wrapped body.\<close>

lemma routes_handlers:
  assumes "Wallet d = sdk" "Store d = ops" "Nonces d = nops" and "map_of (routes d key) m = Some h"
  shows "h \<in> {Health ops, Limits (MaxBlobBytes d) key} \<union>
      AuthProof sdk nops ` {Append sdk ops, Manifest sdk ops, Index sdk ops, Blob sdk ops,
        PruneGeneration sdk ops, DeleteAccount sdk ops}"
  using assms by (auto simp: routes_def Let_def split: if_splits)

lemma app_dispatch:
  assumes run: "app mux d key s r w = (s', w', route)"
  obtains (unrouted) "s' = s"
    | (routed) m h ps g g' where "map_of (routes d key) m = Some h"
        "h s (r\<lparr>rq_Body := CountingBody (rq_Body r) (MaxBlobBytes d) 0 False, rq_Params := ps\<rparr>) g = (s', g')"
proof (cases "s' = s")
  case False
  with run obtain g g' where "dispatch mux (routes d key) s
      (r\<lparr>rq_Body := CountingBody (rq_Body r) (MaxBlobBytes d) 0 False\<rparr>) g = (s', g', route)"
    by (auto simp: app_def corsMiddleware_def maxBody_def Let_def split: if_splits prod.splits)
  with False routed show thesis
    by (auto simp: dispatch_def Let_def split: mux_result.splits option.splits prod.splits)
qed (rule unrouted)

lemma body_wf:
  assumes "reader_wf (rq_Body r)" "chunkable (rq_Body r)"
  defines "rb \<equiv> \<lambda>l ps. r\<lparr>rq_Body := CountingBody (rq_Body r) l 0 False, rq_Params := ps\<rparr>"
  shows "reader_wf (rq_Body (rb l ps))" "chunkable (rq_Body (rb l ps))"
  using assms by (auto simp: rb_def chunkable_def case_prod_unfold)

lemma routes_authorised:
  assumes sdk: "sdk_ok sdk" and d: "Wallet d = sdk" "Store d = ops" "Nonces d = nops" "map_of (routes d key) m = Some h"
  shows "changes_authorised sdk h"
proof -
  have auth: "changes_authorised sdk (AuthProof sdk nops nxt)" if "frames sdk ok logs spent nxt" for nxt
    using that by (rule AuthProof_authorised)
  have ping: "ok s' \<and> logs s' = logs s" if "ok s" "Health ops s r w = (s', w')" for s s' w w' and r :: "'e request"
    using Ping_alive [OF that(1)] that(2) by (auto simp: Health_def)
  have health: "changes_authorised sdk (Health ops)"
    by (auto simp: changes_authorised_def dest: ping)
  have limits: "changes_authorised sdk (Limits n k)" for n k
    by (simp add: changes_authorised_def Limits_def)
  from routes_handlers [OF d]
  show ?thesis using auth health limits handlers_frames [OF sdk] by blast
qed

lemma app_authorised:
  assumes sdk: "sdk_ok sdk" and d: "Wallet d = sdk" "Store d = ops" "Nonces d = nops"
    and s: "ok s" "reader_wf (rq_Body r)" "chunkable (rq_Body r)" "rq_Identity r = None"
    and run: "app mux d key s r w = (s', w', route)"
  shows "ok s' \<and> (\<forall>q. logs s' q \<noteq> logs s q \<longrightarrow> spender sdk s s' r q)"
  using run
proof (cases rule: app_dispatch)
  case (routed m h ps g g')
  let ?rb = "r\<lparr>rq_Body := CountingBody (rq_Body r) (MaxBlobBytes d) 0 False, rq_Params := ps\<rparr>"
  have "rq_Identity ?rb = None" using s(4) by simp
  then have "ok s' \<and> (\<forall>q. logs s' q \<noteq> logs s q \<longrightarrow> spender sdk s s' ?rb q)"
    using routes_authorised [OF sdk d routed(1)] routed(2) s(1) body_wf [OF s(2,3)]
    unfolding changes_authorised_def by blast
  then show ?thesis by simp
qed (use s in simp)

text \<open>
  Single use, through the whole service: while a nonce is on record, requests keep it there,
  and none that presents it is admitted, so none of them changes a log.
\<close>

lemma admits_fresh:
  assumes "admits sdk nops s r pf i s1"
  shows "\<not> (\<exists>x. spent s (p_Nonce pf) = Some x \<and> nclock s \<le> x)"
  using assms nonces.consume_refused unfolding admits_def by metis

lemma replay_unchanged:
  assumes sdk: "sdk_ok sdk" and d: "Wallet d = sdk" "Store d = ops" "Nonces d = nops"
    and s: "ok s" "reader_wf (rq_Body r)" "chunkable (rq_Body r)" "rq_Identity r = None"
    and run: "app mux d key s r w = (s', w', route)"
    and pf: "Decode (first_value (rq_Header r) Header) = Inr pf"
    and standing: "spent s (p_Nonce pf) = Some x" "nclock s \<le> x"
  shows "logs s' = logs s"
proof (rule ext, rule ccontr)
  fix q
  assume "logs s' q \<noteq> logs s q"
  then have "spender sdk s s' r q" using app_authorised [OF sdk d s run] by blast
  then obtain i s1 where "admits sdk nops s r pf i s1"
    using pf unfolding spender_def admits_def by fastforce
  from admits_fresh [OF this] standing show False by blast
qed

definition keeps_spent :: "('s, 'k) handler \<Rightarrow> bool" where
  "keeps_spent h \<longleftrightarrow>
     (\<forall>s r w s' w' m x. ok s \<longrightarrow> reader_wf (rq_Body r) \<longrightarrow> chunkable (rq_Body r) \<longrightarrow>
        h s r w = (s', w') \<longrightarrow> spent s m = Some x \<longrightarrow> nclock s \<le> x \<longrightarrow> spent s' m = Some x)"

lemma AuthProof_keeps_spent:
  assumes "frames sdk ok logs spent nxt"
  shows "keeps_spent (AuthProof sdk nops nxt)"
  unfolding keeps_spent_def
proof (intro allI impI)
  fix s r w s' w' m x
  assume s: "ok s" "reader_wf (rq_Body r)" "chunkable (rq_Body r)" and run: "AuthProof sdk nops nxt s r w = (s', w')"
    and x: "spent s m = Some x" "nclock s \<le> x"
  from run show "spent s' m = Some x"
  proof (cases rule: AuthProof_cases)
    case (refused status code t)
    then show ?thesis using nonces.consume_standing x by metis
  next
    case (admitted pf i s1)
    have s1: "ok s1" "spent s1 m = Some x"
      using admitted(1) consume_ok nonces.consume_standing x s(1) by (auto simp: admits_def)
    have body: "reader_wf (rq_Body (authed r pf i))" "chunkable (rq_Body (authed r pf i))"
      using s by (auto simp: authed_def WithIdentityKey_def chunkable_def case_prod_unfold)
    show ?thesis using framesD(2) [OF assms s1(1) body admitted(2)] s1(2) by simp
  qed
qed

lemma routes_keep_spent:
  assumes sdk: "sdk_ok sdk" and d: "Wallet d = sdk" "Store d = ops" "Nonces d = nops" "map_of (routes d key) m = Some h"
  shows "keeps_spent h"
proof -
  have "keeps_spent (Health ops)" "keeps_spent (Limits n k)" for n k
    using ping_spent by (auto simp: keeps_spent_def Health_def Limits_def split: prod.splits option.splits)
  with routes_handlers [OF d] AuthProof_keeps_spent handlers_frames [OF sdk] show ?thesis by blast
qed

lemma app_keeps_spent:
  assumes sdk: "sdk_ok sdk" and d: "Wallet d = sdk" "Store d = ops" "Nonces d = nops"
    and s: "ok s" "reader_wf (rq_Body r)" "chunkable (rq_Body r)"
    and run: "app mux d key s r w = (s', w', route)" and x: "spent s m = Some x" "nclock s \<le> x"
  shows "spent s' m = Some x"
  using run
proof (cases rule: app_dispatch)
  case (routed n h ps g g')
  then show ?thesis
    using routes_keep_spent [OF sdk d routed(1)] s(1) body_wf [OF s(2,3)] x unfolding keeps_spent_def by blast
qed (use x in simp)

text \<open>Histories.\<close>

lemma serve_account:
  assumes "sdk_ok sdk" and d: "Wallet d = sdk" "Store d = ops" "Nonces d = nops"
    and "ok s" and "history_ok hist" and "\<forall>(now, r) \<in> set hist. \<not> speaks_for sdk r q"
  shows "ok (snd (serve mux d key at s hist)) \<and> logs (snd (serve mux d key at s hist)) q = logs s q"
  using assms(5-7)
proof (induction hist arbitrary: s)
  case (Cons h hist)
  obtain now r where h: "h = (now, r)" by (cases h)
  obtain s1 w route where run: "app mux d key (at s now) r (Base new_response) = (s1, w, route)" by (metis prod_cases3)
  have r: "time_zero < now" "arriving r" "\<not> speaks_for sdk r q" using Cons.prems h by (auto simp: history_ok_def)
  note step = app_authorised [OF assms(1) d at_ok [OF Cons.prems(1) r(1)] _ _ _ run]
  have "ok s1" "logs s1 q = logs s q"
    using step r(2,3) admits_speaks_for at_logs unfolding arriving_def spender_def by metis+
  with Cons.IH [of s1] Cons.prems(2,3) h run show ?case by (auto simp: history_ok_def split: prod.splits)
qed simp

lemma serve_spent:
  assumes "sdk_ok sdk" and d: "Wallet d = sdk" "Store d = ops" "Nonces d = nops"
    and "ok s" and "history_ok hist" and "\<forall>(now, r) \<in> set hist. now \<le> x" and "spent s n = Some x"
  shows "ok (snd (serve mux d key at s hist)) \<and> spent (snd (serve mux d key at s hist)) n = Some x"
  using assms(5-8)
proof (induction hist arbitrary: s)
  case (Cons h hist)
  obtain now r where h: "h = (now, r)" by (cases h)
  obtain s1 w route where run: "app mux d key (at s now) r (Base new_response) = (s1, w, route)" by (metis prod_cases3)
  have r: "time_zero < now" "arriving r" "now \<le> x" using Cons.prems h by (auto simp: history_ok_def)
  have ats: "ok (at s now)" "spent (at s now) n = Some x" "nclock (at s now) \<le> x"
    using at_ok [OF Cons.prems(1) r(1)] Cons.prems(4) r(3) by (simp_all add: nonces.at_spent nonces.at_clock)
  have "ok s1" "spent s1 n = Some x"
    using app_authorised [OF assms(1) d ats(1) _ _ _ run] app_keeps_spent [OF assms(1) d ats(1) _ _ run ats(2,3)] r(2)
    unfolding arriving_def by simp_all
  with Cons.IH [of s1] Cons.prems(2,3) h run show ?case by (auto simp: history_ok_def split: prod.splits)
qed simp

text \<open>
  A proof that once changed something never changes anything again: not after any history
  whose clock readings have not passed its expiry.
\<close>

lemma serve_replay:
  assumes sdk: "sdk_ok sdk" and d: "Wallet d = sdk" "Store d = ops" "Nonces d = nops"
    and s: "ok s" "arriving r" and first: "app mux d key s r w = (s1, w1, route1)" "logs s1 \<noteq> logs s"
    and pf: "Decode (first_value (rq_Header r) Header) = Inr pf"
    and hist: "history_ok hist" "\<forall>(now, r) \<in> set hist. now \<le> p_ExpiresAt pf * 1000000"
    and again: "arriving r'" "Decode (first_value (rq_Header r') Header) = Inr pf'" "p_Nonce pf' = p_Nonce pf"
      "time_zero < now" "now \<le> p_ExpiresAt pf * 1000000"
    and s2: "s2 = snd (serve mux d key at s1 hist)"
    and second: "app mux d key (at s2 now) r' w' = (s3, w3, route3)"
  shows "logs s3 = logs s2"
proof -
  from first(2) obtain q where "logs s1 q \<noteq> logs s q" by (auto simp: fun_eq_iff)
  with app_authorised [OF sdk d s(1) _ _ _ first(1)] s(2) have "ok s1" "spender sdk s s1 r q"
    unfolding arriving_def by simp_all
  with pf have "spent s1 (p_Nonce pf) = Some (p_ExpiresAt pf * 1000000)"
    by (auto simp: spender_def admits_def)
  from serve_spent [OF sdk d \<open>ok s1\<close> hist this] s2
  have ok2: "ok s2" "spent s2 (p_Nonce pf) = Some (p_ExpiresAt pf * 1000000)" by auto
  have "logs s3 = logs (at s2 now)"
    using again ok2 at_ok [OF ok2(1) again(4)]
    by (intro replay_unchanged [OF sdk d _ _ _ _ second again(2)])
      (auto simp: nonces.at_spent nonces.at_clock arriving_def)
  then show ?thesis by (simp add: at_logs)
qed

end

end
