(* ===== verification/Answers.thy ===== *)
theory Answers
  imports Service
begin

text \<open>
  What every response has in common, whatever the stores, the router and the handlers do:
  each request is answered exactly once, with the CORS headers, and what telemetry reports is
  the status that went out. The handlers enter only through what they do to the response
  writer (\<open>writes\<close>).
\<close>

section \<open>Coherent writers\<close>

text \<open>
  The wrappers agree with the connection: a recorder has the status that was sent, a guard
  knows whether one was.
\<close>

primrec coherent :: "writer \<Rightarrow> bool" where
  "coherent (Base b) \<longleftrightarrow> True"
| "coherent (Recorder w status written) \<longleftrightarrow>
     (\<exists>b. w = Base b) \<and> sent_status w = (if status = 0 then None else Some status)"
| "coherent (Guard w limit over wrote) \<longleftrightarrow> coherent w \<and> (wrote \<longleftrightarrow> sent_status w \<noteq> None)"

definition has_cors :: "(string \<times> string) list \<Rightarrow> bool" where
  "has_cors hs \<longleftrightarrow>
     map_of hs ''Access-Control-Allow-Origin'' = Some ''*'' \<and>
     map_of hs ''Access-Control-Allow-Headers'' = Some ''*'' \<and>
     map_of hs ''Access-Control-Allow-Methods'' = Some ''GET, POST, DELETE, OPTIONS''"

definition cors_ok :: "writer \<Rightarrow> bool" where
  "cors_ok w \<longleftrightarrow> has_cors (bw_Header (base_of w)) \<and>
     (\<forall>code hs. bw_Sent (base_of w) = Some (code, hs) \<longrightarrow> has_cors hs)"

lemma sent_map_header [simp]: "sent_status (map_header f w) = sent_status w"
  by (simp add: sent_status_def base_of_map_header)

lemma map_header_Base [simp]: "map_header f w = Base b \<longleftrightarrow> (\<exists>b0. w = Base b0 \<and> b = b0\<lparr>bw_Header := f (bw_Header b0)\<rparr>)"
  by (cases w) auto

lemma coherent_map_header [simp]: "coherent (map_header f w) = coherent w"
  by (induction w) auto

lemma sent_wrapped [simp]:
  "sent_status (Recorder w status written) = sent_status w" "sent_status (Guard w limit over wrote) = sent_status w"
  by (simp_all add: sent_status_def)

lemma cors_wrapped [simp]:
  "cors_ok (Recorder w status written) = cors_ok w" "cors_ok (Guard w limit over wrote) = cors_ok w"
  by (simp_all add: cors_ok_def)

lemma map_of_filter_prefix: "prefix p k \<Longrightarrow> map_of (filter (\<lambda>h. prefix p (fst h)) xs) k = map_of xs k"
  by (induction xs) auto

lemma cors_filter: "cors_ok w \<Longrightarrow> cors_ok (map_header (filter keeps_cors) w)"
  unfolding cors_ok_def has_cors_def base_of_map_header keeps_cors_def [abs_def] by (simp add: map_of_filter_prefix)

lemma has_cors_update:
  assumes "has_cors hs" and "\<not> prefix ''Access-Control-'' n"
  shows "has_cors (AList.update n v hs)"
proof -
  have "k \<noteq> n" if "prefix ''Access-Control-'' k" for k using that assms(2) by blast
  then have "''Access-Control-Allow-Origin'' \<noteq> n" "''Access-Control-Allow-Headers'' \<noteq> n"
    "''Access-Control-Allow-Methods'' \<noteq> n" by simp_all
  with assms(1) show ?thesis unfolding has_cors_def update_conv' by (metis fun_upd_other)
qed

lemma cors_set:
  assumes "cors_ok w" and "\<not> prefix ''Access-Control-'' n"
  shows "cors_ok (set_header n v w)"
  using assms has_cors_update [OF _ assms(2)] by (simp add: cors_ok_def set_header_def base_of_map_header)

text \<open>The wrappers around the connection, outermost first.\<close>

primrec layers :: "writer \<Rightarrow> string list" where
  "layers (Base b) = []"
| "layers (Recorder w status written) = ''statusRecorder'' # layers w"
| "layers (Guard w limit over wrote) = ''sizeGuard'' # layers w"

lemma layers_map_header [simp]: "layers (map_header f w) = layers w" "layers (set_header n v w) = layers w"
  by (induction w) (simp_all add: set_header_def)

definition answered :: "writer \<Rightarrow> writer \<Rightarrow> bool" where
  "answered w w' \<longleftrightarrow> coherent w' \<and> layers w' = layers w \<and> (cors_ok w \<longrightarrow> cors_ok w') \<and> sent_status w' \<noteq> None \<and>
     (sent_status w \<noteq> None \<longrightarrow> sent_status w' = sent_status w)"

lemma answered_base:
  "code \<noteq> 0 \<Longrightarrow> answered (Base b) (Base (base_WriteHeader code b))" "answered (Base b) (Base (base_Write x b))"
  "sent_status (Base (base_WriteHeader code b)) = (case sent_status (Base b) of None \<Rightarrow> Some code | s \<Rightarrow> s)"
  "sent_status (Base (base_Write x b)) = (case sent_status (Base b) of None \<Rightarrow> Some 200 | s \<Rightarrow> s)"
  by (auto simp: answered_def base_Write_def base_WriteHeader_def sent_status_def cors_ok_def Let_def split: option.splits)

lemma answered_trans: "answered a b \<Longrightarrow> answered b c \<Longrightarrow> answered a c"
  by (auto simp: answered_def)

text \<open>What a guard does to the writer it wraps before its own answer.\<close>

lemma guard_header:
  assumes "coherent w"
  defines "v \<equiv> set_header ''Content-Type'' ''application/json'' (map_header (filter keeps_cors) w)"
  shows "coherent v" "sent_status v = sent_status w" "cors_ok w \<Longrightarrow> cors_ok v"
  using assms(1) cors_set [OF cors_filter, of w "''Content-Type''" "''application/json''"]
  by (simp_all add: v_def) (simp_all add: set_header_def)

lemma writes_answered:
  "coherent w \<Longrightarrow> code \<noteq> 0 \<Longrightarrow> answered w (WriteHeader code w)" "coherent w \<Longrightarrow> answered w (Write x w)"
proof (induction code w and x w rule: WriteHeader_Write.induct)
  case (3 code w limit over wrote)
  have w: "coherent w" using 3(4) by simp
  note v = guard_header [OF w]
  show ?case
  proof (cases "wrote \<or> \<not> over")
    case True
    then show ?thesis using 3(3-5) w by (auto simp: answered_def)
  next
    case False
    with 3(1) v(1) have one: "answered (set_header ''Content-Type'' ''application/json'' (map_header (filter keeps_cors) w))
        (WriteHeader 413 (set_header ''Content-Type'' ''application/json'' (map_header (filter keeps_cors) w)))"
      by simp
    with 3(2) False have "answered (set_header ''Content-Type'' ''application/json'' (map_header (filter keeps_cors) w))
        (Write (error_body ''ERR_BLOB_TOO_LARGE'' (too_large_text limit))
          (WriteHeader 413 (set_header ''Content-Type'' ''application/json'' (map_header (filter keeps_cors) w))))"
      by (intro answered_trans [OF one]) (simp add: answered_def)
    with False v 3(4) show ?thesis by (auto simp: answered_def)
  qed
next
  case (6 x w limit over wrote)
  show ?case
  proof (cases over)
    case True
    then show ?thesis using 6(1,5) by (cases wrote) (auto simp: answered_def)
  next
    case False
    show ?thesis
    proof (cases wrote)
      case True
      with False 6(2,5) show ?thesis by (auto simp: answered_def)
    next
      case fresh: False
      have one: "answered w (WriteHeader 200 w)" using False fresh 6(3,5) by simp
      then have "answered w (Write x (WriteHeader 200 w))"
        using False fresh 6(4) by (intro answered_trans [OF one]) (simp add: answered_def)
      with False fresh 6(5) show ?thesis by (auto simp: answered_def)
    qed
  qed
next
  case (2 code w status written)
  then show ?case using answered_base(1,3) [of code] by (auto simp: answered_def)
next
  case (5 x w status written)
  then show ?case using answered_base(2) [of _ x] answered_base(4) [of x] by (auto simp: answered_def)
qed (simp_all add: answered_base)

section \<open>What handlers do to a writer\<close>

inductive writes :: "writer \<Rightarrow> writer \<Rightarrow> bool" for w where
  start: "writes w w"
| header: "writes w w' \<Longrightarrow> \<not> prefix ''Access-Control-'' n \<Longrightarrow> writes w (set_header n v w')"
| status: "writes w w' \<Longrightarrow> code \<noteq> 0 \<Longrightarrow> writes w (WriteHeader code w')"
| body: "writes w w' \<Longrightarrow> writes w (Write x w')"
| over: "writes w w' \<Longrightarrow> writes w (sync_over b w')"

lemma coherent_sync_over [simp]: "coherent w \<Longrightarrow> coherent (sync_over b w)"
  by (induction w) (auto simp: sent_status_def)

lemma sent_sync_over [simp]: "sent_status (sync_over b w) = sent_status w" "layers (sync_over b w) = layers w" "cors_ok (sync_over b w) = cors_ok w"
  by (induction w) simp_all

lemma writes_keep:
  assumes "writes w w'" and "coherent w"
  shows "coherent w' \<and> layers w' = layers w \<and> (cors_ok w \<longrightarrow> cors_ok w') \<and> (sent_status w \<noteq> None \<longrightarrow> sent_status w' = sent_status w)"
  using assms
proof (induction rule: writes.induct)
  case (header w' n v)
  then show ?case using cors_set [of w' n v] by (auto simp: set_header_def)
next
  case (status w' code)
  then show ?case using writes_answered(1) [of w' code] by (auto simp: answered_def)
next
  case (body w' x)
  then show ?case using writes_answered(2) [of w' x] by (auto simp: answered_def)
qed auto

text \<open>A handler answers when it ends by writing a status or a body.\<close>

definition answers :: "writer \<Rightarrow> writer \<Rightarrow> bool" where
  "answers w w' \<longleftrightarrow> (\<exists>v. writes w v \<and> ((\<exists>code. code \<noteq> 0 \<and> w' = WriteHeader code v) \<or> (\<exists>x. w' = Write x v)))"

lemma answers_answered: "answers w w' \<Longrightarrow> coherent w \<Longrightarrow> answered w w'"
  unfolding answers_def
proof (elim exE conjE)
  fix v
  assume w: "coherent w" "writes w v" and last: "(\<exists>code. code \<noteq> 0 \<and> w' = WriteHeader code v) \<or> (\<exists>x. w' = Write x v)"
  note v = writes_keep [OF w(2,1)]
  have "answered v w'" using last writes_answered [of v] v by blast
  with v show "answered w w'" by (auto simp: answered_def)
qed

lemma content_type: "\<not> prefix ''Access-Control-'' ''Content-Type''" "\<not> prefix ''Access-Control-'' ''Content-Length''"
  by simp_all

text \<open>
  The forms an answer takes: a JSON payload of the type its status asks for, an empty answer, or
  a blob with its length announced. Every error is an envelope with a code from a fixed
  table; 405 is chi's own and has no body.
\<close>

definition error_codes :: "(int \<times> string) list" where
  "error_codes =
     [(400, ''ERR_INVALID_DEVICE_ID''), (400, ''ERR_INVALID_PARAMS''), (400, ''ERR_EMPTY_BLOB''),
      (400, ''ERR_BODY_DIGEST_MISMATCH''), (401, ''ERR_AUTH_REQUIRED''), (404, ''ERR_NOT_FOUND''),
      (404, ''ERR_BLOB_NOT_FOUND''), (404, ''ERR_GENERATION_NOT_FOUND''), (409, ''ERR_SEQ_CONFLICT''),
      (409, ''ERR_RETENTION_GUARD''), (413, ''ERR_BLOB_TOO_LARGE''), (415, ''ERR_UNSUPPORTED_MEDIA_TYPE''),
      (500, ''ERR_INTERNAL'')]"

definition reply_typed :: "int \<Rightarrow> payload \<Rightarrow> bool" where
  "reply_typed status payload \<longleftrightarrow>
     status \<in> {200, 201, 503} \<and> (\<exists>fs. payload = PObj fs \<and> ''code'' \<notin> fst ` set fs) \<or>
     (\<exists>code t. (status, code) \<in> set error_codes \<and> payload = error_payload code t)"

inductive replies :: "writer \<Rightarrow> writer \<Rightarrow> bool" for w where
  json: "reply_typed status payload \<Longrightarrow> replies w (WriteJSON (sync_over b w) status payload)"
| empty: "code \<in> {204, 405} \<Longrightarrow> replies w (WriteHeader code w)"
| blob: "replies w (WriteHeader 200 (set_header ''Content-Length'' l (set_header ''Content-Type'' t w)))"
| bytes: "replies w (Write (PieceBytes bs)
    (WriteHeader 200 (set_header ''Content-Length'' l (set_header ''Content-Type'' t w))))"

lemma sync_over_False [simp]: "sync_over False w = w"
  by (induction w) simp_all

lemma replies_JSON: "reply_typed status payload \<Longrightarrow> replies w (WriteJSON w status payload)"
  using replies.json [of status payload w False] by simp

lemma replies_Error_over:
  "(status, code) \<in> set error_codes \<Longrightarrow> replies w (WriteError (sync_over b w) status code t)"
  unfolding WriteError_def by (intro replies.json) (auto simp: reply_typed_def error_payload_def)

lemma replies_Error: "(status, code) \<in> set error_codes \<Longrightarrow> replies w (WriteError w status code t)"
  using replies_Error_over [of status code w False] by simp

lemmas replying = replies_Error replies_JSON replies.empty replies.blob replies.bytes
lemmas reply_types = error_codes_def reply_typed_def

lemma replies_answers:
  assumes "replies w w'"
  shows "answers w w'"
  using assms
proof cases
  case (json status payload b)
  then have "status \<noteq> 0" by (auto simp: reply_types)
  with json show ?thesis
    unfolding answers_def WriteJSON_def using writes.status [OF writes.header [OF writes.over [OF writes.start] content_type(1)]] by blast
next
  case (empty code)
  then have "code \<noteq> 0" by auto
  with empty writes.start show ?thesis unfolding answers_def by blast
next
  case (blob l t)
  moreover have "writes w (set_header ''Content-Length'' l (set_header ''Content-Type'' t w))"
    by (intro writes.header writes.start content_type)
  moreover have "(200 :: int) \<noteq> 0" by simp
  ultimately show ?thesis unfolding answers_def by blast
next
  case (bytes bs l t)
  moreover have "writes w (WriteHeader 200 (set_header ''Content-Length'' l (set_header ''Content-Type'' t w)))"
    by (intro writes.status writes.header writes.start content_type) simp
  ultimately show ?thesis unfolding answers_def by blast
qed

definition handler_replies :: "('s, 'k) handler \<Rightarrow> bool" where
  "handler_replies h \<longleftrightarrow> (\<forall>s r w. replies w (snd (h s r w)))"

lemma account_cases:
  assumes "sdk_ok sdk"
  obtains account where "account \<noteq> ''''" "pseudonym sdk w r = (account, w)"
  | w' where "pseudonym sdk w r = ('''', w')" "replies w w'"
proof (cases "rq_Identity r")
  case None
  then show thesis
    by (intro that(2)) (auto simp: pseudonym_def GetIdentityKey_def error_codes_def intro!: replies_Error)
next
  case (Some k)
  then show thesis using assms by (intro that(1)) (auto simp: pseudonym_def GetIdentityKey_def sdk_ok_def)
qed

lemma deviceID_cases:
  obtains "deviceID w raw = (Some raw, w)" | w' where "deviceID w raw = (None, w')" "replies w w'"
  by (cases "deviceIDPattern raw") (auto simp: deviceID_def error_codes_def intro!: that(2) replies_Error intro: that(1))

lemma Append_reply_replies: "replies w (Append_reply (sync_over b w) n res)"
  by (auto simp: Append_reply_def reply_types split: sum.splits store_err.splits rd_err.splits prod.splits
      intro!: replies_Error_over replies.json)

section \<open>Every handler replies\<close>

text \<open>
  A handler that needs an account replies if it passes on the refusal of \<open>pseudonym\<close>, and
  one for a device if it passes on that of \<open>deviceID\<close> too.
\<close>

lemma account_handlerI:
  assumes "sdk_ok sdk" and "\<And>s r w w'. pseudonym sdk w r = ('''', w') \<Longrightarrow> snd (h s r w) = w'"
    and "\<And>s r w account. account \<noteq> '''' \<Longrightarrow> pseudonym sdk w r = (account, w) \<Longrightarrow> replies w (snd (h s r w))"
  shows "handler_replies h"
  unfolding handler_replies_def
proof (intro allI)
  fix s r w
  show "replies w (snd (h s r w))"
    by (rule account_cases [OF assms(1), of w r]) (use assms(2,3) in auto)
qed

lemma device_handlerI:
  assumes "sdk_ok sdk" and "\<And>s r w w'. pseudonym sdk w r = ('''', w') \<Longrightarrow> snd (h s r w) = w'"
    and "\<And>s r w w' account. account \<noteq> '''' \<Longrightarrow> pseudonym sdk w r = (account, w) \<Longrightarrow>
      deviceID w (URLParam r ''deviceId'') = (None, w') \<Longrightarrow> replies w w' \<Longrightarrow> replies w (snd (h s r w))"
    and "\<And>s r w account raw. account \<noteq> '''' \<Longrightarrow> pseudonym sdk w r = (account, w) \<Longrightarrow>
      deviceID w (URLParam r ''deviceId'') = (Some raw, w) \<Longrightarrow> replies w (snd (h s r w))"
  shows "handler_replies h"
proof (rule account_handlerI [OF assms(1,2)])
  fix s r w account
  assume "account \<noteq> ''''" "pseudonym sdk w r = (account, w)"
  note with_account = this
  show "replies w (snd (h s r w))"
    by (rule deviceID_cases [of w "URLParam r ''deviceId''"]) (use with_account assms(3,4) in auto)
qed

lemma Manifest_replies: "sdk_ok sdk \<Longrightarrow> handler_replies (Manifest sdk store)"
  by (erule account_handlerI) (auto simp: Manifest_def reply_types split: prod.splits sum.splits intro!: replying)

lemma DeleteAccount_replies: "sdk_ok sdk \<Longrightarrow> handler_replies (DeleteAccount sdk store)"
  by (erule account_handlerI) (auto simp: DeleteAccount_def reply_types split: prod.splits sum.splits intro!: replying)

lemma Append_replies: "sdk_ok sdk \<Longrightarrow> handler_replies (Append sdk store)"
  by (erule device_handlerI)
    (auto simp: Append_def reply_types Let_def Append_reply_replies split: prod.splits option.splits intro!: replying)

lemma Index_replies: "sdk_ok sdk \<Longrightarrow> handler_replies (Index sdk store)"
  by (erule device_handlerI)
    (auto simp: Index_def reply_types split: prod.splits sum.splits option.splits intro!: replying)

lemma Blob_replies: "sdk_ok sdk \<Longrightarrow> handler_replies (Blob sdk store)"
  by (erule device_handlerI)
    (auto simp: Blob_def reply_types Let_def split: prod.splits sum.splits option.splits store_err.splits
      intro!: replying)

lemma PruneGeneration_replies: "sdk_ok sdk \<Longrightarrow> handler_replies (PruneGeneration sdk store)"
  by (erule device_handlerI)
    (auto simp: PruneGeneration_def reply_types split: prod.splits sum.splits option.splits store_err.splits
        intro!: replying)

lemma open_routes_reply: "handler_replies (Limits cap key)" "handler_replies (Health store)"
  by (auto simp: handler_replies_def Limits_def Health_def reply_types split: prod.splits option.splits intro!: replying)

lemma refuse_replies: "replies w (refuse w reason)"
  unfolding refuse_def by (rule replies_Error) (simp add: error_codes_def)

lemma AuthProof_replies: "handler_replies h \<Longrightarrow> handler_replies (AuthProof sdk nonces h)"
  unfolding handler_replies_def AuthProof_def Let_def
  by (auto simp: refuse_replies reply_types split: prod.splits sum.splits bool.splits intro!: replying)

lemma routes_reply:
  assumes "sdk_ok (Wallet d)" and "map_of (routes d key) (meth, pat) = Some h"
  shows "handler_replies h"
proof -
  have "((meth, pat), h) \<in> set (routes d key)" using assms(2) by (rule map_of_SomeD)
  then show ?thesis
    using assms(1)
    by (auto simp: routes_def Let_def intro: AuthProof_replies Manifest_replies Append_replies Index_replies
        Blob_replies PruneGeneration_replies DeleteAccount_replies open_routes_reply)
qed

section \<open>The layers\<close>

definition route_labels :: "string set" where
  "route_labels = {''/health'', ''/v1/limits'', ''/v1/manifest'', ''/v1/log/{deviceId}'', ''/v1/log/{deviceId}/{seq}'',
     ''/v1/generation/{deviceId}/{generation}'', ''/v1/account''}"

lemma dispatch_replies:
  assumes "sdk_ok (Wallet d)" and "dispatch mux (routes d key) s r w = (s', w', route)"
  shows "replies w w' \<and> route \<in> insert '''' route_labels"
proof (cases "mux (map fst (routes d key)) (rq_Method r) (rq_EscapedPath r)")
  case (MuxHit pat params)
  show ?thesis
  proof (cases "map_of (routes d key) (rq_Method r, pat)")
    case None
    with MuxHit assms(2) show ?thesis by (auto simp: dispatch_def error_codes_def intro!: replying)
  next
    case (Some h)
    have "pat \<in> (snd \<circ> fst) ` set (routes d key)" using map_of_SomeD [OF Some] by force
    then have "pat \<in> route_labels" by (auto simp: routes_def route_labels_def Let_def)
    moreover have "replies w (snd (h s (r\<lparr>rq_Params := params\<rparr>) w))"
      using routes_reply [OF assms(1) Some] by (simp add: handler_replies_def)
    ultimately show ?thesis using MuxHit Some assms(2) by (auto simp: dispatch_def split: prod.splits)
  qed
qed (use assms(2) in \<open>auto simp: dispatch_def error_codes_def intro!: replying\<close>)

lemma maxBody_answered:
  assumes "\<And>s r w s' w' route. nxt s r w = (s', w', route) \<Longrightarrow> replies w w' \<and> route \<in> L" and "'''' \<in> L"
    and "maxBody limit nxt s r w = (s', w', route)" and "coherent w" and "sent_status w = None"
  shows "answered w w' \<and> route \<in> L"
proof (cases "rq_ContentLength r > limit")
  case True
  have "answers w (writeTooLarge w limit)"
    unfolding writeTooLarge_def by (intro replies_answers replies_Error) (simp add: error_codes_def)
  then show ?thesis using assms True by (auto simp: maxBody_def intro: answers_answered)
next
  case False
  obtain s1 g where run: "nxt s (r\<lparr>rq_Body := CountingBody (rq_Body r) limit 0 False\<rparr>) (Guard w limit False False) = (s1, g, route)"
    and w': "w' = inner (if guard_owes g then WriteHeader 413 g else g)"
    using assms(3) False by (auto simp: maxBody_def split: prod.splits)
  have g: "answered (Guard w limit False False) g"
    by (intro answers_answered replies_answers) (use assms(1) [OF run] assms(4,5) in simp_all)
  then obtain v over wrote lim where "g = Guard v lim over wrote"
    by (cases g) (auto simp: answered_def)
  with g w' assms(1) [OF run] show ?thesis by (auto simp: answered_def guard_owes_def)
qed

lemma cors_headers_ok:
  "sent_status w = None \<Longrightarrow> cors_ok (set_header ''Access-Control-Allow-Methods'' ''GET, POST, DELETE, OPTIONS''
     (set_header ''Access-Control-Allow-Headers'' ''*'' (set_header ''Access-Control-Allow-Origin'' ''*'' w)))"
  by (auto simp: cors_ok_def set_header_def base_of_map_header has_cors_def update_conv' sent_status_def)

lemma app_answered:
  assumes "sdk_ok (Wallet d)" and "app mux d key s r w = (s', w', route)" and "coherent w" and "sent_status w = None"
  shows "answered w w' \<and> cors_ok w' \<and> route \<in> insert '''' route_labels"
proof -
  let ?w = "set_header ''Access-Control-Allow-Methods'' ''GET, POST, DELETE, OPTIONS''
     (set_header ''Access-Control-Allow-Headers'' ''*'' (set_header ''Access-Control-Allow-Origin'' ''*'' w))"
  have w: "coherent ?w" "sent_status ?w = None" "layers ?w = layers w" using assms(3,4) by (simp_all add: set_header_def)
  have "answered ?w w' \<and> route \<in> insert '''' route_labels"
  proof (cases "rq_Method r = ''OPTIONS''")
    case True
    then show ?thesis using assms(2) writes_answered(1) [OF w(1), of 200] by (auto simp: app_def corsMiddleware_def Let_def)
  next
    case False
    with assms(2) have run: "maxBody (MaxBlobBytes d) (dispatch mux (routes d key)) s r ?w = (s', w', route)"
      by (simp add: app_def corsMiddleware_def Let_def)
    show ?thesis by (rule maxBody_answered [OF dispatch_replies [OF assms(1)] _ run w(1,2)]) simp_all
  qed
  with cors_headers_ok [OF assms(4)] w(2,3) assms(4) show ?thesis by (simp add: answered_def)
qed

text \<open>Telemetry reports what was answered.\<close>

lemma Telemetry_answered:
  assumes "sdk_ok (Wallet d)" and "Telemetry (app mux d key) (s, tel) r (Base b) = ((s', tel'), w', route)"
    and "bw_Sent b = None"
  shows "\<exists>code hs. bw_Sent (base_of w') = Some (code, hs) \<and> has_cors hs \<and>
     (if rq_Path r = ''/health'' then tel' = tel
      else \<exists>rec. tel' = tel @ [rec] \<and> tel_Status rec = code \<and> (tel_Error rec \<longleftrightarrow> code \<ge> 500) \<and>
        tel_Method rec = rq_Method r \<and> tel_Route rec \<in> insert ''unmatched'' route_labels)"
proof -
  define w where "w = (if rq_Path r = ''/health'' then Base b else Recorder (Base b) 0 [])"
  obtain s1 v pat where run: "app mux d key s r w = (s1, v, pat)" by (metis prod_cases3)
  have "coherent w" "sent_status w = None" using assms(3) by (simp_all add: w_def sent_status_def)
  from app_answered [OF assms(1) run this]
  have v: "answered w v" "cors_ok v" "pat \<in> insert '''' route_labels" by simp_all
  obtain code hs where sent: "bw_Sent (base_of v) = Some (code, hs)"
    using v(1) by (cases "bw_Sent (base_of v)") (simp_all add: answered_def sent_status_def, metis prod.exhaust)
  then have cors: "has_cors hs" using v(2) unfolding cors_ok_def by blast
  show ?thesis
  proof (cases "rq_Path r = ''/health''")
    case True
    with assms(2) run sent cors show ?thesis unfolding Telemetry_def w_def by simp
  next
    case False
    from v(1) False obtain u status written where rec: "v = Recorder u status written"
      by (cases v) (auto simp: answered_def w_def)
    with v(1) sent have "status = code" "status \<noteq> 0" by (auto simp: answered_def sent_status_def split: if_splits)
    moreover have "tel' = tel @ [\<lparr>tel_Span = rq_Method r @ '' '' @ (if pat = '''' then ''unmatched'' else pat), tel_Method = rq_Method r,
        tel_Route = (if pat = '''' then ''unmatched'' else pat), tel_Status = (if status = 0 then 200 else status),
        tel_Error = ((if status = 0 then 200 else status) \<ge> 500),
        tel_Level = (if (if status = 0 then 200 else status) \<ge> 500 then LevelWarn else LevelInfo), tel_Written = written\<rparr>]"
      and "w' = u"
      using assms(2) run rec False unfolding Telemetry_def w_def
      by (auto simp: recorded_def Let_def split del: if_split)
    moreover have "(if pat = '''' then ''unmatched'' else pat) \<in> insert ''unmatched'' route_labels"
      using v(3) by auto
    ultimately show ?thesis
      using sent cors rec False by (intro exI [of _ code] exI [of _ hs]) (simp only: if_False, simp)
  qed
qed

section \<open>The type of an answer\<close>

text \<open>
  What reaches the connection: a status with the JSON payload its type asks for, labelled as
  such, or a status without a body, or bytes.
\<close>

definition answer_typed :: "base_writer \<Rightarrow> bool" where
  "answer_typed b \<longleftrightarrow>
     (case bw_Sent b of
        None \<Rightarrow> False
      | Some (status, hs) \<Rightarrow>
          status \<in> {200, 204, 405} \<and> bw_Body b = [] \<or>
          status = 200 \<and> (\<exists>bs. bw_Body b = [PieceBytes bs]) \<or>
          (\<exists>payload. reply_typed status payload \<and> bw_Body b = [PieceJson payload] \<and>
             map_of hs ''Content-Type'' = Some ''application/json''))"

lemma answer_typed_JSON:
  assumes "reply_typed status payload" "unsent w" "within w"
  shows "answer_typed (base_of (WriteJSON w status payload))"
  using assms by (simp add: base_of_WriteJSON answer_typed_def Let_def update_conv')

lemma too_large_typed: "reply_typed 413 (error_payload ''ERR_BLOB_TOO_LARGE'' t)"
  by (auto simp: reply_types)

lemma answer_typed_guard:
  assumes "replies (Guard w l False False) g" and w: "unsent w" "within w"
  shows "answer_typed (base_of (inner (if guard_owes g then WriteHeader 413 g else g)))"
proof -
  have base: "bw_Sent (base_of w) = None" "bw_Body (base_of w) = []" using unsent_base [OF w(1)] by simp_all
  note written = guard_owes_def base_of_WriteHeader base_WriteHeader_def base_of_Write settled_WriteHeader within_WriteHeader
    set_header_def base_of_map_header answer_typed_def base w
  from assms(1) show ?thesis
  proof cases
    case (json status payload b)
    obtain v where v: "g = Guard v l b True" using WriteJSON_Guard [of w l b status payload] json by auto
    then have g: "base_of (inner (if guard_owes g then WriteHeader 413 g else g)) = base_of (WriteJSON (Guard w l b False) status payload)"
      using json(1) by (simp add: guard_owes_def)
    show ?thesis
    proof (cases b)
      case True
      then have "b = True" by simp
      show ?thesis
        unfolding g \<open>b = True\<close> guard_overrides [OF w] using too_large_typed [of "too_large_text l"]
        by (simp add: answer_typed_def error_body_def error_payload_def Let_def update_conv')
    next
      case False
      show ?thesis unfolding g by (rule answer_typed_JSON [OF json(2)]) (simp_all add: w False)
    qed
  qed (auto simp: written)
qed

lemma app_typed:
  assumes "sdk_ok (Wallet d)" and "app mux d key s r w = (s', w', route)" and "unsent w" and "within w"
  shows "answer_typed (base_of w')"
proof -
  define v where "v = set_header ''Access-Control-Allow-Methods'' ''GET, POST, DELETE, OPTIONS''
     (set_header ''Access-Control-Allow-Headers'' ''*'' (set_header ''Access-Control-Allow-Origin'' ''*'' w))"
  have v: "unsent v" "within v" using assms(3,4) by (simp_all add: v_def set_header_def)
  consider "rq_Method r = ''OPTIONS''" | "rq_Method r \<noteq> ''OPTIONS''" "rq_ContentLength r > MaxBlobBytes d"
    | "rq_Method r \<noteq> ''OPTIONS''" "rq_ContentLength r \<le> MaxBlobBytes d" by linarith
  then show ?thesis
  proof cases
    case 1
    with assms(2) unsent_base [OF v(1)] v show ?thesis
      by (auto simp: app_def corsMiddleware_def v_def [symmetric] Let_def answer_typed_def base_of_WriteHeader base_WriteHeader_def)
  next
    case 2
    then have "w' = WriteJSON v 413 (error_payload ''ERR_BLOB_TOO_LARGE'' (too_large_text (MaxBlobBytes d)))"
      using assms(2) by (simp add: app_def corsMiddleware_def v_def maxBody_def writeTooLarge_def WriteError_def error_payload_def Let_def)
    then show ?thesis using answer_typed_JSON [OF too_large_typed v] by simp
  next
    case 3
    obtain s1 g where run: "dispatch mux (routes d key) s
        (r\<lparr>rq_Body := CountingBody (rq_Body r) (MaxBlobBytes d) 0 False\<rparr>) (Guard v (MaxBlobBytes d) False False) = (s1, g, route)"
      and w': "w' = inner (if guard_owes g then WriteHeader 413 g else g)"
      using assms(2) 3 by (auto simp: app_def corsMiddleware_def v_def [symmetric] maxBody_def Let_def split: prod.splits)
    have "replies (Guard v (MaxBlobBytes d) False False) g" using dispatch_replies [OF assms(1) run] by simp
    from answer_typed_guard [OF this v] show ?thesis by (simp only: w')
  qed
qed

lemma Telemetry_typed:
  assumes "sdk_ok (Wallet d)" and "Telemetry (app mux d key) (s, tel) r (Base b) = (st, w', route)"
    and "bw_Sent b = None" and "bw_Body b = []"
  shows "answer_typed (base_of w')"
proof -
  define w where "w = (if rq_Path r = ''/health'' then Base b else Recorder (Base b) 0 [])"
  obtain s1 v pat where run: "app mux d key s r w = (s1, v, pat)" by (metis prod_cases3)
  have w: "unsent w" "within w" using assms(3,4) by (simp_all add: w_def)
  have "base_of w' = base_of v"
  proof (cases "rq_Path r = ''/health''")
    case True
    with assms(2) run show ?thesis unfolding Telemetry_def w_def by simp
  next
    case False
    have "coherent w" "sent_status w = None" using assms(3) by (simp_all add: w_def sent_status_def)
    from app_answered [OF assms(1) run this] False obtain u status written where rec: "v = Recorder u status written"
      by (cases v) (auto simp: answered_def w_def)
    with assms(2) run False show ?thesis unfolding Telemetry_def w_def by (auto simp: recorded_def Let_def)
  qed
  with app_typed [OF assms(1) run w] show ?thesis by simp
qed

end
