(* ===== verification/Postgres_Store.thy ===== *)
theory Postgres_Store
  imports Database
begin

text \<open>
  \<open>internal/blobstore/postgres.go\<close>: the PostgreSQL \<open>BlobStore\<close>. A transaction works on a
  copy of the tables that becomes visible at COMMIT; every call goes through the outcome
  script of the database.
\<close>

section \<open>Operations\<close>

definition ChunkBytes :: nat where
  "ChunkBytes = 1048576"

text \<open>A unique-key violation is a sequence conflict; every other error passes through.\<close>

definition asSeqConflict :: "pq_error \<Rightarrow> store_err" where
  "asSeqConflict e =
     (case e of
        PqError code \<Rightarrow> if code = ''23505'' then ErrSeqConflict AnotherAppend else ErrDatabase e
      | DriverError _ \<Rightarrow> ErrDatabase e)"

definition asNilOrSeqConflict :: "pq_error option \<Rightarrow> store_err option" where
  "asNilOrSeqConflict e = map_option asSeqConflict e"

definition nullable :: "string \<Rightarrow> string option" where
  "nullable s = (if s = '''' then None else Some s)"

text \<open>
  The loop of \<open>Append\<close> that streams the body through the chunk buffer: what was hashed,
  its size, and the transaction's tables, or the error that ends the call.
\<close>

function append_loop ::
  "BlobKey \<Rightarrow> int \<Rightarrow> bytes \<Rightarrow> int \<Rightarrow> tables \<Rightarrow> outcome list \<Rightarrow> reader \<Rightarrow>
     (store_err + bytes \<times> int \<times> tables) \<times> outcome list \<times> reader" where
  "append_loop k idx hashed sz tx fs body =
     (case ReadFull ChunkBytes body of
        (buf, readErr, body') \<Rightarrow>
          (case (if buf \<noteq> [] then exec fs (insert_chunk tx k idx buf) else (Inr tx, fs)) of
             (Inl e, fs') \<Rightarrow> (Inl (asSeqConflict e), fs', body')
           | (Inr tx', fs') \<Rightarrow>
               (case readErr of
                  None \<Rightarrow>
                    append_loop k (idx + 1) (hashed @ buf) (sz + int (length buf)) tx' fs' body'
                | Some e \<Rightarrow>
                    if e = EOF \<or> e = ErrUnexpectedEOF
                    then (Inr (hashed @ buf, sz + int (length buf), tx'), fs', body')
                    else (Inl (ErrReadBody e), fs', body'))))"
  by pat_completeness auto
termination
  by (relation "measure (\<lambda>(k, idx, hashed, sz, tx, fs, body). reads_left body)")
    (auto simp: ChunkBytes_def dest: ReadFull_progress [OF sym])

declare append_loop.simps [simp del]

definition PostgresStore_Append ::
  "database \<Rightarrow> BlobKey \<Rightarrow> string \<Rightarrow> reader \<Rightarrow> (store_err + string \<times> int) \<times> database \<times> reader" where
  "PostgresStore_Append db k prev body =
     (case exec (db_faults db) (Inr (db_tables db)) of
        (Inl e, fs) \<Rightarrow> (Inl (ErrDatabase e), db\<lparr>db_faults := fs\<rparr>, body)
      | (Inr tx, fs) \<Rightarrow>
    (case exec fs (select_max_seq tx k) of
        (Inl e, fs) \<Rightarrow> (Inl (ErrDatabase e), db\<lparr>db_faults := fs\<rparr>, body)
      | (Inr head, fs) \<Rightarrow>
    (let want = (case head of None \<Rightarrow> 1 | Some h \<Rightarrow> h + 1)
     in if key_Seq k \<noteq> want
        then (Inl (ErrSeqConflict (ExpectedSeq want (key_Seq k))), db\<lparr>db_faults := fs\<rparr>, body)
        else
    (case append_loop k 0 [] 0 tx fs body of
        (Inl e, fs, body') \<Rightarrow> (Inl e, db\<lparr>db_faults := fs\<rparr>, body')
      | (Inr (hashed, sz, tx), fs, body') \<Rightarrow>
    (if sz = 0 then (Inl ErrEmptyBlob, db\<lparr>db_faults := fs\<rparr>, body')
     else
    (case exec fs (insert_log tx (db_now db) k (sha256_hex hashed) (nullable prev) sz) of
        (Inl e, fs) \<Rightarrow> (Inl (asSeqConflict e), db\<lparr>db_faults := fs\<rparr>, body')
      | (Inr tx, fs) \<Rightarrow>
    (case commit fs (db_tables db) tx of
       (err, t, fs) \<Rightarrow>
         (case asNilOrSeqConflict err of Some e \<Rightarrow> Inl e | None \<Rightarrow> Inr (sha256_hex hashed, sz),
          db\<lparr>db_tables := t, db_faults := fs\<rparr>, body'))))))))"

definition PostgresStore_Get :: "database \<Rightarrow> BlobKey \<Rightarrow> (store_err + reader \<times> int) \<times> database" where
  "PostgresStore_Get db k =
     (case exec (db_faults db) (Inr (db_tables db)) of
        (Inl e, fs) \<Rightarrow> (Inl (ErrDatabase e), db\<lparr>db_faults := fs\<rparr>)
      | (Inr tx, fs) \<Rightarrow>
    (case exec fs (select_size tx k) of
        (Inl e, fs) \<Rightarrow> (Inl (ErrDatabase e), db\<lparr>db_faults := fs\<rparr>)
      | (Inr None, fs) \<Rightarrow> (Inl ErrNotFound, db\<lparr>db_faults := fs\<rparr>)
      | (Inr (Some sz), fs) \<Rightarrow>
    (case fetch fs (select_chunks tx k) of
        (Inl e, fs) \<Rightarrow> (Inl (ErrDatabase e), db\<lparr>db_faults := fs\<rparr>)
      | (Inr (rows, err), fs) \<Rightarrow>
          (Inr (ChunkReader rows (map_option (\<lambda>e. store_err_text (ErrDatabase e)) err) [] None, sz),
           db\<lparr>db_faults := fs\<rparr>))))"

definition entry_of_log :: "log_row \<Rightarrow> Entry" where
  "entry_of_log l =
     \<lparr>ent_Seq = l_seq l, ent_Sha256 = l_sha256 l,
      ent_PrevSha256 = (case l_prev_sha256 l of None \<Rightarrow> '''' | Some s \<Rightarrow> s),
      ent_Size = l_size l, ent_CreatedAt = l_created_at l\<rparr>"

definition PostgresStore_Index ::
  "database \<Rightarrow> string \<Rightarrow> string \<Rightarrow> int \<Rightarrow> int \<Rightarrow> int \<Rightarrow> (store_err + Entry list) \<times> database" where
  "PostgresStore_Index db p d g from limit =
     (case fetch (db_faults db) (select_index (db_tables db) p d g from limit) of
        (Inl e, fs) \<Rightarrow> (Inl (ErrDatabase e), db\<lparr>db_faults := fs\<rparr>)
      | (Inr (rows, None), fs) \<Rightarrow> (Inr (map entry_of_log rows), db\<lparr>db_faults := fs\<rparr>)
      | (Inr (rows, Some e), fs) \<Rightarrow> (Inl (ErrDatabase e), db\<lparr>db_faults := fs\<rparr>))"

definition PostgresStore_Manifest :: "database \<Rightarrow> string \<Rightarrow> (store_err + DeviceSummary list) \<times> database" where
  "PostgresStore_Manifest db p =
     (case fetch (db_faults db) (select_manifest (db_tables db) p) of
        (Inl e, fs) \<Rightarrow> (Inl (ErrDatabase e), db\<lparr>db_faults := fs\<rparr>)
      | (Inr (rows, None), fs) \<Rightarrow> (Inr rows, db\<lparr>db_faults := fs\<rparr>)
      | (Inr (rows, Some e), fs) \<Rightarrow> (Inl (ErrDatabase e), db\<lparr>db_faults := fs\<rparr>))"

text \<open>The two deletes of a transaction and its commit, shared by the two delete operations.\<close>

definition delete_tx ::
  "database \<Rightarrow> outcome list \<Rightarrow> (tables \<Rightarrow> pq_error + tables) \<Rightarrow> (tables \<Rightarrow> pq_error + tables \<times> int) \<Rightarrow>
     (store_err + int) \<times> database" where
  "delete_tx db fs del_chunks del_log =
     (case exec fs (Inr (db_tables db)) of
        (Inl e, fs) \<Rightarrow> (Inl (ErrDatabase e), db\<lparr>db_faults := fs\<rparr>)
      | (Inr tx, fs) \<Rightarrow>
    (case exec fs (del_chunks tx) of
        (Inl e, fs) \<Rightarrow> (Inl (ErrDatabase e), db\<lparr>db_faults := fs\<rparr>)
      | (Inr tx, fs) \<Rightarrow>
    (case exec fs (del_log tx) of
        (Inl e, fs) \<Rightarrow> (Inl (ErrDatabase e), db\<lparr>db_faults := fs\<rparr>)
      | (Inr (tx, n), fs) \<Rightarrow>
    (case commit fs (db_tables db) tx of
       (err, t, fs) \<Rightarrow>
         (case err of Some e \<Rightarrow> Inl (ErrDatabase e) | None \<Rightarrow> Inr n,
          db\<lparr>db_tables := t, db_faults := fs\<rparr>)))))"

definition PostgresStore_DeleteGeneration ::
  "database \<Rightarrow> string \<Rightarrow> string \<Rightarrow> int \<Rightarrow> (store_err + int) \<times> database" where
  "PostgresStore_DeleteGeneration db p d g =
     (case exec (db_faults db) (select_max_generation (db_tables db) p d) of
        (Inl e, fs) \<Rightarrow> (Inl (ErrDatabase e), db\<lparr>db_faults := fs\<rparr>)
      | (Inr newest, fs) \<Rightarrow>
          (case newest of
             Some n \<Rightarrow>
               if g > n - RetainedGenerations
               then (Inl (ErrRetentionGuard g n), db\<lparr>db_faults := fs\<rparr>)
               else delete_tx db fs (\<lambda>t. delete_gen_chunks t p d g) (\<lambda>t. delete_gen_log t p d g)
           | None \<Rightarrow> delete_tx db fs (\<lambda>t. delete_gen_chunks t p d g) (\<lambda>t. delete_gen_log t p d g)))"

definition PostgresStore_DeleteAccount :: "database \<Rightarrow> string \<Rightarrow> (store_err + int) \<times> database" where
  "PostgresStore_DeleteAccount db p =
     delete_tx db (db_faults db) (\<lambda>t. delete_account_chunks t p) (\<lambda>t. delete_account_log t p)"

definition PostgresStore_Ping :: "database \<Rightarrow> store_err option \<times> database" where
  "PostgresStore_Ping db =
     (case exec (db_faults db) (Inr ()) of
        (Inl e, fs) \<Rightarrow> (Some (ErrDatabase e), db\<lparr>db_faults := fs\<rparr>)
      | (Inr _, fs) \<Rightarrow> (None, db\<lparr>db_faults := fs\<rparr>))"

definition postgres_ops :: "database BlobStore" where
  "postgres_ops =
     \<lparr>bs_Append = PostgresStore_Append, bs_Get = PostgresStore_Get, bs_Index = PostgresStore_Index,
      bs_Manifest = PostgresStore_Manifest, bs_DeleteGeneration = PostgresStore_DeleteGeneration,
      bs_DeleteAccount = PostgresStore_DeleteAccount, bs_Ping = PostgresStore_Ping\<rparr>"

section \<open>The streaming loop of Append\<close>

text \<open>The rows a list of blocks becomes, numbered from \<open>idx\<close>.\<close>

fun chunk_rows :: "BlobKey \<Rightarrow> int \<Rightarrow> bytes list \<Rightarrow> chunk_row list" where
  "chunk_rows k idx [] = []"
| "chunk_rows k idx (b # bs) =
     \<lparr>ch_pseudonym = key_Pseudonym k, ch_device_id = key_DeviceID k,
      ch_generation = key_Generation k, ch_seq = key_Seq k, ch_idx = idx, ch_chunk = b\<rparr>
     # chunk_rows k (idx + 1) bs"

definition chunk_of_key :: "BlobKey \<Rightarrow> chunk_row \<Rightarrow> bool" where
  "chunk_of_key k c \<longleftrightarrow>
     chunk_in (key_Pseudonym k) (key_DeviceID k) (key_Generation k) c \<and> ch_seq c = key_Seq k"

definition add_chunks :: "BlobKey \<Rightarrow> int \<Rightarrow> bytes list \<Rightarrow> tables \<Rightarrow> tables" where
  "add_chunks k idx bs t = t\<lparr>blob_chunks := blob_chunks t @ chunk_rows k idx bs\<rparr>"

lemma add_chunks_Nil [simp]: "add_chunks k idx [] t = t"
  by (simp add: add_chunks_def)

lemma add_chunks_Cons: "add_chunks k idx (b # bs) t = add_chunks k (idx + 1) bs (add_chunks k idx [b] t)"
  by (simp add: add_chunks_def)

lemma exec_nil [simp]: "exec [] r = (r, [])"
  by (simp add: exec_def)

lemma commit_nil [simp]: "commit [] old new = (None, new, [])"
  by (simp add: commit_def)

lemma fetch_nil [simp]: "fetch [] (Inr rows) = (Inr (rows, None), [])"
  by (simp add: fetch_def)

text \<open>Room for the chunks still to come: their numbers are free and fit the column.\<close>

definition room :: "BlobKey \<Rightarrow> int \<Rightarrow> nat \<Rightarrow> tables \<Rightarrow> bool" where
  "room k idx len t \<longleftrightarrow> key_ok k \<and> 0 \<le> idx \<and> idx + int (len div ChunkBytes) < 2 ^ 31 \<and>
     (\<forall>c \<in> set (blob_chunks t). chunk_of_key k c \<longrightarrow> ch_idx c < idx)"

lemma insert_chunk_room:
  assumes "room k idx len t"
  shows "insert_chunk t k idx buf = Inr (add_chunks k idx [buf] t)"
proof -
  have "key_ok k" "int4_ok idx"
    using assms by (auto simp: room_def int4_ok_def)
  moreover have "\<not> (\<exists>c \<in> set (blob_chunks t).
      chunk_in (key_Pseudonym k) (key_DeviceID k) (key_Generation k) c \<and> ch_seq c = key_Seq k \<and> ch_idx c = idx)"
    using assms by (auto simp: room_def chunk_of_key_def)
  ultimately show ?thesis
    unfolding insert_chunk_def
    by (subst checked_ok) (auto simp: key_ok_def text_ok_name add_chunks_def)
qed

lemma room_next:
  assumes "room k idx len t" and "length buf = ChunkBytes" and "len = ChunkBytes + rest"
  shows "room k (idx + 1) rest (add_chunks k idx [buf] t)"
  using assms by (fastforce simp: room_def add_chunks_def ChunkBytes_def)

lemma append_loop_step:
  assumes "ReadFull ChunkBytes body = (buf, err, body')" and "room k idx len tx"
  defines "tx' \<equiv> add_chunks k idx (if buf = [] then [] else [buf]) tx"
  shows "append_loop k idx h sz tx [] body =
     (case err of
        None \<Rightarrow> append_loop k (idx + 1) (h @ buf) (sz + int (length buf)) tx' [] body'
      | Some e \<Rightarrow> if e = EOF \<or> e = ErrUnexpectedEOF
                  then (Inr (h @ buf, sz + int (length buf), tx'), [], body')
                  else (Inl (ErrReadBody e), [], body'))"
  using assms insert_chunk_room [OF assms(2)]
  by (cases "buf = []") (simp_all add: append_loop.simps [of k idx h sz tx "[]" body] split: option.splits)

lemma append_loop_stream:
  assumes "reader_wf body" and "room k idx (length (content body)) tx"
  shows "\<exists>body'. append_loop k idx h sz tx [] body =
       (if ending body = EOF \<or> ending body = ErrUnexpectedEOF
        then Inr (h @ content body, sz + int (length (content body)),
                  add_chunks k idx (chunks ChunkBytes (content body)) tx)
        else Inl (ErrReadBody (ending body)), [], body') \<and>
     (reader_over body' \<longleftrightarrow> reader_over body \<or> ending body = ErrBodyTooLarge)"
  using assms
proof (induction "reads_left body" arbitrary: body idx h sz tx rule: less_induct)
  case less
  obtain buf err body1 where rd: "ReadFull ChunkBytes body = (buf, err, body1)" by (metis prod_cases3)
  note law = ReadFull_stream [OF rd less.prems(1)]
  note step = append_loop_step [OF rd less.prems(2), of h sz]
  have cb: "0 < ChunkBytes" by (simp add: ChunkBytes_def)
  show ?case
  proof (cases err)
    case None
    then have len: "length buf = ChunkBytes" by (rule law(4))
    then have ne: "buf \<noteq> []" using cb by auto
    have "reads_left body1 < reads_left body" using ReadFull_progress rd None cb by blast
    moreover have "room k (idx + 1) (length (content body1)) (add_chunks k idx [buf] tx)"
      using room_next [OF less.prems(2) len] law(1) len by simp
    ultimately obtain body' where IH:
      "append_loop k (idx + 1) (h @ buf) (sz + int (length buf)) (add_chunks k idx [buf] tx) [] body1 =
       (if ending body = EOF \<or> ending body = ErrUnexpectedEOF
        then Inr ((h @ buf) @ content body1, sz + int (length buf) + int (length (content body1)),
                  add_chunks k (idx + 1) (chunks ChunkBytes (content body1)) (add_chunks k idx [buf] tx))
        else Inl (ErrReadBody (ending body)), [], body')"
      "reader_over body' \<longleftrightarrow> reader_over body1 \<or> ending body = ErrBodyTooLarge"
      using less.hyps law(2,3) by metis
    have "chunks ChunkBytes (content body) = buf # chunks ChunkBytes (content body1)"
      using law(1) len ne by (simp add: chunks_step [OF cb])
    then have "add_chunks k idx (chunks ChunkBytes (content body)) tx =
        add_chunks k (idx + 1) (chunks ChunkBytes (content body1)) (add_chunks k idx [buf] tx)"
      using add_chunks_Cons [of k idx buf "chunks ChunkBytes (content body1)" tx] by simp
    with IH step None ne law(1) law(9,10) show ?thesis by auto
  next
    case (Some e)
    have chunks: "chunks ChunkBytes buf = (if buf = [] then [] else [buf])"
      using law(5) [OF Some] by (simp add: chunks_step [OF cb])
    show ?thesis
    proof (cases "ending body = EOF \<or> ending body = ErrUnexpectedEOF")
      case True
      with law(7) [OF Some] have "content body1 = []" by auto
      with True law(1) law(6) [OF Some] law(8) [OF Some] step Some chunks show ?thesis
        by (auto split: if_splits)
    next
      case False
      with law(6) [OF Some] law(8) [OF Some] step Some show ?thesis by auto
    qed
  qed
qed

end
