(* ===== verification/Postgres_Contract.thy ===== *)
theory Postgres_Contract
  imports Postgres_Store
begin

text \<open>
  The PostgreSQL store meets the contract of \<open>Blob_Types\<close>. The abstract log of a
  generation is its \<open>blob_log\<close> rows in sequence order, each with the concatenation of its
  \<open>blob_chunks\<close> rows; \<open>tbl_ok\<close> is the invariant of the two tables. The contract holds on a
  database that answers (\<open>pg_ok\<close>: no faults ahead); what happens under an arbitrary script
  of faults is proved separately at the end.
\<close>

section \<open>Abstraction and invariant\<close>

definition rows_of :: "tables \<Rightarrow> string \<Rightarrow> string \<Rightarrow> int \<Rightarrow> log_row list" where
  "rows_of t p d g = filter (log_in p d g) (blob_log t)"

definition data_of :: "tables \<Rightarrow> log_row \<Rightarrow> bytes" where
  "data_of t l = concat (chunks_for t (l_pseudonym l) (l_device_id l) (l_generation l) (l_seq l))"

definition stored_of_log :: "tables \<Rightarrow> log_row \<Rightarrow> stored" where
  "stored_of_log t l =
     \<lparr>s_data = data_of t l, s_prev = (case l_prev_sha256 l of None \<Rightarrow> '''' | Some s \<Rightarrow> s),
      s_created = l_created_at l\<rparr>"

definition tbl_logs :: "tables \<Rightarrow> logs" where
  "tbl_logs t p d g = map (stored_of_log t) (sort_key l_seq (rows_of t p d g))"

definition log_row_ok :: "tables \<Rightarrow> log_row \<Rightarrow> bool" where
  "log_row_ok t l \<longleftrightarrow> 1 \<le> l_generation l \<and> data_of t l \<noteq> [] \<and>
     l_sha256 l = sha256_hex (data_of t l) \<and> l_size l = int (length (data_of t l))"

definition chunk_row_ok :: "tables \<Rightarrow> chunk_row \<Rightarrow> bool" where
  "chunk_row_ok t c \<longleftrightarrow> ch_chunk c \<noteq> [] \<and> length (ch_chunk c) \<le> ChunkBytes \<and>
     (\<exists>l \<in> set (blob_log t). log_in (ch_pseudonym c) (ch_device_id c) (ch_generation c) l \<and>
        l_seq l = ch_seq c)"

definition tbl_ok :: "tables \<Rightarrow> bool" where
  "tbl_ok t \<longleftrightarrow> (\<forall>p d g. contiguous l_seq (rows_of t p d g)) \<and>
     (\<forall>l \<in> set (blob_log t). log_row_ok t l) \<and> (\<forall>c \<in> set (blob_chunks t). chunk_row_ok t c)"

definition pg_ok :: "database \<Rightarrow> bool" where
  "pg_ok db \<longleftrightarrow> tbl_ok (db_tables db) \<and> db_faults db = []"

definition pg_logs :: "database \<Rightarrow> logs" where
  "pg_logs db = tbl_logs (db_tables db)"

definition empty_tables :: tables where
  "empty_tables = \<lparr>blob_log = [], blob_chunks = [], auth_nonces = []\<rparr>"

lemma tbl_ok_empty [simp]: "tbl_ok empty_tables"
  by (simp add: tbl_ok_def empty_tables_def rows_of_def)

lemma tbl_okD:
  assumes "tbl_ok t"
  shows "contiguous l_seq (rows_of t p d g)"
    and "l \<in> set (blob_log t) \<Longrightarrow> log_row_ok t l"
    and "c \<in> set (blob_chunks t) \<Longrightarrow> chunk_row_ok t c"
  using assms by (auto simp: tbl_ok_def)

lemma rows_ofD: "l \<in> set (rows_of t p d g) \<longleftrightarrow>
    l \<in> set (blob_log t) \<and> l_pseudonym l = p \<and> l_device_id l = d \<and> l_generation l = g"
  by (auto simp: rows_of_def log_in_def)

lemma length_tbl_logs [simp]: "length (tbl_logs t p d g) = length (rows_of t p d g)"
  by (simp add: tbl_logs_def)

lemma tbl_logs_Nil_iff [simp]: "tbl_logs t p d g = [] \<longleftrightarrow> rows_of t p d g = []"
  by (metis length_0_conv length_tbl_logs)

lemma tbl_logs_nth:
  assumes "tbl_ok t" and "l \<in> set (rows_of t p d g)"
  shows "tbl_logs t p d g ! nat (l_seq l - 1) = stored_of_log t l"
    and "1 \<le> l_seq l" and "l_seq l \<le> int (length (rows_of t p d g))"
proof -
  note c = tbl_okD(1) [OF assms(1), of p d g]
  show range: "1 \<le> l_seq l" "l_seq l \<le> int (length (rows_of t p d g))"
    using contiguous_range [OF c assms(2)] by auto
  let ?i = "nat (l_seq l - 1)" and ?s = "sort_key l_seq (rows_of t p d g)"
  have i: "?i < length (rows_of t p d g)" using range by auto
  then have "l_seq (?s ! ?i) = l_seq l" using contiguous_nth [OF c i] range by auto
  moreover have "?s ! ?i \<in> set (rows_of t p d g)" using i by (metis length_sort nth_mem set_sort)
  ultimately have "?s ! ?i = l" using contiguous_inj [OF c] assms(2) by blast
  with i show "tbl_logs t p d g ! ?i = stored_of_log t l" by (simp add: tbl_logs_def)
qed

lemma tbl_row_at:
  assumes "tbl_ok t" and "1 \<le> q" and "q \<le> int (length (rows_of t p d g))"
  obtains l where "l \<in> set (rows_of t p d g)" and "l_seq l = q"
proof -
  have "q \<in> l_seq ` set (rows_of t p d g)"
    using tbl_okD(1) [OF assms(1), of p d g] assms(2,3) by (simp add: contiguous_def)
  with that show thesis by blast
qed

section \<open>Reading\<close>

lemma log_entries_tbl:
  assumes "tbl_ok t"
  shows "log_entries (tbl_logs t p d g) = map entry_of_log (sort_key l_seq (rows_of t p d g))"
proof (rule nth_equalityI)
  fix i assume "i < length (log_entries (tbl_logs t p d g))"
  then have i: "i < length (rows_of t p d g)" by simp
  let ?l = "sort_key l_seq (rows_of t p d g) ! i"
  have "?l \<in> set (rows_of t p d g)" using i by (metis length_sort nth_mem set_sort)
  then have "log_row_ok t ?l" using tbl_okD(2) [OF assms] by (simp add: rows_ofD)
  moreover have "l_seq ?l = int i + 1" by (rule contiguous_nth [OF tbl_okD(1) [OF assms] i])
  ultimately show "log_entries (tbl_logs t p d g) ! i =
      map entry_of_log (sort_key l_seq (rows_of t p d g)) ! i"
    using i by (simp add: entry_at_def entry_of_log_def tbl_logs_def stored_of_log_def log_row_ok_def)
qed simp

lemma select_index_page:
  assumes "tbl_ok t" and "name_ok p" "name_ok d" "int4_ok g" "int4_ok from" "0 \<le> limit"
  shows "\<exists>rows. select_index t p d g from limit = Inr rows \<and>
           map entry_of_log rows = index_page (tbl_logs t p d g) from limit"
proof -
  have "filter (\<lambda>l. log_in p d g l \<and> l_seq l \<ge> from) (blob_log t) =
      filter (\<lambda>l. l_seq l \<ge> from) (rows_of t p d g)"
    by (simp add: rows_of_def conj_commute)
  moreover have "(\<lambda>e. from \<le> ent_Seq e) \<circ> entry_of_log = (\<lambda>l. from \<le> l_seq l)"
    by (auto simp: entry_of_log_def)
  ultimately show ?thesis
    using assms unfolding select_index_def index_page_def
    by (subst checked_ok) (auto simp: text_ok_name log_entries_tbl filter_map take_map filter_sort)
qed

lemma find_filter: "find (\<lambda>x. P x \<and> Q x) xs = find Q (filter P xs)"
  by (induction xs) auto

lemma find_row:
  assumes "tbl_ok t"
  shows "l \<in> set (rows_of t p d g) \<Longrightarrow> find (\<lambda>x. log_in p d g x \<and> l_seq x = l_seq l) (blob_log t) = Some l"
    and "q > int (length (rows_of t p d g)) \<Longrightarrow> find (\<lambda>x. log_in p d g x \<and> l_seq x = q) (blob_log t) = None"
proof -
  note c = tbl_okD(1) [OF assms, of p d g]
  show "find (\<lambda>x. log_in p d g x \<and> l_seq x = l_seq l) (blob_log t) = Some l"
    if l: "l \<in> set (rows_of t p d g)"
  proof (cases "find (\<lambda>x. l_seq x = l_seq l) (rows_of t p d g)")
    case (Some x)
    then have "x \<in> set (rows_of t p d g)" "l_seq x = l_seq l" by (auto simp: find_Some_iff)
    with Some l contiguous_inj [OF c] show ?thesis by (simp add: find_filter rows_of_def)
  qed (use l in \<open>auto simp: find_None_iff\<close>)
  show "find (\<lambda>x. log_in p d g x \<and> l_seq x = q) (blob_log t) = None"
    if "q > int (length (rows_of t p d g))"
    using that contiguous_range [OF c] by (fastforce simp: find_filter find_None_iff rows_of_def)
qed

lemma select_max_seq_ok:
  assumes "tbl_ok t" and "key_ok k"
  defines "n \<equiv> length (log_of (tbl_logs t) k)"
  shows "select_max_seq t k = Inr (if n = 0 then None else Some (int n))"
proof -
  let ?rows = "rows_of t (key_Pseudonym k) (key_DeviceID k) (key_Generation k)"
  have "sql_max l_seq ?rows = (if n = 0 then None else Some (int n))"
    using contiguous_Max [OF tbl_okD(1) [OF assms(1)]] by (auto simp: sql_max_def n_def log_of_def)
  with assms(2) show ?thesis
    unfolding select_max_seq_def rows_of_def
    by (subst checked_ok) (auto simp: text_ok_name key_ok_def)
qed

section \<open>The manifest query\<close>

lemma distinct_on_subset: "set (distinct_on f xs) \<subseteq> set xs"
  by (induction f xs rule: distinct_on.induct) (auto dest: set_dropWhileD)

lemma distinct_on_image: "f ` set (distinct_on f xs) = f ` set xs"
proof (induction f xs rule: distinct_on.induct)
  case (2 f x xs)
  have "set xs = set (takeWhile (\<lambda>y. f y = f x) xs) \<union> set (dropWhile (\<lambda>y. f y = f x) xs)"
    by (metis set_append takeWhile_dropWhile_id)
  with 2 show ?case by (auto dest: set_takeWhileD)
qed simp

lemma sorted_dropWhile_neq:
  assumes "sorted (map f (x # xs))" and "y \<in> set (dropWhile (\<lambda>y. f y = f x) xs)"
  shows "f x < f y"
proof (cases "dropWhile (\<lambda>y. f y = f x) xs")
  case (Cons z zs)
  have "f z \<noteq> f x" using hd_dropWhile [of "\<lambda>y. f y = f x" xs] Cons by auto
  moreover have "sorted (map f (dropWhile (\<lambda>y. f y = f x) xs))"
    using assms(1) by (simp add: dropWhile_eq_drop drop_map [symmetric] sorted_wrt_drop)
  then have "f z \<le> f y" using assms(2) Cons by auto
  moreover have "f x \<le> f z" using assms(1) Cons set_dropWhileD [of z "\<lambda>y. f y = f x" xs] by simp
  ultimately show ?thesis by auto
qed (use assms in \<open>simp del: dropWhile_eq_Nil_conv\<close>)

lemma distinct_on_sorted:
  assumes "sorted (map f xs)"
  shows "map f (distinct_on f xs) = sorted_list_of_set (f ` set xs)"
proof (rule sorted_distinct_set_unique)
  have "sorted_wrt (<) (map f (distinct_on f xs))"
    using assms
  proof (induction f xs rule: distinct_on.induct)
    case (2 f x xs)
    have "sorted (map f (dropWhile (\<lambda>y. f y = f x) xs))"
      using 2(2) by (simp add: dropWhile_eq_drop drop_map [symmetric] sorted_wrt_drop)
    with 2 sorted_dropWhile_neq [OF 2(2)] distinct_on_subset show ?case by fastforce
  qed simp
  then show "sorted (map f (distinct_on f xs))" "distinct (map f (distinct_on f xs))"
    by (auto simp: strict_sorted_iff)
qed (simp_all add: distinct_on_image)

lemma distinct_on_first:
  assumes "sorted (map f xs)" and "sorted (map key xs)"
    and "x \<in> set (distinct_on f xs)" and "y \<in> set xs" and "f y = f x"
  shows "key x \<le> key y"
  using assms
proof (induction f xs rule: distinct_on.induct)
  case (2 f z zs)
  let ?r = "dropWhile (\<lambda>y. f y = f z) zs"
  show ?case
  proof (cases "x = z")
    case False
    with 2 have x: "x \<in> set (distinct_on f ?r)" by simp
    then have "f z < f x" using sorted_dropWhile_neq [OF 2(2)] distinct_on_subset by fastforce
    with 2 have "y \<in> set ?r"
      by (metis dual_order.irrefl set_ConsD set_append set_takeWhileD takeWhile_dropWhile_id Un_iff)
    with 2 x show ?thesis
      by (simp add: dropWhile_eq_drop drop_map [symmetric] sorted_wrt_drop)
  qed (use 2 in auto)
qed simp

text \<open>The row the query keeps for a generation is its head, whose summary is the contract's.\<close>

lemma manifest_row_head:
  assumes "tbl_ok t" and "l \<in> set (rows_of t p d g)"
    and "l_seq l = int (length (rows_of t p d g))"
  shows "manifest_row (filter (\<lambda>l. l_pseudonym l = p) (blob_log t)) l = summary_of d g (tbl_logs t p d g)"
proof -
  let ?rs = "rows_of t p d g" and ?L = "tbl_logs t p d g"
  have l: "l_device_id l = d" "l_generation l = g" using assms(2) by (auto simp: rows_ofD)
  have part: "filter (\<lambda>x. l_device_id x = d \<and> l_generation x = g)
      (filter (\<lambda>l. l_pseudonym l = p) (blob_log t)) = ?rs"
    by (auto simp: rows_of_def log_in_def intro!: filter_cong)
  have ok: "log_row_ok t x" if "x \<in> set ?rs" for x
    using that tbl_okD(2) [OF assms(1)] by (simp add: rows_ofD)
  have pos: "?rs \<noteq> []" using assms(2) by auto
  have "nat (l_seq l - 1) = length ?rs - 1" using assms(3) by linarith
  then have "last ?L = ?L ! nat (l_seq l - 1)" using pos by (simp add: last_conv_nth)
  also have "\<dots> = stored_of_log t l" by (rule tbl_logs_nth [OF assms(1,2)])
  finally have sha: "sha256_hex (s_data (last ?L)) = l_sha256 l"
    using ok [OF assms(2)] by (simp add: stored_of_log_def log_row_ok_def)
  have "mset (map (\<lambda>st. int (length (s_data st))) ?L) = mset (map l_size ?rs)"
    using ok by (auto simp: tbl_logs_def stored_of_log_def log_row_ok_def intro!: image_mset_cong)
  then have bytes: "sum_list (map (\<lambda>st. int (length (s_data st))) ?L) = sum_list (map l_size ?rs)"
    by (metis sum_mset_sum_list)
  have "s_created ` set ?L = set (map l_created_at ?rs)"
    by (simp add: tbl_logs_def image_image stored_of_log_def)
  with sha bytes l part assms(3) show ?thesis
    by (simp add: manifest_row_def summary_of_def Let_def)
qed

lemma live_gens_tbl:
  "live_gens (tbl_logs t) p =
     (\<lambda>l. (l_device_id l, l_generation l)) ` set (filter (\<lambda>l. l_pseudonym l = p) (blob_log t))"
proof -
  have "rows_of t p d g \<noteq> [] \<longleftrightarrow>
      (\<exists>l \<in> set (blob_log t). l_pseudonym l = p \<and> (d, g) = (l_device_id l, l_generation l))" for d g
    by (auto simp: rows_of_def log_in_def filter_empty_conv)
  then show ?thesis by (auto simp: live_gens_def)
qed

lemma finite_live_gens_tbl [simp]: "finite (live_gens (tbl_logs t) p)"
  by (simp add: live_gens_tbl)

lemma select_manifest_ok:
  assumes "tbl_ok t" and "name_ok p"
  shows "select_manifest t p = Inr (manifest_of (tbl_logs t) p)"
proof -
  let ?rows = "filter (\<lambda>l. l_pseudonym l = p) (blob_log t)"
  let ?key = "\<lambda>l. (l_device_id l, l_generation l, - l_seq l)"
    and ?f = "\<lambda>l. (l_device_id l, l_generation l)"
  let ?ord = "sort_key ?key ?rows"
  have key: "sorted (map ?key ?ord)" by simp
  then have f: "sorted (map ?f ?ord)"
    by (auto simp: sorted_wrt_map less_eq_prod_def elim!: sorted_wrt_mono_rel [rotated])
  have row: "manifest_row ?rows l = (\<lambda>(d, g). summary_of d g (tbl_logs t p d g)) (?f l)"
    if l: "l \<in> set (distinct_on ?f ?ord)" for l
  proof -
    let ?rs = "rows_of t p (l_device_id l) (l_generation l)"
    have l_rs: "l \<in> set ?rs" using l distinct_on_subset by (fastforce simp: rows_ofD)
    have max: "l_seq x \<le> l_seq l" if "x \<in> set ?rs" for x
      using distinct_on_first [OF f key l, of x] that by (simp add: rows_ofD less_eq_prod_def)
    have "1 \<le> int (length ?rs)" using l_rs by (cases ?rs) auto
    then obtain x where "x \<in> set ?rs" "l_seq x = int (length ?rs)"
      using tbl_row_at [OF assms(1)] by blast
    with max have "l_seq l = int (length ?rs)"
      using tbl_logs_nth(3) [OF assms(1) l_rs] by force
    then show ?thesis using manifest_row_head [OF assms(1) l_rs] by simp
  qed
  have "map (manifest_row ?rows) (distinct_on ?f ?ord) =
      map (\<lambda>(d, g). summary_of d g (tbl_logs t p d g)) (map ?f (distinct_on ?f ?ord))"
    using row by simp
  also have "\<dots> = manifest_of (tbl_logs t) p"
    by (simp only: distinct_on_sorted [OF f] manifest_of_def live_gens_tbl set_sort)
  finally show ?thesis
    using assms(2) unfolding select_manifest_def
    by (subst checked_ok) (auto simp: text_ok_name Let_def)
qed

section \<open>Appending\<close>

lemma chunk_rows_key:
  "c \<in> set (chunk_rows k idx bs) \<Longrightarrow> chunk_of_key k c \<and> idx \<le> ch_idx c \<and> ch_chunk c \<in> set bs"
  by (induction k idx bs rule: chunk_rows.induct) (auto simp: chunk_of_key_def chunk_in_def)

lemma chunk_rows_sorted:
  "sorted (map ch_idx (chunk_rows k idx bs))" "map ch_chunk (chunk_rows k idx bs) = bs"
  by (induction k idx bs rule: chunk_rows.induct) (auto dest: chunk_rows_key)

lemma chunks_for_conv:
  "chunks_for t (key_Pseudonym k) (key_DeviceID k) (key_Generation k) (key_Seq k) =
     map ch_chunk (sort_key ch_idx (filter (chunk_of_key k) (blob_chunks t)))"
  by (simp add: chunks_for_def chunk_of_key_def [abs_def])

lemma chunks_for_log [simp]: "chunks_for (t\<lparr>blob_log := x\<rparr>) = chunks_for t"
  by (intro ext) (simp add: chunks_for_def)

lemma data_of_log [simp]: "data_of (t\<lparr>blob_log := x\<rparr>) = data_of t"
  by (intro ext) (simp add: data_of_def)

lemma chunks_for_add:
  assumes "\<forall>c \<in> set (blob_chunks t). \<not> chunk_of_key k c"
  shows "chunks_for (add_chunks k idx bs t) (key_Pseudonym k) (key_DeviceID k) (key_Generation k) (key_Seq k) = bs"
    and "(p, d, g, q) \<noteq> (key_Pseudonym k, key_DeviceID k, key_Generation k, key_Seq k) \<Longrightarrow>
      chunks_for (add_chunks k idx bs t) p d g q = chunks_for t p d g q"
proof -
  have "filter (chunk_of_key k) (blob_chunks t @ chunk_rows k idx bs) = chunk_rows k idx bs"
    using assms by (simp add: filter_True chunk_rows_key)
  then show "chunks_for (add_chunks k idx bs t) (key_Pseudonym k) (key_DeviceID k) (key_Generation k) (key_Seq k) = bs"
    by (simp add: chunks_for_conv add_chunks_def chunk_rows_sorted sort_key_id_if_sorted)
  assume ne: "(p, d, g, q) \<noteq> (key_Pseudonym k, key_DeviceID k, key_Generation k, key_Seq k)"
  have "filter (\<lambda>c. chunk_in p d g c \<and> ch_seq c = q) (chunk_rows k idx bs) = []"
    using ne by (auto simp: filter_empty_conv chunk_of_key_def chunk_in_def dest!: chunk_rows_key)
  then show "chunks_for (add_chunks k idx bs t) p d g q = chunks_for t p d g q"
    by (simp add: chunks_for_def add_chunks_def)
qed

text \<open>A key whose sequence number is past the head has no chunks yet.\<close>

lemma no_chunks_ahead:
  assumes "tbl_ok t" and "key_Seq k > int (length (log_of (tbl_logs t) k))"
  shows "\<forall>c \<in> set (blob_chunks t). \<not> chunk_of_key k c"
proof
  fix c assume c: "c \<in> set (blob_chunks t)"
  show "\<not> chunk_of_key k c"
  proof
    assume "chunk_of_key k c"
    then obtain l where "l \<in> set (rows_of t (key_Pseudonym k) (key_DeviceID k) (key_Generation k))"
      "l_seq l = key_Seq k"
      using tbl_okD(3) [OF assms(1) c]
      by (auto simp: chunk_row_ok_def chunk_of_key_def chunk_in_def log_in_def rows_ofD)
    then show False using tbl_logs_nth(3) [OF assms(1)] assms(2) by (fastforce simp: log_of_def)
  qed
qed

definition new_row :: "BlobKey \<Rightarrow> string \<Rightarrow> time \<Rightarrow> bytes \<Rightarrow> log_row" where
  "new_row k prev now data =
     \<lparr>l_pseudonym = key_Pseudonym k, l_device_id = key_DeviceID k, l_generation = key_Generation k,
      l_seq = key_Seq k, l_sha256 = sha256_hex data, l_prev_sha256 = nullable prev,
      l_size = int (length data), l_created_at = now\<rparr>"

definition append_tables :: "BlobKey \<Rightarrow> string \<Rightarrow> time \<Rightarrow> bytes \<Rightarrow> tables \<Rightarrow> tables" where
  "append_tables k prev now data t =
     (add_chunks k 0 (chunks ChunkBytes data) t)\<lparr>blob_log := blob_log t @ [new_row k prev now data]\<rparr>"

lemma rows_of_append:
  "rows_of (append_tables k prev now data t) p d g =
     (if (p, d, g) = (key_Pseudonym k, key_DeviceID k, key_Generation k)
      then rows_of t p d g @ [new_row k prev now data] else rows_of t p d g)"
  by (auto simp: rows_of_def append_tables_def log_in_def new_row_def)

lemma data_of_append:
  assumes "tbl_ok t" and "key_Seq k = int (length (log_of (tbl_logs t) k)) + 1"
  shows "data_of (append_tables k prev now data t) (new_row k prev now data) = data"
    and "l \<in> set (blob_log t) \<Longrightarrow> data_of (append_tables k prev now data t) l = data_of t l"
proof -
  have none: "\<forall>c \<in> set (blob_chunks t). \<not> chunk_of_key k c"
    using no_chunks_ahead [OF assms(1)] assms(2) by simp
  show "data_of (append_tables k prev now data t) (new_row k prev now data) = data"
    by (simp add: data_of_def append_tables_def new_row_def chunks_for_add(1) [OF none] ChunkBytes_def)
  assume l: "l \<in> set (blob_log t)"
  have "(l_pseudonym l, l_device_id l, l_generation l, l_seq l) \<noteq>
      (key_Pseudonym k, key_DeviceID k, key_Generation k, key_Seq k)"
    using tbl_logs_nth(3) [OF assms(1), of l] l assms(2) by (auto simp: rows_ofD log_of_def)
  then show "data_of (append_tables k prev now data t) l = data_of t l"
    by (simp add: data_of_def append_tables_def chunks_for_add(2) [OF none])
qed

lemma nullable_text [simp]: "(case nullable s of None \<Rightarrow> '''' | Some x \<Rightarrow> x) = s"
  by (simp add: nullable_def)

lemma tbl_logs_append:
  assumes "tbl_ok t" and "key_Seq k = int (length (log_of (tbl_logs t) k)) + 1"
  shows "tbl_logs (append_tables k prev now data t) =
     logs_append (tbl_logs t) k \<lparr>s_data = data, s_prev = prev, s_created = now\<rparr>"
proof (intro ext)
  fix p d g
  let ?t = "append_tables k prev now data t" and ?r = "new_row k prev now data"
  have old: "map (stored_of_log ?t) (sort_key l_seq (rows_of t p d g)) = tbl_logs t p d g"
    using data_of_append(2) [OF assms] by (auto simp: tbl_logs_def stored_of_log_def rows_ofD)
  have new: "stored_of_log ?t ?r = \<lparr>s_data = data, s_prev = prev, s_created = now\<rparr>"
    using data_of_append(1) [OF assms] by (simp add: stored_of_log_def) (simp add: new_row_def)
  show "tbl_logs ?t p d g =
      logs_append (tbl_logs t) k \<lparr>s_data = data, s_prev = prev, s_created = now\<rparr> p d g"
  proof (cases "(p, d, g) = (key_Pseudonym k, key_DeviceID k, key_Generation k)")
    case True
    have "l_seq ?r = int (length (rows_of t p d g)) + 1"
      using assms(2) True by (simp add: new_row_def log_of_def)
    then have "sort_key l_seq (rows_of t p d g @ [?r]) = sort_key l_seq (rows_of t p d g) @ [?r]"
      by (rule sort_key_snoc_next [OF tbl_okD(1) [OF assms(1)]])
    with True old new show ?thesis
      unfolding tbl_logs_def [of ?t] rows_of_append by (simp add: logs_append_def set_log_def log_of_def)
  next
    case False
    with old show ?thesis
      unfolding tbl_logs_def [of ?t] rows_of_append by (auto simp: logs_append_other)
  qed
qed

lemma tbl_ok_append:
  assumes "tbl_ok t" and "key_Seq k = int (length (log_of (tbl_logs t) k)) + 1"
    and "1 \<le> key_Generation k" and "data \<noteq> []"
  shows "tbl_ok (append_tables k prev now data t)"
proof -
  let ?t = "append_tables k prev now data t" and ?r = "new_row k prev now data"
  have "contiguous l_seq (rows_of ?t p d g)" for p d g
    using tbl_okD(1) [OF assms(1), of p d g] assms(2)
    by (auto simp: rows_of_append new_row_def log_of_def intro!: contiguous_snoc)
  moreover have "log_row_ok ?t l" if "l \<in> set (blob_log ?t)" for l
  proof (cases "l \<in> set (blob_log t)")
    case True
    then show ?thesis using tbl_okD(2) [OF assms(1)] data_of_append(2) [OF assms(1,2)]
      by (simp add: log_row_ok_def)
  next
    case False
    with that have "l = ?r" by (simp add: append_tables_def)
    then show ?thesis using assms(3,4) data_of_append(1) [OF assms(1,2), of prev now data]
      by (simp add: log_row_ok_def) (simp add: new_row_def)
  qed
  moreover have "chunk_row_ok ?t c" if "c \<in> set (blob_chunks ?t)" for c
  proof (cases "c \<in> set (blob_chunks t)")
    case True
    then show ?thesis using tbl_okD(3) [OF assms(1)]
      by (auto simp: chunk_row_ok_def append_tables_def)
  next
    case False
    with that have "c \<in> set (chunk_rows k 0 (chunks ChunkBytes data))"
      by (simp add: append_tables_def add_chunks_def)
    then show ?thesis using chunk_rows_key chunks_bounds
      by (fastforce simp: chunk_row_ok_def append_tables_def new_row_def log_in_def chunk_of_key_def chunk_in_def)
  qed
  ultimately show ?thesis by (simp add: tbl_ok_def)
qed

section \<open>The operations on a database that answers\<close>

lemma room_initial:
  assumes "tbl_ok t" and "key_ok k" and "key_Seq k = int (length (log_of (tbl_logs t) k)) + 1"
    and "n < 2 ^ 51"
  shows "room k 0 n t"
  using no_chunks_ahead [OF assms(1), of k] assms by (auto simp: room_def ChunkBytes_def)

lemma insert_log_next:
  assumes "tbl_ok t" and "key_ok k" and "key_Seq k = int (length (log_of (tbl_logs t) k)) + 1"
    and "name_ok prev"
  shows "insert_log (add_chunks k 0 (chunks ChunkBytes data) t) now k (sha256_hex data) (nullable prev)
           (int (length data)) = Inr (append_tables k prev now data t)"
proof -
  have "\<not> (\<exists>l \<in> set (blob_log t). log_in (key_Pseudonym k) (key_DeviceID k) (key_Generation k) l \<and>
      l_seq l = key_Seq k)"
    using tbl_logs_nth(3) [OF assms(1)] assms(3) by (fastforce simp: rows_ofD log_in_def log_of_def)
  moreover have "name_ok (sha256_hex data)"
    using sha256_hex_lower [of _ data] by (fastforce simp: name_ok_def is_lower_hex_def is_digit_def)
  ultimately show ?thesis
    using assms(2,4) unfolding insert_log_def
    by (subst checked_ok)
      (auto simp: key_ok_def text_ok_name nullable_def add_chunks_def append_tables_def new_row_def
        split: if_splits)
qed

lemma append_loop_body:
  assumes "tbl_ok t" "key_ok k" "key_Seq k = int (length (log_of (tbl_logs t) k)) + 1"
    and "reader_wf body" "chunkable body"
  obtains body' where
    "append_loop k 0 [] 0 t [] body =
       (if ending body = EOF \<or> ending body = ErrUnexpectedEOF
        then Inr (content body, int (length (content body)),
                  add_chunks k 0 (chunks ChunkBytes (content body)) t)
        else Inl (ErrReadBody (ending body)), [], body')"
    "reader_over body' \<longleftrightarrow> reader_over body \<or> ending body = ErrBodyTooLarge"
proof -
  have "room k 0 (length (content body)) t"
    using room_initial [OF assms(1-3)] assms(5) by (simp add: chunkable_def)
  from append_loop_stream [OF assms(4) this, of "[]" 0, unfolded append_Nil add_0]
  show thesis using that by (elim exE conjE)
qed

lemma PostgresStore_Append_at_head:
  assumes "pg_ok db" "key_ok k" "key_Seq k = int (length (log_of (pg_logs db) k)) + 1"
  shows "PostgresStore_Append db k prev body =
     (case append_loop k 0 [] 0 (db_tables db) [] body of
        (Inl e, fs, body') \<Rightarrow> (Inl e, db\<lparr>db_faults := fs\<rparr>, body')
      | (Inr (hashed, sz, tx), fs, body') \<Rightarrow>
        (if sz = 0 then (Inl ErrEmptyBlob, db\<lparr>db_faults := fs\<rparr>, body')
         else (case exec fs (insert_log tx (db_now db) k (sha256_hex hashed) (nullable prev) sz) of
                 (Inl e, fs) \<Rightarrow> (Inl (asSeqConflict e), db\<lparr>db_faults := fs\<rparr>, body')
               | (Inr tx, fs) \<Rightarrow>
                 (case commit fs (db_tables db) tx of
                    (err, t, fs) \<Rightarrow>
                      (case asNilOrSeqConflict err of Some e \<Rightarrow> Inl e | None \<Rightarrow> Inr (sha256_hex hashed, sz),
                       db\<lparr>db_tables := t, db_faults := fs\<rparr>, body')))))"
proof -
  have ok: "tbl_ok (db_tables db)" "db_faults db = []" using assms(1) by (auto simp: pg_ok_def)
  show ?thesis
    unfolding PostgresStore_Append_def using ok assms(3)
    by (auto simp: select_max_seq_ok [OF ok(1) assms(2)] Let_def pg_logs_def)
qed

text \<open>
  \<open>Append\<close> at the next sequence number, on every way the body can end. An end of stream and
  an unexpected end of stream are treated alike.
\<close>

lemma PostgresStore_Append_next:
  assumes "pg_ok db" "key_ok k" "reader_wf body" "chunkable body"
    and "key_Seq k = int (length (log_of (pg_logs db) k)) + 1"
    and "name_ok prev \<or> content body = [] \<or> (ending body \<noteq> EOF \<and> ending body \<noteq> ErrUnexpectedEOF)"
  shows "\<exists>body'. PostgresStore_Append db k prev body =
      (if ending body \<noteq> EOF \<and> ending body \<noteq> ErrUnexpectedEOF
       then (Inl (ErrReadBody (ending body)), db, body')
       else if content body = [] then (Inl ErrEmptyBlob, db, body')
       else (Inr (sha256_hex (content body), int (length (content body))),
             db\<lparr>db_tables := append_tables k prev (db_now db) (content body) (db_tables db)\<rparr>, body')) \<and>
     (reader_over body' \<longleftrightarrow> reader_over body \<or> ending body = ErrBodyTooLarge)"
proof -
  have ok: "tbl_ok (db_tables db)" "db_faults db = []" using assms(1) by (auto simp: pg_ok_def)
  then have upd [simp]: "db\<lparr>db_faults := []\<rparr> = db" "db\<lparr>db_tables := x, db_faults := []\<rparr> = db\<lparr>db_tables := x\<rparr>" for x
    by simp_all
  note seq = assms(5) [unfolded pg_logs_def]
  obtain body' where loop: "append_loop k 0 [] 0 (db_tables db) [] body =
       (if ending body = EOF \<or> ending body = ErrUnexpectedEOF
        then Inr (content body, int (length (content body)),
                  add_chunks k 0 (chunks ChunkBytes (content body)) (db_tables db))
        else Inl (ErrReadBody (ending body)), [], body')"
    "reader_over body' \<longleftrightarrow> reader_over body \<or> ending body = ErrBodyTooLarge"
    using append_loop_body [OF ok(1) assms(2) seq assms(3,4)] .
  note PostgresStore_Append_at_head [OF assms(1,2,5), of prev body]
  also note loop(1)
  finally show ?thesis
    using loop(2) insert_log_next [OF ok(1) assms(2) seq, of prev] assms(6)
    by (auto simp: asNilOrSeqConflict_def)
qed

lemma PostgresStore_Append_conflict:
  assumes "pg_ok db" "key_ok k" and "key_Seq k \<noteq> int (length (log_of (pg_logs db) k)) + 1"
  shows "PostgresStore_Append db k prev body =
     (Inl (ErrSeqConflict (ExpectedSeq (int (length (log_of (pg_logs db) k)) + 1) (key_Seq k))), db, body)"
  using assms select_max_seq_ok [of "db_tables db" k]
  unfolding PostgresStore_Append_def pg_ok_def pg_logs_def by (auto simp: Let_def)

lemma PostgresStore_Get_found:
  assumes "pg_ok db" "key_ok k" and "key_Seq k \<le> int (length (log_of (pg_logs db) k))"
  defines "st \<equiv> log_of (pg_logs db) k ! nat (key_Seq k - 1)"
  shows "\<exists>r. PostgresStore_Get db k = (Inr (r, int (length (s_data st))), db) \<and>
       stream r = (s_data st, EOF)"
proof -
  let ?t = "db_tables db"
  have ok: "tbl_ok ?t" "db_faults db = []" using assms(1) by (auto simp: pg_ok_def)
  obtain l where l: "l \<in> set (rows_of ?t (key_Pseudonym k) (key_DeviceID k) (key_Generation k))"
    "l_seq l = key_Seq k"
    using tbl_row_at [OF ok(1)] assms(2,3) by (metis key_ok_def length_tbl_logs log_of_def pg_logs_def)
  then have "st = stored_of_log ?t l"
    using tbl_logs_nth(1) [OF ok(1) l(1)] by (simp add: st_def log_of_def pg_logs_def)
  then have data: "s_data st = concat (chunks_for ?t (key_Pseudonym k) (key_DeviceID k) (key_Generation k) (key_Seq k))"
    "l_size l = int (length (s_data st))"
    using l tbl_okD(2) [OF ok(1), of l]
    by (auto simp: stored_of_log_def data_of_def rows_ofD log_row_ok_def)
  have "select_size ?t k = Inr (Some (l_size l))"
    using find_row(1) [OF ok(1) l(1)] l(2) assms(2) unfolding select_size_def
    by (subst checked_ok) (auto simp: key_ok_def text_ok_name)
  moreover have "select_chunks ?t k =
      Inr (chunks_for ?t (key_Pseudonym k) (key_DeviceID k) (key_Generation k) (key_Seq k))"
    using assms(2) unfolding select_chunks_def
    by (subst checked_ok) (auto simp: key_ok_def text_ok_name)
  ultimately show ?thesis using ok data by (simp add: PostgresStore_Get_def)
qed

lemma PostgresStore_Get_missing:
  assumes "pg_ok db" "key_ok k" and "key_Seq k > int (length (log_of (pg_logs db) k))"
  shows "PostgresStore_Get db k = (Inl ErrNotFound, db)"
proof -
  have ok: "tbl_ok (db_tables db)" "db_faults db = []" using assms(1) by (auto simp: pg_ok_def)
  have "select_size (db_tables db) k = Inr None"
    using find_row(2) [OF ok(1)] assms(2,3) unfolding select_size_def
    by (subst checked_ok) (auto simp: key_ok_def text_ok_name log_of_def pg_logs_def)
  with ok show ?thesis by (simp add: PostgresStore_Get_def)
qed

section \<open>Deleting\<close>

text \<open>Both delete transactions keep the rows of the generations a predicate spares.\<close>

definition spare :: "(string \<Rightarrow> string \<Rightarrow> int \<Rightarrow> bool) \<Rightarrow> tables \<Rightarrow> tables" where
  "spare P t = t\<lparr>blob_chunks := filter (\<lambda>c. P (ch_pseudonym c) (ch_device_id c) (ch_generation c)) (blob_chunks t),
     blob_log := filter (\<lambda>l. P (l_pseudonym l) (l_device_id l) (l_generation l)) (blob_log t)\<rparr>"

lemma rows_of_spare: "rows_of (spare P t) p d g = (if P p d g then rows_of t p d g else [])"
proof (cases "P p d g")
  case True
  then have "filter (log_in p d g) (blob_log (spare P t)) = filter (log_in p d g) (blob_log t)"
    by (auto simp: spare_def log_in_def intro!: filter_cong)
  with True show ?thesis by (simp add: rows_of_def)
qed (auto simp: rows_of_def spare_def log_in_def filter_empty_conv)

lemma data_of_spare:
  assumes "P (l_pseudonym l) (l_device_id l) (l_generation l)"
  shows "data_of (spare P t) l = data_of t l"
proof -
  have "filter (\<lambda>c. chunk_in (l_pseudonym l) (l_device_id l) (l_generation l) c \<and> ch_seq c = l_seq l)
      (blob_chunks (spare P t)) =
    filter (\<lambda>c. chunk_in (l_pseudonym l) (l_device_id l) (l_generation l) c \<and> ch_seq c = l_seq l)
      (blob_chunks t)"
    using assms by (auto simp: spare_def chunk_in_def intro!: filter_cong)
  then show ?thesis by (simp add: data_of_def chunks_for_def)
qed

lemma tbl_logs_spare: "tbl_logs (spare P t) p d g = (if P p d g then tbl_logs t p d g else [])"
  by (auto simp: tbl_logs_def rows_of_spare rows_ofD stored_of_log_def intro!: data_of_spare)

lemma tbl_ok_spare:
  assumes "tbl_ok t"
  shows "tbl_ok (spare P t)"
proof -
  have "log_row_ok (spare P t) l" if "l \<in> set (blob_log (spare P t))" for l
  proof -
    from that have "P (l_pseudonym l) (l_device_id l) (l_generation l)" "l \<in> set (blob_log t)"
      by (auto simp: spare_def)
    then show ?thesis using tbl_okD(2) [OF assms] by (simp add: log_row_ok_def data_of_spare)
  qed
  moreover have "chunk_row_ok (spare P t) c" if "c \<in> set (blob_chunks (spare P t))" for c
    using that tbl_okD(3) [OF assms, of c] by (auto simp: spare_def chunk_row_ok_def log_in_def)
  ultimately show ?thesis
    using tbl_okD(1) [OF assms] by (simp add: tbl_ok_def rows_of_spare)
qed

lemma tbl_account_rows:
  "account_rows (tbl_logs t) p = int (length (filter (\<lambda>l. l_pseudonym l = p) (blob_log t)))"
proof -
  have "length (filter (\<lambda>l. l_pseudonym l = p) (blob_log t)) =
      (\<Sum>a \<in> live_gens (tbl_logs t) p.
         length (filter (\<lambda>l. l_pseudonym l = p \<and> (l_device_id l, l_generation l) = a) (blob_log t)))"
    by (rule filter_partition_length) (auto simp: live_gens_tbl)
  also have "\<dots> = (\<Sum>(d, g) \<in> live_gens (tbl_logs t) p. length (tbl_logs t p d g))"
    by (intro sum.cong refl)
      (auto simp: rows_of_def log_in_def intro!: arg_cong [of _ _ length] filter_cong)
  finally show ?thesis by (simp add: account_rows_def case_prod_unfold)
qed

lemma select_max_generation_ok:
  assumes "name_ok p" "name_ok d"
  shows "select_max_generation t p d =
     Inr (if device_gens (tbl_logs t) p d = {} then None else Some (Max (device_gens (tbl_logs t) p d)))"
proof -
  let ?rows = "filter (\<lambda>l. l_pseudonym l = p \<and> l_device_id l = d) (blob_log t)"
  have gens: "device_gens (tbl_logs t) p d = l_generation ` set ?rows"
    by (auto simp: device_gens_def rows_of_def log_in_def filter_empty_conv)
  show ?thesis
    using assms unfolding select_max_generation_def gens
    by (subst checked_ok) (auto simp: text_ok_name sql_max_def filter_empty_conv)
qed

lemma delete_gen_done:
  assumes "db_faults db = []" and "name_ok p" "name_ok d" "int4_ok g"
  shows "delete_tx db [] (\<lambda>t. delete_gen_chunks t p d g) (\<lambda>t. delete_gen_log t p d g) =
     (Inr (int (length (pg_logs db p d g))),
      db\<lparr>db_tables := spare (\<lambda>p' d' g'. \<not> (p' = p \<and> d' = d \<and> g' = g)) (db_tables db)\<rparr>)"
proof -
  let ?t = "db_tables db"
  let ?t1 = "?t\<lparr>blob_chunks := filter (\<lambda>c. \<not> chunk_in p d g c) (blob_chunks ?t)\<rparr>"
  have "checked [p, d] [g] r = r" for r :: "pq_error + 'b"
    using assms(2-4) by (intro checked_ok) (auto simp: text_ok_name)
  then have "delete_gen_chunks ?t p d g = Inr ?t1"
    "delete_gen_log ?t1 p d g =
       Inr (spare (\<lambda>p' d' g'. \<not> (p' = p \<and> d' = d \<and> g' = g)) ?t, int (length (rows_of ?t p d g)))"
    by (simp_all add: delete_gen_chunks_def delete_gen_log_def spare_def rows_of_def
        log_in_def [abs_def] chunk_in_def [abs_def])
  then show ?thesis using assms(1) by (simp add: delete_tx_def pg_logs_def)
qed

lemma delete_account_done:
  assumes "db_faults db = []" and "name_ok p"
  shows "PostgresStore_DeleteAccount db p =
     (Inr (account_rows (pg_logs db) p), db\<lparr>db_tables := spare (\<lambda>p' d' g'. p' \<noteq> p) (db_tables db)\<rparr>)"
proof -
  let ?t = "db_tables db"
  let ?t1 = "?t\<lparr>blob_chunks := filter (\<lambda>c. ch_pseudonym c \<noteq> p) (blob_chunks ?t)\<rparr>"
  have "checked [p] [] r = r" for r :: "pq_error + 'b"
    using assms(2) by (intro checked_ok) (auto simp: text_ok_name)
  then have "delete_account_chunks ?t p = Inr ?t1"
    "delete_account_log ?t1 p = Inr (spare (\<lambda>p' d' g'. p' \<noteq> p) ?t, account_rows (tbl_logs ?t) p)"
    by (simp_all add: delete_account_chunks_def delete_account_log_def spare_def tbl_account_rows)
  then show ?thesis using assms(1)
    by (simp add: delete_tx_def pg_logs_def PostgresStore_DeleteAccount_def)
qed

section \<open>Under an arbitrary script of faults\<close>

lemma exec_Inr: "exec fs r = (Inr x, fs') \<Longrightarrow> r = Inr x \<and> set fs' \<subseteq> set fs"
  by (auto simp: exec_def split: list.splits outcome.splits)

lemma commit_cases:
  assumes "commit fs old new = (err, t, fs')"
  obtains "err = None" "t = new" | e where "err = Some e" "t = old"
    | e where "err = Some e" "t = new" "Lost e \<in> set fs"
  using assms by (auto simp: commit_def split: list.splits outcome.splits)

lemma checked_Inr: "checked ts ns r = Inr x \<Longrightarrow> r = Inr x"
  by (simp add: checked_def split: option.splits)

lemma insert_chunk_Inr: "insert_chunk t k idx buf = Inr t' \<Longrightarrow> t' = add_chunks k idx [buf] t"
  by (auto simp: insert_chunk_def add_chunks_def dest!: checked_Inr split: if_splits)

lemma insert_log_Inr:
  "insert_log (add_chunks k 0 (chunks ChunkBytes data) t) now k (sha256_hex data) (nullable prev)
     (int (length data)) = Inr t' \<Longrightarrow> t' = append_tables k prev now data t"
  by (auto simp: insert_log_def append_tables_def add_chunks_def new_row_def dest!: checked_Inr split: if_splits)

lemma append_loop_Inr:
  assumes "append_loop k idx h sz tx fs body = (Inr (h', sz', tx'), fs', body')" and "reader_wf body"
  shows "h' = h @ content body \<and> sz' = sz + int (length (content body)) \<and>
     tx' = add_chunks k idx (chunks ChunkBytes (content body)) tx \<and>
     (ending body = EOF \<or> ending body = ErrUnexpectedEOF) \<and> set fs' \<subseteq> set fs"
  using assms
proof (induction "reads_left body" arbitrary: body idx h sz tx fs rule: less_induct)
  case less
  obtain buf err body1 where rd: "ReadFull ChunkBytes body = (buf, err, body1)" by (metis prod_cases3)
  note law = ReadFull_stream [OF rd less.prems(2)]
  have cb: "0 < ChunkBytes" by (simp add: ChunkBytes_def)
  obtain tx1 fs1 where ins: "(if buf \<noteq> [] then exec fs (insert_chunk tx k idx buf) else (Inr tx, fs)) = (Inr tx1, fs1)"
    using less.prems(1) rd
    by (simp add: append_loop.simps [of k idx h sz tx fs body] split: prod.splits sum.splits if_splits)
  then have tx1: "tx1 = add_chunks k idx (if buf = [] then [] else [buf]) tx" "set fs1 \<subseteq> set fs"
    by (auto dest!: exec_Inr insert_chunk_Inr split: if_splits)
  note loop = less.prems(1) [unfolded append_loop.simps [of k idx h sz tx fs body] rd prod.case ins sum.case]
  show ?case
  proof (cases err)
    case None
    then have len: "length buf = ChunkBytes" by (rule law(4))
    then have ne: "buf \<noteq> []" using cb by auto
    have "reads_left body1 < reads_left body" using ReadFull_progress rd None cb by blast
    moreover from loop None have "append_loop k (idx + 1) (h @ buf) (sz + int (length buf)) tx1 fs1 body1 =
        (Inr (h', sz', tx'), fs', body')" by simp
    ultimately have IH: "h' = (h @ buf) @ content body1" "sz' = sz + int (length buf) + int (length (content body1))"
      "tx' = add_chunks k (idx + 1) (chunks ChunkBytes (content body1)) tx1"
      "ending body1 = EOF \<or> ending body1 = ErrUnexpectedEOF" "set fs' \<subseteq> set fs1"
      using less.hyps [OF _ _ law(3)] by blast+
    have "chunks ChunkBytes (content body) = buf # chunks ChunkBytes (content body1)"
      using law(1) len ne by (simp add: chunks_step [OF cb])
    then have "add_chunks k idx (chunks ChunkBytes (content body)) tx = tx'"
      using add_chunks_Cons [of k idx buf "chunks ChunkBytes (content body1)" tx] IH(3) tx1 ne by simp
    with IH tx1 law(1,2) show ?thesis by auto
  next
    case (Some e)
    have chunks: "chunks ChunkBytes buf = (if buf = [] then [] else [buf])"
      using law(5) [OF Some] by (simp add: chunks_step [OF cb])
    have e: "e = EOF \<or> e = ErrUnexpectedEOF" and fin: "h' = h @ buf" "sz' = sz + int (length buf)" "tx' = tx1" "fs' = fs1"
      using loop Some by (auto split: if_splits)
    have ending: "ending body = EOF \<or> ending body = ErrUnexpectedEOF"
      using e law(6) [OF Some] by (auto split: if_splits)
    then have "content body1 = []" using law(7) [OF Some] by auto
    with fin tx1 chunks ending law(1) show ?thesis by auto
  qed
qed

text \<open>
  Every way an \<open>Append\<close> can end: an error with nothing changed, success with the whole
  entry visible, or the whole entry visible and an error, when the reply to COMMIT is lost.
\<close>

lemma PostgresStore_Append_outcomes:
  assumes "PostgresStore_Append db k prev body = (r, db', body')" and "reader_wf body"
  shows "db_now db' = db_now db"
    and "(\<exists>e. r = Inl e \<and> db_tables db' = db_tables db) \<or>
     db_tables db' = append_tables k prev (db_now db) (content body) (db_tables db) \<and>
     content body \<noteq> [] \<and> (ending body = EOF \<or> ending body = ErrUnexpectedEOF) \<and>
     (\<exists>head. select_max_seq (db_tables db) k = Inr head \<and>
        key_Seq k = (case head of None \<Rightarrow> 1 | Some h \<Rightarrow> h + 1)) \<and>
     (r = Inr (sha256_hex (content body), int (length (content body))) \<or>
      (\<exists>e. Lost e \<in> set (db_faults db) \<and> r = Inl (asSeqConflict e)))"
proof -
  show "db_now db' = db_now db"
    using assms(1) unfolding PostgresStore_Append_def Let_def
    by (auto split: prod.splits sum.splits if_splits)
  show "(\<exists>e. r = Inl e \<and> db_tables db' = db_tables db) \<or>
     db_tables db' = append_tables k prev (db_now db) (content body) (db_tables db) \<and>
     content body \<noteq> [] \<and> (ending body = EOF \<or> ending body = ErrUnexpectedEOF) \<and>
     (\<exists>head. select_max_seq (db_tables db) k = Inr head \<and>
        key_Seq k = (case head of None \<Rightarrow> 1 | Some h \<Rightarrow> h + 1)) \<and>
     (r = Inr (sha256_hex (content body), int (length (content body))) \<or>
      (\<exists>e. Lost e \<in> set (db_faults db) \<and> r = Inl (asSeqConflict e)))"
  proof (cases "(\<exists>e. r = Inl e \<and> db_tables db' = db_tables db)")
    case False
    with assms(1) obtain fs1 head fs2 hashed sz tx fs3 tx' fs4 where
      run: "exec (db_faults db) (Inr (db_tables db)) = (Inr (db_tables db), fs1)"
        "exec fs1 (select_max_seq (db_tables db) k) = (Inr head, fs2)"
        "key_Seq k = (case head of None \<Rightarrow> 1 | Some h \<Rightarrow> h + 1)"
        "append_loop k 0 [] 0 (db_tables db) fs2 body = (Inr (hashed, sz, tx), fs3, body')"
        "sz \<noteq> 0"
        "exec fs3 (insert_log tx (db_now db) k (sha256_hex hashed) (nullable prev) sz) = (Inr tx', fs4)"
        "(case commit fs4 (db_tables db) tx' of
           (err, t, fs) \<Rightarrow>
             (case asNilOrSeqConflict err of Some e \<Rightarrow> Inl e | None \<Rightarrow> Inr (sha256_hex hashed, sz),
              db\<lparr>db_tables := t, db_faults := fs\<rparr>, body')) = (r, db', body')"
      unfolding PostgresStore_Append_def Let_def
      by (auto split: prod.splits sum.splits if_splits dest: exec_Inr)
    note loop = append_loop_Inr [OF run(4) assms(2)]
    have tx': "tx' = append_tables k prev (db_now db) (content body) (db_tables db)"
      using run(6) loop by (auto dest!: exec_Inr insert_log_Inr)
    have fs: "set fs4 \<subseteq> set (db_faults db)"
      using run(1,2,6) loop by (auto dest!: exec_Inr)
    obtain err t fs5 where c: "commit fs4 (db_tables db) tx' = (err, t, fs5)" by (metis prod_cases3)
    from c show ?thesis
    proof (cases rule: commit_cases)
      case 2
      with False run(7) c show ?thesis by (auto simp: asNilOrSeqConflict_def)
    qed (use run c loop tx' fs exec_Inr [OF run(2)] in \<open>auto simp: asNilOrSeqConflict_def\<close>)
  qed simp
qed

lemma select_max_seq_Inr:
  assumes "tbl_ok t" and "select_max_seq t k = Inr head"
  shows "(case head of None \<Rightarrow> 1 | Some h \<Rightarrow> h + 1) = int (length (log_of (tbl_logs t) k)) + 1"
  using assms contiguous_Max [OF tbl_okD(1) [OF assms(1)]]
  by (auto simp: select_max_seq_def sql_max_def log_of_def rows_of_def dest!: checked_Inr)

text \<open>However the database answers: an overrun seen is one that the whole body has.\<close>

lemma append_loop_over:
  assumes "append_loop k idx h sz tx fs body = (res, fs', body')" and "reader_wf body" and "reader_over body'"
  shows "reader_over body \<or> ending body = ErrBodyTooLarge"
  using assms
proof (induction "reads_left body" arbitrary: body idx h sz tx fs rule: less_induct)
  case less
  obtain buf err body1 where rd: "ReadFull ChunkBytes body = (buf, err, body1)" by (metis prod_cases3)
  note law = ReadFull_stream [OF rd less.prems(2)]
  obtain r1 fs1 where ins: "(if buf \<noteq> [] then exec fs (insert_chunk tx k idx buf) else (Inr tx, fs)) = (r1, fs1)" by force
  note loop = less.prems(1) [unfolded append_loop.simps [of k idx h sz tx fs body] rd prod.case ins]
  show ?case
  proof (cases "body' = body1")
    case True
    with law(9) less.prems(3) show ?thesis by blast
  next
    case False
    with loop obtain tx1 where none: "err = None" "append_loop k (idx + 1) (h @ buf) (sz + int (length buf)) tx1 fs1 body1 = (res, fs', body')"
      by (auto split: sum.splits option.splits if_splits)
    have "reads_left body1 < reads_left body" using ReadFull_progress rd none(1) by (metis ChunkBytes_def zero_less_numeral)
    from less.hyps [OF this none(2) law(3) less.prems(3)] law(2,9) show ?thesis by auto
  qed
qed

lemma PostgresStore_Append_over:
  assumes "PostgresStore_Append db k prev body = (r, db', body')" and "reader_wf body" and "reader_over body'"
  shows "reader_over body \<or> ending body = ErrBodyTooLarge"
proof (cases "body' = body")
  case False
  with assms(1) obtain fs tx res fs' where "append_loop k 0 [] 0 tx fs body = (res, fs', body')"
    unfolding PostgresStore_Append_def Let_def by (auto split: prod.splits sum.splits if_splits)
  from append_loop_over [OF this assms(2,3)] show ?thesis .
qed (use assms(3) in blast)

text \<open>
  On tables that meet the invariant, an \<open>Append\<close> is all or nothing under every script of faults;
  it reports an error for an entry that is there only when a reply was lost.
\<close>

lemma PostgresStore_Append_whole:
  assumes "tbl_ok (db_tables db)" and "1 \<le> key_Generation k" and "reader_wf body"
    and "PostgresStore_Append db k prev body = (r, db', body')"
  shows "tbl_ok (db_tables db') \<and>
     ((\<exists>e. r = Inl e) \<and> db_tables db' = db_tables db \<or>
      pg_logs db' = logs_append (pg_logs db) k \<lparr>s_data = content body, s_prev = prev, s_created = db_now db\<rparr> \<and>
      content body \<noteq> [] \<and> (ending body = EOF \<or> ending body = ErrUnexpectedEOF) \<and>
      key_Seq k = int (length (log_of (pg_logs db) k)) + 1 \<and>
      (r = Inr (sha256_hex (content body), int (length (content body))) \<or>
       (\<exists>e. Lost e \<in> set (db_faults db) \<and> r = Inl (asSeqConflict e))))"
proof (cases "\<exists>e. r = Inl e \<and> db_tables db' = db_tables db")
  case False
  with PostgresStore_Append_outcomes(2) [OF assms(4,3)] obtain head where
    new: "select_max_seq (db_tables db) k = Inr head" "content body \<noteq> []"
      "key_Seq k = (case head of None \<Rightarrow> 1 | Some h \<Rightarrow> h + 1)"
      "db_tables db' = append_tables k prev (db_now db) (content body) (db_tables db)"
      "ending body = EOF \<or> ending body = ErrUnexpectedEOF"
      "r = Inr (sha256_hex (content body), int (length (content body))) \<or>
       (\<exists>e. Lost e \<in> set (db_faults db) \<and> r = Inl (asSeqConflict e))"
    by blast
  then have seq: "key_Seq k = int (length (log_of (tbl_logs (db_tables db)) k)) + 1"
    using select_max_seq_Inr [OF assms(1)] by simp
  from new tbl_logs_append [OF assms(1) seq] tbl_ok_append [OF assms(1) seq assms(2) new(2)] seq
  show ?thesis by (simp add: pg_logs_def)
qed (use assms(1) in auto)

lemma delete_tx_outcomes:
  assumes "delete_tx db fs del_chunks del_log = (r, db')" and "set fs \<subseteq> set (db_faults db)"
    and "\<And>t t1 t2 n. del_chunks t = Inr t1 \<Longrightarrow> del_log t1 = Inr (t2, n) \<Longrightarrow> t2 = spare P t \<and> n = rows t"
  shows "db_now db' = db_now db"
    and "(\<exists>e. r = Inl e \<and> db_tables db' = db_tables db) \<or>
     db_tables db' = spare P (db_tables db) \<and>
     (r = Inr (rows (db_tables db)) \<or> (\<exists>e. Lost e \<in> set (db_faults db) \<and> r = Inl (ErrDatabase e)))"
proof -
  show "db_now db' = db_now db"
    using assms(1) unfolding delete_tx_def by (auto split: prod.splits sum.splits)
  show "(\<exists>e. r = Inl e \<and> db_tables db' = db_tables db) \<or>
     db_tables db' = spare P (db_tables db) \<and>
     (r = Inr (rows (db_tables db)) \<or> (\<exists>e. Lost e \<in> set (db_faults db) \<and> r = Inl (ErrDatabase e)))"
  proof (cases "\<exists>e. r = Inl e \<and> db_tables db' = db_tables db")
    case False
    with assms(1) obtain fs1 t1 fs2 t2 n fs3 where
      run: "exec fs (Inr (db_tables db)) = (Inr (db_tables db), fs1)"
        "exec fs1 (del_chunks (db_tables db)) = (Inr t1, fs2)"
        "exec fs2 (del_log t1) = (Inr (t2, n), fs3)"
        "(case commit fs3 (db_tables db) t2 of
           (err, t, fs) \<Rightarrow>
             (case err of Some e \<Rightarrow> Inl (ErrDatabase e) | None \<Rightarrow> Inr n,
              db\<lparr>db_tables := t, db_faults := fs\<rparr>)) = (r, db')"
      unfolding delete_tx_def by (auto split: prod.splits sum.splits dest: exec_Inr)
    have t2: "t2 = spare P (db_tables db) \<and> n = rows (db_tables db)"
      using run(2,3) assms(3) by (auto dest!: exec_Inr)
    have fs: "set fs3 \<subseteq> set (db_faults db)" using run(1-3) assms(2) by (auto dest!: exec_Inr)
    obtain err t fs4 where c: "commit fs3 (db_tables db) t2 = (err, t, fs4)" by (metis prod_cases3)
    from c show ?thesis
      by (cases rule: commit_cases) (use run(4) c t2 fs False in auto)
  qed simp
qed

definition in_gen_window :: "tables \<Rightarrow> string \<Rightarrow> string \<Rightarrow> int \<Rightarrow> bool" where
  "in_gen_window t p d g \<longleftrightarrow> device_gens (tbl_logs t) p d \<noteq> {} \<and>
     g > Max (device_gens (tbl_logs t) p d) - RetainedGenerations"

lemma PostgresStore_DeleteGeneration_start:
  assumes "PostgresStore_DeleteGeneration db p d g = (r, db')"
  obtains (refused) e where "r = Inl e" "db_tables db' = db_tables db" "db_now db' = db_now db"
    | (deleting) fs where
        "delete_tx db fs (\<lambda>t. delete_gen_chunks t p d g) (\<lambda>t. delete_gen_log t p d g) = (r, db')"
        "set fs \<subseteq> set (db_faults db)" "\<not> in_gen_window (db_tables db) p d g"
proof -
  obtain x fs where m: "exec (db_faults db) (select_max_generation (db_tables db) p d) = (x, fs)" by force
  show thesis
  proof (cases x)
    case (Inl e)
    with assms m refused show thesis by (auto simp: PostgresStore_DeleteGeneration_def)
  next
    case (Inr newest)
    let ?rows = "filter (\<lambda>l. l_pseudonym l = p \<and> l_device_id l = d) (blob_log (db_tables db))"
    have gens: "device_gens (tbl_logs (db_tables db)) p d = l_generation ` set ?rows"
      by (auto simp: device_gens_def rows_of_def log_in_def filter_empty_conv)
    have "newest = sql_max l_generation ?rows" "set fs \<subseteq> set (db_faults db)"
      using exec_Inr [of "db_faults db" _ newest fs] m Inr
      by (auto simp: select_max_generation_def dest!: checked_Inr)
    with assms m Inr refused deleting show thesis
      by (auto simp: PostgresStore_DeleteGeneration_def in_gen_window_def gens sql_max_def filter_empty_conv
          split: if_splits)
  qed
qed

lemma PostgresStore_DeleteGeneration_outcomes:
  assumes "PostgresStore_DeleteGeneration db p d g = (r, db')"
  shows "(\<exists>e. r = Inl e \<and> db_tables db' = db_tables db) \<or>
     \<not> in_gen_window (db_tables db) p d g \<and>
     db_tables db' = spare (\<lambda>p' d' g'. \<not> (p' = p \<and> d' = d \<and> g' = g)) (db_tables db) \<and>
     (r = Inr (int (length (pg_logs db p d g))) \<or> (\<exists>e. Lost e \<in> set (db_faults db) \<and> r = Inl (ErrDatabase e)))"
  using assms
proof (cases rule: PostgresStore_DeleteGeneration_start)
  case (deleting fs)
  have "t2 = spare (\<lambda>p' d' g'. \<not> (p' = p \<and> d' = d \<and> g' = g)) t \<and> n = int (length (rows_of t p d g))"
    if "delete_gen_chunks t p d g = Inr t1" "delete_gen_log t1 p d g = Inr (t2, n)" for t t1 t2 n
    using that by (auto simp: delete_gen_chunks_def delete_gen_log_def spare_def rows_of_def
        log_in_def [abs_def] chunk_in_def [abs_def] dest!: checked_Inr)
  from delete_tx_outcomes(2) [OF deleting(1,2) this] deleting(3) show ?thesis by (simp add: pg_logs_def)
qed auto

lemma PostgresStore_DeleteAccount_outcomes:
  assumes "PostgresStore_DeleteAccount db p = (r, db')"
  shows "db_now db' = db_now db"
    and "(\<exists>e. r = Inl e \<and> db_tables db' = db_tables db) \<or>
     db_tables db' = spare (\<lambda>p' d' g'. p' \<noteq> p) (db_tables db) \<and>
     (r = Inr (account_rows (pg_logs db) p) \<or> (\<exists>e. Lost e \<in> set (db_faults db) \<and> r = Inl (ErrDatabase e)))"
proof -
  have spare: "t2 = spare (\<lambda>p' d' g'. p' \<noteq> p) t \<and> n = account_rows (tbl_logs t) p"
    if "delete_account_chunks t p = Inr t1" "delete_account_log t1 p = Inr (t2, n)" for t t1 t2 n
    using that by (auto simp: delete_account_chunks_def delete_account_log_def spare_def tbl_account_rows
        dest!: checked_Inr)
  note del = delete_tx_outcomes [OF assms [unfolded PostgresStore_DeleteAccount_def] subset_refl spare]
  show "db_now db' = db_now db" by (rule del(1))
  show "(\<exists>e. r = Inl e \<and> db_tables db' = db_tables db) \<or>
     db_tables db' = spare (\<lambda>p' d' g'. p' \<noteq> p) (db_tables db) \<and>
     (r = Inr (account_rows (pg_logs db) p) \<or> (\<exists>e. Lost e \<in> set (db_faults db) \<and> r = Inl (ErrDatabase e)))"
    using del(2) by (simp add: pg_logs_def)
qed

section \<open>The contract\<close>

lemma PostgresStore_Append_reads:
  assumes "pg_ok db" "key_ok k" "reader_wf body" "chunkable body"
    and app: "PostgresStore_Append db k prev body = (r, db', body')"
  shows "db_faults db' = [] \<and> (reader_over body' \<longrightarrow> reader_over body \<or> ending body = ErrBodyTooLarge)"
proof -
  have ok: "tbl_ok (db_tables db)" "db_faults db = []" using assms(1) by (auto simp: pg_ok_def)
  show ?thesis
  proof (cases "key_Seq k = int (length (log_of (tbl_logs (db_tables db)) k)) + 1")
    case False
    with app ok PostgresStore_Append_conflict [OF assms(1,2)] show ?thesis by (simp add: pg_logs_def)
  next
    case True
    from append_loop_body [OF ok(1) assms(2) True assms(3,4)] obtain body1 where
      loop: "append_loop k 0 [] 0 (db_tables db) [] body =
       (if ending body = EOF \<or> ending body = ErrUnexpectedEOF
        then Inr (content body, int (length (content body)),
                  add_chunks k 0 (chunks ChunkBytes (content body)) (db_tables db))
        else Inl (ErrReadBody (ending body)), [], body1)"
      "reader_over body1 \<longleftrightarrow> reader_over body \<or> ending body = ErrBodyTooLarge" by blast
    moreover have "key_Seq k = int (length (log_of (pg_logs db) k)) + 1" using True by (simp add: pg_logs_def)
    ultimately show ?thesis
      using app PostgresStore_Append_at_head [OF assms(1,2), of prev body]
      by (auto split: if_splits sum.splits)
  qed
qed

interpretation pg: blob_store postgres_ops pg_logs pg_ok db_now
proof (unfold_locales, goal_cases)
  case (1 s p)
  then show ?case by (simp add: pg_logs_def)
next
  case (2 s st p d g)
  then show ?case using tbl_okD(2) [of "db_tables s"]
    by (auto simp: pg_ok_def pg_logs_def tbl_logs_def stored_of_log_def rows_ofD log_row_ok_def)
next
  case (3 s p d g)
  then obtain l where "l \<in> set (rows_of (db_tables s) p d g)"
    by (cases "rows_of (db_tables s) p d g") (auto simp: pg_logs_def)
  then show ?case using tbl_okD(2) [of "db_tables s" l] 3(1)
    by (auto simp: pg_ok_def rows_ofD log_row_ok_def)
next
  case (4 s k prev body)
  then show ?case using PostgresStore_Append_conflict [OF 4] by (simp add: postgres_ops_def)
next
  case (5 s k prev body)
  then have "key_Seq k = int (length (log_of (tbl_logs (db_tables s)) k)) + 1" "tbl_ok (db_tables s)"
    by (simp_all add: pg_ok_def pg_logs_def)
  then show ?case using PostgresStore_Append_next [of s k body prev] 5
    by (auto simp: postgres_ops_def pg_ok_def pg_logs_def tbl_logs_append key_ok_def intro!: tbl_ok_append)
next
  case (6 s k body prev)
  then show ?case using PostgresStore_Append_next [of s k body prev]
    by (auto simp: postgres_ops_def chunkable_def)
next
  case (7 s k body prev)
  then show ?case using PostgresStore_Append_next [of s k body prev] by (auto simp: postgres_ops_def)
next
  case (8 s k)
  then show ?case using PostgresStore_Get_found [OF 8] by (auto simp: postgres_ops_def)
next
  case (9 s k)
  then show ?case using PostgresStore_Get_missing [OF 9] by (simp add: postgres_ops_def)
next
  case (10 s p d g "from" limit)
  moreover obtain rows where "select_index (db_tables s) p d g from limit = Inr rows"
    "map entry_of_log rows = index_page (tbl_logs (db_tables s) p d g) from limit"
    using select_index_page [of "db_tables s" p d g "from" limit] 10 by (auto simp: pg_ok_def)
  ultimately show ?case by (simp add: postgres_ops_def PostgresStore_Index_def pg_ok_def pg_logs_def)
next
  case (11 s p)
  then show ?case
    by (simp add: postgres_ops_def PostgresStore_Manifest_def pg_ok_def pg_logs_def select_manifest_ok)
next
  case (12 s p d g)
  then show ?case
    by (simp add: postgres_ops_def PostgresStore_DeleteGeneration_def pg_ok_def pg_logs_def select_max_generation_ok)
next
  case (13 s p d g)
  then show ?case using delete_gen_done [of s p d g] tbl_ok_spare
    by (auto simp: postgres_ops_def PostgresStore_DeleteGeneration_def pg_ok_def pg_logs_def
        select_max_generation_ok fun_eq_iff tbl_logs_spare set_log_def)
next
  case (14 s p)
  then show ?case
    by (auto simp: postgres_ops_def delete_account_done pg_ok_def pg_logs_def fun_eq_iff
        tbl_logs_spare tbl_ok_spare erase_account_def)
next
  case (15 s)
  then show ?case by (simp add: postgres_ops_def PostgresStore_Ping_def pg_ok_def pg_logs_def)
next
  case (16 s k body prev r s' body')
  then have app: "PostgresStore_Append s k prev body = (r, s', body')" and ok: "tbl_ok (db_tables s)" "db_faults s = []"
    by (simp_all add: postgres_ops_def pg_ok_def)
  from PostgresStore_Append_whole [OF ok(1) _ 16(3) app] PostgresStore_Append_reads [OF 16(1-4) app] ok 16(2)
  show ?case by (auto simp: pg_ok_def pg_logs_def key_ok_def)
next
  case (17 s p d g f limit ri s')
  then show ?case
    by (auto simp: postgres_ops_def PostgresStore_Index_def pg_ok_def pg_logs_def fetch_def
        split: prod.splits sum.splits option.splits)
qed

section \<open>Reachable tables\<close>

text \<open>
  The tables that any sequence of operations can leave behind, each on a server with its
  own clock and its own script of faults (the handlers only pass positive generations).
\<close>

inductive pg_reach :: "tables \<Rightarrow> bool" where
  start: "pg_reach empty_tables"
| append: "pg_reach (db_tables db) \<Longrightarrow> reader_wf body \<Longrightarrow> 1 \<le> key_Generation k \<Longrightarrow>
    PostgresStore_Append db k prev body = (ra, db', body') \<Longrightarrow> pg_reach (db_tables db')"
| get: "pg_reach (db_tables db) \<Longrightarrow> PostgresStore_Get db k = (rg, db') \<Longrightarrow> pg_reach (db_tables db')"
| index: "pg_reach (db_tables db) \<Longrightarrow> PostgresStore_Index db p d g from limit = (ri, db') \<Longrightarrow>
    pg_reach (db_tables db')"
| manifest: "pg_reach (db_tables db) \<Longrightarrow> PostgresStore_Manifest db p = (rm, db') \<Longrightarrow>
    pg_reach (db_tables db')"
| prune: "pg_reach (db_tables db) \<Longrightarrow> PostgresStore_DeleteGeneration db p d g = (rd, db') \<Longrightarrow>
    pg_reach (db_tables db')"
| erase: "pg_reach (db_tables db) \<Longrightarrow> PostgresStore_DeleteAccount db p = (re, db') \<Longrightarrow>
    pg_reach (db_tables db')"

lemma reads_keep_tables:
  "PostgresStore_Get db k = (rg, db') \<Longrightarrow> db_tables db' = db_tables db"
  "PostgresStore_Index db p d g from limit = (ri, db') \<Longrightarrow> db_tables db' = db_tables db"
  "PostgresStore_Manifest db p = (rm, db') \<Longrightarrow> db_tables db' = db_tables db"
  by (auto simp: PostgresStore_Get_def PostgresStore_Index_def PostgresStore_Manifest_def
      split: prod.splits sum.splits option.splits)

lemma pg_reach_ok: "pg_reach t \<Longrightarrow> tbl_ok t"
proof (induction rule: pg_reach.induct)
  case (append db body k prev ra db' body')
  show ?case
  proof (cases "db_tables db' = db_tables db")
    case False
    with PostgresStore_Append_outcomes(2) [OF append.hyps(4,2)] obtain head where
      "select_max_seq (db_tables db) k = Inr head" "content body \<noteq> []"
      "key_Seq k = (case head of None \<Rightarrow> 1 | Some h \<Rightarrow> h + 1)"
      "db_tables db' = append_tables k prev (db_now db) (content body) (db_tables db)"
      by blast
    then show ?thesis using append tbl_ok_append select_max_seq_Inr by simp
  qed (use append.IH in simp)
next
  case (prune db p d g rd db')
  then show ?case using PostgresStore_DeleteGeneration_outcomes [OF prune.hyps(2)] tbl_ok_spare
    by auto
next
  case (erase db p re db')
  then show ?case using PostgresStore_DeleteAccount_outcomes(2) [OF erase.hyps(2)] tbl_ok_spare
    by auto
qed (simp_all add: reads_keep_tables)

section \<open>Runs\<close>

definition pg_at :: "database \<Rightarrow> time \<Rightarrow> database" where
  "pg_at db now = db\<lparr>db_now := now\<rparr>"

interpretation pg_timed: timed_blob_store postgres_ops pg_logs pg_ok db_now pg_at
  by unfold_locales (auto simp: pg_at_def pg_logs_def pg_ok_def)

definition fresh_database :: "time \<Rightarrow> database" where
  "fresh_database now = \<lparr>db_tables = empty_tables, db_now = now, db_faults = [], db_coins = []\<rparr>"

lemma fresh_database_ok: "pg_ok (fresh_database now)" "pg_logs (fresh_database now) = (\<lambda>_ _ _. [])"
  by (simp_all add: pg_ok_def fresh_database_def pg_logs_def fun_eq_iff)
    (simp add: tbl_logs_def empty_tables_def rows_of_def)

end
