(* ===== verification/Append_Calls.thy ===== *)
theory Append_Calls
  imports Postgres_Contract
begin

text \<open>
  How often an upload calls the database: the streaming loop ends, and with it the transaction,
  after a number of calls bounded by the length of the body. The script of outcomes of
  \<open>Database\<close> makes the calls visible: each takes one element off it.
\<close>

lemma exec_drop: "exec fs r = (x, fs') \<Longrightarrow> fs' = drop 1 fs"
  by (auto simp: exec_def split: list.splits outcome.splits)

lemma commit_drop: "commit fs t t' = (err, t'', fs') \<Longrightarrow> fs' = drop 1 fs"
  by (auto simp: commit_def split: list.splits outcome.splits)

text \<open>The loop inserts one chunk for each full one and at most one more.\<close>

lemma append_loop_calls:
  assumes "append_loop k idx h sz tx fs body = (res, fs', body')" and "reader_wf body"
  shows "\<exists>n \<le> length (content body) div ChunkBytes + 1. fs' = drop n fs"
  using assms
proof (induction "reads_left body" arbitrary: body idx h sz tx fs rule: less_induct)
  case less
  obtain buf err body1 where rd: "ReadFull ChunkBytes body = (buf, err, body1)" by (metis prod_cases3)
  note law = ReadFull_stream [OF rd less.prems(2)]
  have cb: "0 < ChunkBytes" by (simp add: ChunkBytes_def)
  obtain r fs1 where ins: "(if buf \<noteq> [] then exec fs (insert_chunk tx k idx buf) else (Inr tx, fs)) = (r, fs1)" by force
  then obtain n1 where n1: "n1 \<le> 1" "fs1 = drop n1 fs"
    by (cases "buf \<noteq> []") (force dest: exec_drop)+
  note loop = less.prems(1) [unfolded append_loop.simps [of k idx h sz tx fs body] rd prod.case ins]
  show ?case
  proof (cases "\<exists>tx1. r = Inr tx1 \<and> err = None")
    case True
    then obtain tx1 where tx1: "r = Inr tx1" and none: "err = None" by blast
    have len: "length (content body) = ChunkBytes + length (content body1)"
      using law(1) law(4) [OF none] by simp
    have "reads_left body1 < reads_left body" using ReadFull_progress [OF _ cb] rd none by blast
    moreover have "append_loop k (idx + 1) (h @ buf) (sz + int (length buf)) tx1 fs1 body1 = (res, fs', body')"
      using loop tx1 none by simp
    ultimately obtain n where n: "n \<le> length (content body1) div ChunkBytes + 1" "fs' = drop n fs1"
      using less.hyps law(3) by blast
    have "length (content body) div ChunkBytes = length (content body1) div ChunkBytes + 1"
      using len cb by (simp add: div_add_self1)
    with n n1 show ?thesis by (intro exI [of _ "n + n1"]) (auto simp: drop_drop)
  next
    case False
    then have "fs' = fs1" using loop by (auto split: sum.splits option.splits if_splits)
    with n1 show ?thesis by (intro exI [of _ n1]) auto
  qed
qed

text \<open>
  C10: An upload ends, and after a bounded number of calls to the database, whatever they answer: at
  most one for each full chunk of the body and one for the rest, besides \<open>BEGIN\<close>, the query for
  the head, the row of the log and \<open>COMMIT\<close>.
\<close>

theorem append_calls_bounded:
  assumes "PostgresStore_Append db k prev body = (res, db', body')" and "reader_wf body"
  shows "\<exists>n \<le> length (content body) div ChunkBytes + 5. db_faults db' = drop n (db_faults db)"
proof -
  let ?B = "length (content body) div ChunkBytes"
  have bound: ?thesis if "db_faults db' = drop n (db_faults db)" "n \<le> ?B + 5" for n using that by blast
  note run = assms(1) [unfolded PostgresStore_Append_def Let_def]
  obtain b fs1 where opn: "exec (db_faults db) (Inr (db_tables db)) = (b, fs1)" by force
  note f1 = exec_drop [OF opn]
  show ?thesis
  proof (cases b)
    case (Inl e)
    with run opn f1 show ?thesis by (intro bound [of 1]) auto
  next
    case (Inr tx)
    note run = run [unfolded opn Inr prod.case sum.case]
    obtain q fs2 where sel: "exec fs1 (select_max_seq tx k) = (q, fs2)" by force
    have f2: "fs2 = drop 2 (db_faults db)" using exec_drop [OF sel] f1 by (simp add: drop_drop numeral_2_eq_2)
    show ?thesis
    proof (cases "\<exists>head. q = Inr head \<and> key_Seq k = (case head of None \<Rightarrow> 1 | Some h \<Rightarrow> h + 1)")
      case False
      with run sel f2 show ?thesis by (intro bound [of 2]) (auto split: sum.splits if_splits)
    next
      case True
      then obtain head where head: "q = Inr head" "key_Seq k = (case head of None \<Rightarrow> 1 | Some h \<Rightarrow> h + 1)" by blast
      obtain l fs3 b' where loop: "append_loop k 0 [] 0 tx fs2 body = (l, fs3, b')" by (metis prod_cases3)
      obtain n where n: "n \<le> ?B + 1" "fs3 = drop (n + 2) (db_faults db)"
        using append_loop_calls [OF loop assms(2)] f2 by (auto simp: drop_drop)
      have "db_faults db' = fs3 \<or> db_faults db' = drop 1 fs3 \<or> db_faults db' = drop 1 (drop 1 fs3)"
        using run [unfolded sel head(1) prod.case sum.case loop] head(2)
        by (auto split: prod.splits sum.splits if_splits dest!: exec_drop commit_drop)
      then have "\<exists>m \<le> 2. db_faults db' = drop m fs3"
      proof (elim disjE)
        assume "db_faults db' = fs3" then show ?thesis by (intro exI [of _ 0]) simp
      next
        assume "db_faults db' = drop 1 fs3" then show ?thesis by (intro exI [of _ 1]) simp
      next
        assume "db_faults db' = drop 1 (drop 1 fs3)" then show ?thesis by (intro exI [of _ 2]) (simp add: drop_drop numeral_2_eq_2)
      qed
      then obtain m where "m \<le> 2" "db_faults db' = drop (m + (n + 2)) (db_faults db)" using n(2) by (auto simp: drop_drop add.commute)
      with n(1) show ?thesis by (intro bound [of "m + (n + 2)"]) auto
    qed
  qed
qed

theorem append_calls_bounded_witness:
  "\<exists>res db' body'. PostgresStore_Append ((fresh_database 1)\<lparr>db_faults := replicate 9 Done\<rparr>)
       \<lparr>key_Pseudonym = ''aa'', key_DeviceID = ''bb'', key_Generation = 1, key_Seq = 1\<rparr> '''' (BytesReader [1, 2, 3]) =
       (res, db', body') \<and> (\<exists>n \<le> 5. db_faults db' = drop n (replicate 9 Done))"
proof -
  let ?db = "(fresh_database 1)\<lparr>db_faults := replicate 9 Done\<rparr>"
  let ?k = "\<lparr>key_Pseudonym = ''aa'', key_DeviceID = ''bb'', key_Generation = 1, key_Seq = 1\<rparr>"
  obtain res db' body' where run: "PostgresStore_Append ?db ?k '''' (BytesReader [1, 2, 3]) = (res, db', body')"
    by (metis prod_cases3)
  from append_calls_bounded [OF run] run show ?thesis by (auto simp: ChunkBytes_def)
qed

end
