(* ===== verification/Go_Client.thy ===== *)
theory Go_Client
  imports Http
begin

text \<open>
  \<open>client/client.go\<close>: the Go client. Sending a request (\<open>http.Client.Do\<close>) is a function of
  the world \<open>'w\<close> it acts on, as are the clock and the random source; what
  \<open>http.NewRequestWithContext\<close> says of a method and a URL, and the SDK, are parameters too.
  A response body is the bytes that can be read of it and the error that ends them.
\<close>

section \<open>Messages\<close>

record http_request =
  hr_Method :: string
  hr_URL :: string
  hr_Header :: "(string \<times> string) list"
  hr_Body :: "reader option"
  hr_Length :: int

record http_response =
  rs_Status :: int
  rs_Length :: int
  rs_Body :: bytes
  rs_End :: rd_err

type_synonym 'w doer = "'w \<Rightarrow> http_request \<Rightarrow> (string + http_response) \<times> 'w"

record 'w client_host =
  ch_NewRequest :: "string \<Rightarrow> string \<Rightarrow> string option"
  ch_Now :: "'w \<Rightarrow> time \<times> 'w"
  ch_Rand :: "'w \<Rightarrow> bytes option \<times> 'w"
  ch_parse_time :: "string \<Rightarrow> time option"

section \<open>Types of the client\<close>

record client_Limits =
  lim_MaxBlobBytes :: int
  lim_MaxBodyBytes :: int
  lim_ServerIdentityKey :: string

record client_Entry =
  ce_Seq :: int
  ce_Sha256 :: string
  ce_PrevSha256 :: string
  ce_Size :: int
  ce_CreatedAt :: time

record client_DeviceSummary =
  cd_DeviceID :: string
  cd_Generation :: int
  cd_HeadSeq :: int
  cd_HeadSha256 :: string
  cd_TotalBytes :: int
  cd_UpdatedAt :: time

record AppendResult =
  ar_Seq :: int
  ar_Sha256 :: string
  ar_Size :: int

datatype client_err =
    NoUsableKey
  | BadRequest string
  | FetchLimits string
  | DecodeLimits
  | ErrNoServerIdentityKey
  | APIError int string string
  | SignRequest sign_err
  | RequestFailed string
  | DecodeResponse string

record ('w, 'k, 'g) Client =
  c_baseURL :: string
  c_http :: "'w doer"
  c_wallet :: "('k, 'g) wallet_api option"
  c_limits :: "client_Limits option"

definition WithHTTPClient :: "'w doer \<Rightarrow> ('w, 'k, 'g) Client \<Rightarrow> ('w, 'k, 'g) Client" where
  "WithHTTPClient h c = c\<lparr>c_http := h\<rparr>"

text \<open>\<open>strings.TrimRight\<close> with one character.\<close>

definition TrimRight :: "string \<Rightarrow> char \<Rightarrow> string" where
  "TrimRight s c = rev (dropWhile (\<lambda>x. x = c) (rev s))"

definition Client_New ::
  "'w doer \<Rightarrow> ('p \<Rightarrow> ('k, 'g) wallet_api option) \<Rightarrow> string \<Rightarrow> 'p \<Rightarrow>
   (('w, 'k, 'g) Client \<Rightarrow> ('w, 'k, 'g) Client) list \<Rightarrow> ('w, 'k, 'g) Client" where
  "Client_New DefaultClient NewCompletedProtoWallet baseURL priv opts =
     foldl (\<lambda>c opt. opt c)
       \<lparr>c_baseURL = TrimRight baseURL (CHR ''/''), c_http = DefaultClient,
        c_wallet = NewCompletedProtoWallet priv, c_limits = None\<rparr> opts"

section \<open>Decoding responses (encoding/json)\<close>

text \<open>
  A struct is decoded member by member: names without regard to case, unknown ones skipped,
  \<open>null\<close> without effect. A value of the wrong type is an error that leaves its field as it
  was and lets the rest go on; the flag tells that there was one. The escapes of a time's
  literal, which \<open>time.Time\<close> does not undo, are taken as undone.
\<close>

type_synonym 'a json_field = "string \<times> (json \<Rightarrow> 'a \<Rightarrow> 'a option)"

definition text_field :: "(string \<Rightarrow> 'a \<Rightarrow> 'a) \<Rightarrow> json \<Rightarrow> 'a \<Rightarrow> 'a option" where
  "text_field upd v x = (case v of JStr s \<Rightarrow> Some (upd s x) | JNull \<Rightarrow> Some x | _ \<Rightarrow> None)"

definition int_field :: "(int \<Rightarrow> 'a \<Rightarrow> 'a) \<Rightarrow> json \<Rightarrow> 'a \<Rightarrow> 'a option" where
  "int_field upd v x =
     (case v of
        JNum n \<Rightarrow> map_option (\<lambda>i. upd i x) (atoi n)
      | JNull \<Rightarrow> Some x
      | _ \<Rightarrow> None)"

definition time_field :: "(string \<Rightarrow> time option) \<Rightarrow> (time \<Rightarrow> 'a \<Rightarrow> 'a) \<Rightarrow> json \<Rightarrow> 'a \<Rightarrow> 'a option" where
  "time_field parse upd v x =
     (case v of
        JStr s \<Rightarrow> map_option (\<lambda>t. upd t x) (parse s)
      | JNull \<Rightarrow> Some x
      | _ \<Rightarrow> None)"

fun decode_members :: "'a json_field list \<Rightarrow> (string \<times> json) list \<Rightarrow> 'a \<Rightarrow> 'a \<times> bool" where
  "decode_members flds [] x = (x, False)"
| "decode_members flds ((key, v) # ms) x =
     (case map_of flds (fold_name key) of
        None \<Rightarrow> decode_members flds ms x
      | Some put \<Rightarrow>
          (case put v x of
             Some x' \<Rightarrow> decode_members flds ms x'
           | None \<Rightarrow> (case decode_members flds ms x of (x', _) \<Rightarrow> (x', True))))"

definition decode_struct :: "'a json_field list \<Rightarrow> json \<Rightarrow> 'a \<Rightarrow> 'a \<times> bool" where
  "decode_struct flds v x =
     (case v of JObj ms \<Rightarrow> decode_members flds ms x | JNull \<Rightarrow> (x, False) | _ \<Rightarrow> (x, True))"

text \<open>A slice of structs; elements already there, from an earlier member, are decoded over.\<close>

fun decode_elements :: "'a json_field list \<Rightarrow> 'a \<Rightarrow> 'a list \<Rightarrow> json list \<Rightarrow> 'a list option" where
  "decode_elements flds zero old [] = Some []"
| "decode_elements flds zero old (v # vs) =
     (case decode_struct flds v (case old of [] \<Rightarrow> zero | x # _ \<Rightarrow> x) of
        (x, err) \<Rightarrow>
          if err then None else map_option (Cons x) (decode_elements flds zero (tl old) vs))"

definition list_field :: "'a json_field list \<Rightarrow> 'a \<Rightarrow> json \<Rightarrow> 'a list \<Rightarrow> 'a list option" where
  "list_field flds zero v xs =
     (case v of
        JArr vs \<Rightarrow> decode_elements flds zero xs vs
      | JNull \<Rightarrow> Some []
      | _ \<Rightarrow> None)"

text \<open>
  \<open>json.NewDecoder(resp.Body).Decode\<close>: the first value of the body, whatever follows it. A
  literal ends only with what comes after it, an object with its brace.
\<close>

definition decode_body :: "'a json_field list \<Rightarrow> 'a \<Rightarrow> http_response \<Rightarrow> 'a option" where
  "decode_body flds zero resp =
     (case json_value 0 (string_of_bytes (rs_Body resp)) of
        None \<Rightarrow> None
      | Some (v, rest) \<Rightarrow>
          if v = JNull \<and> rest = [] \<and> rs_End resp \<noteq> EOF then None
          else case decode_struct flds v zero of (x, err) \<Rightarrow> if err then None else Some x)"

definition limits_flds :: "client_Limits json_field list" where
  "limits_flds =
     [(''MAXBLOBBYTES'', int_field (\<lambda>n l. l\<lparr>lim_MaxBlobBytes := n\<rparr>)),
      (''MAXBODYBYTES'', int_field (\<lambda>n l. l\<lparr>lim_MaxBodyBytes := n\<rparr>)),
      (''SERVERIDENTITYKEY'', text_field (\<lambda>s l. l\<lparr>lim_ServerIdentityKey := s\<rparr>))]"

definition append_flds :: "AppendResult json_field list" where
  "append_flds =
     [(''SEQ'', int_field (\<lambda>n r. r\<lparr>ar_Seq := n\<rparr>)),
      (''SHA256'', text_field (\<lambda>s r. r\<lparr>ar_Sha256 := s\<rparr>)),
      (''SIZE'', int_field (\<lambda>n r. r\<lparr>ar_Size := n\<rparr>))]"

definition entry_flds :: "(string \<Rightarrow> time option) \<Rightarrow> client_Entry json_field list" where
  "entry_flds parse_time =
     [(''SEQ'', int_field (\<lambda>n e. e\<lparr>ce_Seq := n\<rparr>)),
      (''SHA256'', text_field (\<lambda>s e. e\<lparr>ce_Sha256 := s\<rparr>)),
      (''PREVSHA256'', text_field (\<lambda>s e. e\<lparr>ce_PrevSha256 := s\<rparr>)),
      (''SIZE'', int_field (\<lambda>n e. e\<lparr>ce_Size := n\<rparr>)),
      (''CREATEDAT'', time_field parse_time (\<lambda>t e. e\<lparr>ce_CreatedAt := t\<rparr>))]"

definition summary_flds :: "(string \<Rightarrow> time option) \<Rightarrow> client_DeviceSummary json_field list" where
  "summary_flds parse_time =
     [(''DEVICEID'', text_field (\<lambda>s d. d\<lparr>cd_DeviceID := s\<rparr>)),
      (''GENERATION'', int_field (\<lambda>n d. d\<lparr>cd_Generation := n\<rparr>)),
      (''HEADSEQ'', int_field (\<lambda>n d. d\<lparr>cd_HeadSeq := n\<rparr>)),
      (''HEADSHA256'', text_field (\<lambda>s d. d\<lparr>cd_HeadSha256 := s\<rparr>)),
      (''TOTALBYTES'', int_field (\<lambda>n d. d\<lparr>cd_TotalBytes := n\<rparr>)),
      (''UPDATEDAT'', time_field parse_time (\<lambda>t d. d\<lparr>cd_UpdatedAt := t\<rparr>))]"

definition zero_limits :: client_Limits where
  "zero_limits = \<lparr>lim_MaxBlobBytes = 0, lim_MaxBodyBytes = 0, lim_ServerIdentityKey = ''''\<rparr>"

definition zero_result :: AppendResult where
  "zero_result = \<lparr>ar_Seq = 0, ar_Sha256 = '''', ar_Size = 0\<rparr>"

definition zero_entry :: client_Entry where
  "zero_entry = \<lparr>ce_Seq = 0, ce_Sha256 = '''', ce_PrevSha256 = '''', ce_Size = 0, ce_CreatedAt = time_zero\<rparr>"

definition zero_summary :: client_DeviceSummary where
  "zero_summary = \<lparr>cd_DeviceID = '''', cd_Generation = 0, cd_HeadSeq = 0, cd_HeadSha256 = '''', cd_TotalBytes = 0,
     cd_UpdatedAt = time_zero\<rparr>"

definition decodeAPIError :: "http_response \<Rightarrow> client_err" where
  "decodeAPIError resp =
     (let raw = take (64 * 1024) (rs_Body resp);
          flds = [(''CODE'', text_field (\<lambda>s (_, d). (s, d))), (''DESCRIPTION'', text_field (\<lambda>s (c, _). (c, s)))];
          (code, description) = (case json_parse (string_of_bytes raw) of
             None \<Rightarrow> ('''', '''') | Some v \<Rightarrow> fst (decode_struct flds v ('''', '''')))
      in APIError (rs_Status resp) code description)"

section \<open>Escaping (net/url)\<close>

definition unreserved :: "char \<Rightarrow> bool" where
  "unreserved c \<longleftrightarrow>
     (let n = code_of c
      in (97 \<le> n \<and> n \<le> 122) \<or> (65 \<le> n \<and> n \<le> 90) \<or> (48 \<le> n \<and> n \<le> 57) \<or> c \<in> set ''-_.~'')"

definition upper_hex :: "nat \<Rightarrow> char" where
  "upper_hex d = (if d < 10 then char_of (48 + d) else char_of (55 + d))"

definition percent :: "char \<Rightarrow> string" where
  "percent c = [CHR 0x25, upper_hex (code_of c div 16), upper_hex (code_of c mod 16)]"

definition PathEscape :: "string \<Rightarrow> string" where
  "PathEscape s = concat (map (\<lambda>c. if unreserved c \<or> c \<in> set ''$&+=:@'' then [c] else percent c) s)"

definition QueryEscape :: "string \<Rightarrow> string" where
  "QueryEscape s =
     concat (map (\<lambda>c. if unreserved c then [c] else if c = CHR '' '' then ''+'' else percent c) s)"

section \<open>Requests\<close>

text \<open>
  The length of the body on the wire: unknown (-1) for a reader that \<open>net/http\<close> cannot
  measure, unless the caller gave one.
\<close>

definition outgoing_length :: "reader option \<Rightarrow> int \<Rightarrow> int" where
  "outgoing_length body sz =
     (case body of
        None \<Rightarrow> 0
      | Some (BytesReader []) \<Rightarrow> 0
      | Some b \<Rightarrow>
          if sz > 0 then sz else case b of BytesReader bs \<Rightarrow> int (length bs) | _ \<Rightarrow> -1)"

definition contentTypeOctetStream :: string where
  "contentTypeOctetStream = ''application/octet-stream''"

definition Client_Limits ::
  "'w client_host \<Rightarrow> ('w, 'k, 'g) Client \<Rightarrow> 'w \<Rightarrow> (client_err + client_Limits) \<times> ('w, 'k, 'g) Client \<times> 'w" where
  "Client_Limits host c w =
     (case c_limits c of
        Some lim \<Rightarrow> (Inr lim, c, w)
      | None \<Rightarrow>
    (let url = c_baseURL c @ ''/v1/limits''
     in case ch_NewRequest host ''GET'' url of
        Some e \<Rightarrow> (Inl (BadRequest e), c, w)
      | None \<Rightarrow>
    (case c_http c w \<lparr>hr_Method = ''GET'', hr_URL = url, hr_Header = [], hr_Body = None, hr_Length = 0\<rparr> of
       (Inl e, w) \<Rightarrow> (Inl (FetchLimits e), c, w)
     | (Inr resp, w) \<Rightarrow>
         if rs_Status resp \<noteq> 200 then (Inl (decodeAPIError resp), c, w)
         else
    (case decode_body limits_flds zero_limits resp of
       None \<Rightarrow> (Inl DecodeLimits, c, w)
     | Some lim \<Rightarrow>
         if lim_ServerIdentityKey lim = '''' then (Inl ErrNoServerIdentityKey, c, w)
         else (Inr lim, c\<lparr>c_limits := Some lim\<rparr>, w)))))"

definition roundTrip ::
  "'w client_host \<Rightarrow> ('w, 'k, 'g) Client \<Rightarrow> ('k, 'g) wallet_api \<Rightarrow> string \<Rightarrow> string \<Rightarrow> string \<Rightarrow> string \<Rightarrow>
   reader option \<Rightarrow> int \<Rightarrow> 'w \<Rightarrow> (client_err + http_response) \<times> 'w" where
  "roundTrip host c wallet serverIdentityKey meth requestURI bodySha256 body sz w =
     (case ch_Now host w of (now, w) \<Rightarrow>
      case ch_Rand host w of (nonce, w) \<Rightarrow>
    (case Sign wallet serverIdentityKey (Action meth requestURI bodySha256) now nonce of
       Inl e \<Rightarrow> (Inl (SignRequest e), w)
     | Inr p \<Rightarrow>
    (let url = c_baseURL c @ requestURI
     in case ch_NewRequest host meth url of
       Some e \<Rightarrow> (Inl (BadRequest e), w)
     | None \<Rightarrow>
    (let req = \<lparr>hr_Method = meth, hr_URL = url,
                hr_Header = (Header, Encode p) #
                  (if body = None then [] else [(''Content-Type'', contentTypeOctetStream)]),
                hr_Body = body, hr_Length = outgoing_length body sz\<rparr>
     in case c_http c w req of
       (Inl e, w) \<Rightarrow> (Inl (RequestFailed e), w)
     | (Inr resp, w) \<Rightarrow>
         if rs_Status resp < 200 \<or> rs_Status resp \<ge> 300 then (Inl (decodeAPIError resp), w)
         else (Inr resp, w)))))"

definition isSpentProofRefusal :: "client_err + 'a \<Rightarrow> bool" where
  "isSpentProofRefusal res =
     (case res of
        Inl (APIError status code message) \<Rightarrow>
          status = 401 \<and> code = ''ERR_AUTH_REQUIRED'' \<and> sublist ''proof already used'' message
      | _ \<Rightarrow> False)"

definition Client_do ::
  "'w client_host \<Rightarrow> ('w, 'k, 'g) Client \<Rightarrow> string \<Rightarrow> string \<Rightarrow> string \<Rightarrow> reader option \<Rightarrow> int \<Rightarrow> 'w \<Rightarrow>
   (client_err + http_response) \<times> ('w, 'k, 'g) Client \<times> 'w" where
  "Client_do host c meth requestURI bodySha256 body sz w =
     (case c_wallet c of
        None \<Rightarrow> (Inl NoUsableKey, c, w)
      | Some wallet \<Rightarrow>
    (case Client_Limits host c w of
       (Inl e, c, w) \<Rightarrow> (Inl e, c, w)
     | (Inr lim, c, w) \<Rightarrow>
    (case roundTrip host c wallet (lim_ServerIdentityKey lim) meth requestURI bodySha256 body sz w of
       (res, w) \<Rightarrow>
         if body = None \<and> isSpentProofRefusal res
         then (case roundTrip host c wallet (lim_ServerIdentityKey lim) meth requestURI bodySha256 None 0 w of
                 (res, w) \<Rightarrow> (res, c, w))
         else (res, c, w))))"

section \<open>Calls\<close>

definition append_uri :: "string \<Rightarrow> int \<Rightarrow> int \<Rightarrow> string \<Rightarrow> string" where
  "append_uri deviceID generation seq prevSha256 =
     ''/v1/log/'' @ PathEscape deviceID @ ''?seq='' @ format_int seq @ ''&generation='' @ format_int generation @
     (if prevSha256 \<noteq> '''' then ''&prevSha256='' @ QueryEscape prevSha256 else '''')"

definition Client_Append ::
  "'w client_host \<Rightarrow> ('w, 'k, 'g) Client \<Rightarrow> string \<Rightarrow> int \<Rightarrow> int \<Rightarrow> string \<Rightarrow> reader option \<Rightarrow> string \<Rightarrow> int \<Rightarrow> 'w \<Rightarrow>
   (client_err + AppendResult) \<times> ('w, 'k, 'g) Client \<times> 'w" where
  "Client_Append host c deviceID generation seq prevSha256 body bodySha256 sz w =
     (case Client_do host c ''POST'' (append_uri deviceID generation seq prevSha256) bodySha256 body sz w of
        (Inl e, st) \<Rightarrow> (Inl e, st)
      | (Inr resp, st) \<Rightarrow>
          (case decode_body append_flds zero_result resp of
             None \<Rightarrow> (Inl (DecodeResponse ''append''), st)
           | Some out \<Rightarrow> (Inr out, st)))"

definition AppendBytes ::
  "'w client_host \<Rightarrow> ('w, 'k, 'g) Client \<Rightarrow> string \<Rightarrow> int \<Rightarrow> int \<Rightarrow> string \<Rightarrow> bytes \<Rightarrow> 'w \<Rightarrow>
   (client_err + AppendResult) \<times> ('w, 'k, 'g) Client \<times> 'w" where
  "AppendBytes host c deviceID generation seq prevSha256 data w =
     Client_Append host c deviceID generation seq prevSha256 (Some (BytesReader data)) (sha256_hex data)
       (int (length data)) w"

definition blob_uri :: "string \<Rightarrow> int \<Rightarrow> int \<Rightarrow> string" where
  "blob_uri deviceID generation seq =
     ''/v1/log/'' @ PathEscape deviceID @ ''/'' @ format_int seq @ ''?generation='' @ format_int generation"

text \<open>The blob is handed on as it streams: what can be read of it, how it ends, and its announced length.\<close>

definition Client_Blob ::
  "'w client_host \<Rightarrow> ('w, 'k, 'g) Client \<Rightarrow> string \<Rightarrow> int \<Rightarrow> int \<Rightarrow> 'w \<Rightarrow>
   (client_err + (bytes \<times> rd_err) \<times> int) \<times> ('w, 'k, 'g) Client \<times> 'w" where
  "Client_Blob host c deviceID generation seq w =
     (case Client_do host c ''GET'' (blob_uri deviceID generation seq) '''' None 0 w of
        (Inl e, st) \<Rightarrow> (Inl e, st)
      | (Inr resp, st) \<Rightarrow> (Inr ((rs_Body resp, rs_End resp), rs_Length resp), st))"

definition index_uri :: "string \<Rightarrow> int \<Rightarrow> int \<Rightarrow> int \<Rightarrow> string" where
  "index_uri deviceID generation from limit =
     ''/v1/log/'' @ PathEscape deviceID @ ''?generation='' @ format_int generation @
     (if from > 0 then ''&from='' @ format_int from else '''') @
     (if limit > 0 then ''&limit='' @ format_int limit else '''')"

definition Client_Index ::
  "'w client_host \<Rightarrow> ('w, 'k, 'g) Client \<Rightarrow> string \<Rightarrow> int \<Rightarrow> int \<Rightarrow> int \<Rightarrow> 'w \<Rightarrow>
   (client_err + client_Entry list) \<times> ('w, 'k, 'g) Client \<times> 'w" where
  "Client_Index host c deviceID generation from limit w =
     (case Client_do host c ''GET'' (index_uri deviceID generation from limit) '''' None 0 w of
        (Inl e, st) \<Rightarrow> (Inl e, st)
      | (Inr resp, st) \<Rightarrow>
          (case decode_body [(''ENTRIES'', list_field (entry_flds (ch_parse_time host)) zero_entry)] [] resp of
             None \<Rightarrow> (Inl (DecodeResponse ''index''), st)
           | Some out \<Rightarrow> (Inr out, st)))"

definition Client_Manifest ::
  "'w client_host \<Rightarrow> ('w, 'k, 'g) Client \<Rightarrow> 'w \<Rightarrow>
   (client_err + client_DeviceSummary list) \<times> ('w, 'k, 'g) Client \<times> 'w" where
  "Client_Manifest host c w =
     (case Client_do host c ''GET'' ''/v1/manifest'' '''' None 0 w of
        (Inl e, st) \<Rightarrow> (Inl e, st)
      | (Inr resp, st) \<Rightarrow>
          (case decode_body [(''DEVICES'', list_field (summary_flds (ch_parse_time host)) zero_summary)] [] resp of
             None \<Rightarrow> (Inl (DecodeResponse ''manifest''), st)
           | Some out \<Rightarrow> (Inr out, st)))"

definition Client_PruneGeneration ::
  "'w client_host \<Rightarrow> ('w, 'k, 'g) Client \<Rightarrow> string \<Rightarrow> int \<Rightarrow> 'w \<Rightarrow>
   client_err option \<times> ('w, 'k, 'g) Client \<times> 'w" where
  "Client_PruneGeneration host c deviceID generation w =
     (case Client_do host c ''DELETE'' (''/v1/generation/'' @ PathEscape deviceID @ ''/'' @ format_int generation)
             '''' None 0 w of
        (Inl e, st) \<Rightarrow> (Some e, st)
      | (Inr resp, st) \<Rightarrow> (None, st))"

definition Client_DeleteAccount ::
  "'w client_host \<Rightarrow> ('w, 'k, 'g) Client \<Rightarrow> 'w \<Rightarrow> (client_err + int) \<times> ('w, 'k, 'g) Client \<times> 'w" where
  "Client_DeleteAccount host c w =
     (case Client_do host c ''DELETE'' ''/v1/account'' '''' None 0 w of
        (Inl e, st) \<Rightarrow> (Inl e, st)
      | (Inr resp, st) \<Rightarrow>
          (case decode_body [(''DELETED'', int_field (\<lambda>n _. n))] 0 resp of
             None \<Rightarrow> (Inl (DecodeResponse ''delete''), st)
           | Some out \<Rightarrow> (Inr out, st)))"

end
