(* ===== verification/Client_Requests.thy ===== *)
theory Client_Requests
  imports Go_Client Handlers
begin

text \<open>
  What the client's requests say once they arrive: the server reads from the request line
  exactly the values the call was made with.
\<close>

section \<open>Escapes\<close>

lemma hex_val_upper: "d < 16 \<Longrightarrow> hex_val (upper_hex d) = Some d"
  by (auto simp: hex_val_def upper_hex_def code_of_def Let_def)

lemma code_div16 [simp]: "code_of c div 16 < 16"
  using code_of_less [of c] by linarith

lemma QueryUnescape_percent: "QueryUnescape (percent c @ s) = map_option (Cons c) (QueryUnescape s)"
  by (simp add: percent_def hex_val_upper)

lemma unreserved_plain: "unreserved c \<Longrightarrow> c \<notin> {CHR 0x25, CHR ''+'', CHR 0x26, CHR ''='', CHR '';'', CHR ''?'', CHR '' '', CHR ''/''}"
  by (auto simp: unreserved_def code_of_def Let_def)

lemma QueryUnescape_QueryEscape: "QueryUnescape (QueryEscape s) = Some s"
proof (induction s)
  case (Cons c s)
  show ?case
  proof (cases "unreserved c")
    case True
    then show ?thesis using Cons unreserved_plain [OF True] by (simp add: QueryEscape_def)
  next
    case False
    then show ?thesis using Cons QueryUnescape_percent [of c] by (auto simp: QueryEscape_def)
  qed
qed (simp add: QueryEscape_def)

lemma upper_hex_unreserved: "d < 16 \<Longrightarrow> unreserved (upper_hex d)"
  by (auto simp: unreserved_def upper_hex_def code_of_def Let_def)

lemma escaped_chars:
  assumes "x \<in> set (QueryEscape s)"
  shows "unreserved x \<or> x = CHR ''+'' \<or> x = CHR 0x25"
proof -
  from assms obtain c where "x \<in> set (if unreserved c then [c] else if c = CHR '' '' then ''+'' else percent c)"
    unfolding QueryEscape_def set_concat set_map by blast
  then show ?thesis by (auto simp: percent_def upper_hex_unreserved split: if_splits)
qed

text \<open>Neither an escaped text nor a number has a separator in it, and both are ASCII.\<close>

definition plain :: "char \<Rightarrow> bool" where
  "plain x \<longleftrightarrow> x \<notin> {CHR 0x26, CHR ''='', CHR '';'', CHR ''?'', CHR '' ''} \<and> code_of x < 128"

lemma unreserved_ascii: "unreserved c \<Longrightarrow> code_of c < 128"
  by (auto simp: unreserved_def Let_def code_of_def)

lemma QueryEscape_plain: "x \<in> set (QueryEscape s) \<Longrightarrow> plain x"
  using escaped_chars [of x s] unreserved_plain [of x] unreserved_ascii [of x] by (auto simp: plain_def code_of_def)

lemma lower_hex_unreserved: "is_lower_hex c \<Longrightarrow> unreserved c"
  by (auto simp: is_lower_hex_def is_digit_def unreserved_def Let_def)

lemma PathEscape_hex: "list_all is_lower_hex s \<Longrightarrow> PathEscape s = s"
  by (induction s) (auto simp: PathEscape_def lower_hex_unreserved)

section \<open>Queries\<close>

lemma split_on_end: "c \<notin> set xs \<Longrightarrow> split_on c xs = [xs]"
  by (induction xs) auto

lemma split_on_sep: "c \<notin> set xs \<Longrightarrow> split_on c (xs @ c # ys) = xs # split_on c ys"
  by (induction xs) auto

lemma cut_sep: "c \<notin> set xs \<Longrightarrow> cut c (xs @ c # ys) = (xs, ys)"
  by (induction xs) (auto simp: cut_def)

lemma query_pair_param:
  assumes "CHR ''='' \<notin> set k" "CHR '';'' \<notin> set k" "CHR '';'' \<notin> set v" "QueryUnescape k = Some k'" "QueryUnescape v = Some v'"
  shows "query_pair (k @ CHR ''='' # v) = [(k', v')]"
  using assms by (simp add: query_pair_def cut_sep)

lemma format_int_plain: "x \<in> set (format_int n) \<Longrightarrow> plain x"
  using format_int_chars [of x n] by (auto simp: plain_def is_digit_def code_of_def)

lemma plain_separators:
  "plain x \<Longrightarrow> x \<noteq> CHR 0x26" "plain x \<Longrightarrow> x \<noteq> CHR ''=''" "plain x \<Longrightarrow> x \<noteq> CHR '';''" "plain x \<Longrightarrow> x \<noteq> CHR ''?''"
  "plain x \<Longrightarrow> x \<noteq> CHR '' ''"
  by (simp_all add: plain_def)

lemma QueryUnescape_format_int: "QueryUnescape (format_int n) = Some (format_int n)"
proof -
  have "QueryUnescape s = Some s" if "\<forall>c \<in> set s. c \<noteq> CHR 0x25 \<and> c \<noteq> CHR ''+''" for s
    using that by (induction s) auto
  then show ?thesis using format_int_chars [of _ n] by (fastforce simp: is_digit_def code_of_def)
qed

text \<open>A query of names and escaped values, and the pairs that the server reads of it.\<close>

fun query_text :: "(string \<times> string) list \<Rightarrow> string" where
  "query_text [] = ''''"
| "query_text [(k, v)] = k @ ''='' @ v"
| "query_text ((k, v) # kv # ps) = k @ ''='' @ v @ [CHR 0x26] @ query_text (kv # ps)"

definition param_ok :: "string \<times> string \<Rightarrow> bool" where
  "param_ok kv \<longleftrightarrow> (\<forall>x \<in> set (fst kv). plain x) \<and> (\<forall>x \<in> set (snd kv). plain x) \<and>
     QueryUnescape (fst kv) = Some (fst kv) \<and> QueryUnescape (snd kv) \<noteq> None"

lemma param_pair:
  assumes "param_ok (k, v)"
  shows "CHR 0x26 \<notin> set (k @ CHR ''='' # v)" "query_pair (k @ CHR ''='' # v) = [(k, the (QueryUnescape v))]"
proof -
  have kv: "plain x" if "x \<in> set k \<union> set v" for x using assms that by (auto simp: param_ok_def)
  then have "CHR 0x26 \<notin> set k \<union> set v" using plain_separators(1) by blast
  then show "CHR 0x26 \<notin> set (k @ CHR ''='' # v)" by simp
  have "CHR ''='' \<notin> set k" "CHR '';'' \<notin> set k" "CHR '';'' \<notin> set v" using kv plain_separators(2,3) by blast+
  then show "query_pair (k @ CHR ''='' # v) = [(k, the (QueryUnescape v))]"
    using assms by (intro query_pair_param) (auto simp: param_ok_def)
qed

lemma query_text_pairs:
  "ps \<noteq> [] \<Longrightarrow> \<forall>kv \<in> set ps. param_ok kv \<Longrightarrow>
     concat (map query_pair (split_on (CHR 0x26) (query_text ps))) = map (\<lambda>kv. (fst kv, the (QueryUnescape (snd kv)))) ps"
proof (induction ps rule: query_text.induct)
  case (2 k v)
  then show ?case using param_pair [of k v] by (simp add: split_on_end)
next
  case (3 k v kv ps)
  then have kv: "param_ok (k, v)" by simp
  from param_pair(1) [OF kv] have "split_on (CHR 0x26) (query_text ((k, v) # kv # ps)) = (k @ CHR ''='' # v) # split_on (CHR 0x26) (query_text (kv # ps))"
    using split_on_sep [of "CHR 0x26" "k @ CHR ''='' # v" "query_text (kv # ps)"] by simp
  with 3 param_pair(2) [OF kv] show ?case by (simp del: query_text.simps)
qed simp

lemma query_text_ascii: "\<forall>kv \<in> set ps. param_ok kv \<Longrightarrow> \<forall>x \<in> set (query_text ps). code_of x < 128 \<and> x \<noteq> CHR '' ''"
proof (induction ps rule: query_text.induct)
  case (2 k v)
  then show ?case by (auto simp: param_ok_def plain_def code_of_def)
next
  case (3 k v kv ps)
  from 3(2) have "param_ok (k, v)" by simp
  then have "\<forall>x \<in> set k \<union> set v. code_of x < 128 \<and> x \<noteq> CHR '' ''" by (auto simp: param_ok_def plain_def)
  moreover have "\<forall>x \<in> set (query_text (kv # ps)). code_of x < 128 \<and> x \<noteq> CHR '' ''" using 3 by simp
  ultimately show ?case
    unfolding query_text.simps(3) set_append by (simp add: ball_Un code_of_def del: query_text.simps)
qed simp

lemma param_int: "\<forall>x \<in> set k. plain x \<Longrightarrow> QueryUnescape k = Some k \<Longrightarrow> param_ok (k, format_int n)"
  using format_int_plain QueryUnescape_format_int by (simp add: param_ok_def)

lemma param_names:
  "param_ok (''seq'', format_int n)" "param_ok (''generation'', format_int n)" "param_ok (''from'', format_int n)"
  "param_ok (''limit'', format_int n)" "param_ok (''prevSha256'', QueryEscape s)"
  by (rule param_int; simp add: plain_def code_of_def)+
    (use QueryEscape_plain in \<open>simp add: param_ok_def QueryUnescape_QueryEscape, simp add: plain_def code_of_def\<close>)

text \<open>The parameters of an upload, as text and as the handler reads them.\<close>

definition append_query :: "int \<Rightarrow> int \<Rightarrow> string \<Rightarrow> string" where
  "append_query seq generation prevSha256 =
     ''seq='' @ format_int seq @ ''&generation='' @ format_int generation @
     (if prevSha256 \<noteq> '''' then ''&prevSha256='' @ QueryEscape prevSha256 else '''')"

abbreviation append_pairs :: "int \<Rightarrow> int \<Rightarrow> string \<Rightarrow> (string \<times> string) list" where
  "append_pairs n g prev \<equiv>
     [(''seq'', format_int n), (''generation'', format_int g)] @ (if prev \<noteq> '''' then [(''prevSha256'', QueryEscape prev)] else [])"

lemma append_query_text: "append_query n g prev = query_text (append_pairs n g prev)" "\<forall>kv \<in> set (append_pairs n g prev). param_ok kv"
  using param_names by (auto simp: append_query_def)

lemma append_query_pairs:
  "concat (map query_pair (split_on (CHR 0x26) (append_query n g prev))) =
     [(''seq'', format_int n), (''generation'', format_int g)] @ (if prev \<noteq> '''' then [(''prevSha256'', prev)] else [])"
  using query_text_pairs [OF _ append_query_text(2)]
  by (simp add: append_query_text(1) QueryUnescape_format_int QueryUnescape_QueryEscape)

lemma first_value_query:
  "first_value (concat (map query_pair (split_on (CHR 0x26) (append_query n g prev)))) ''seq'' = format_int n"
  "first_value (concat (map query_pair (split_on (CHR 0x26) (append_query n g prev)))) ''generation'' = format_int g"
  "first_value (concat (map query_pair (split_on (CHR 0x26) (append_query n g prev)))) ''prevSha256'' = prev"
  by (simp_all add: append_query_pairs first_value_def)

lemma positiveIntParam_format:
  assumes "first_value (Query r) name = format_int n" "1 \<le> n" "n \<le> 2 ^ 30"
  shows "positiveIntParam r name = Some n"
  using assms by (simp add: positiveIntParam_def atoi_format_int int64_ok_def)

lemma append_params:
  assumes "rq_RawQuery r = append_query n g prev" "1 \<le> n" "n \<le> 2 ^ 30" "1 \<le> g" "g \<le> 2 ^ 30"
  shows "positiveIntParam r ''seq'' = Some n" "positiveIntParam r ''generation'' = Some g"
    "first_value (Query r) ''prevSha256'' = prev"
  using assms first_value_query [of n g prev] by (simp_all add: positiveIntParam_format Query_def)

lemma generation_param:
  assumes "rq_RawQuery r = ''generation='' @ format_int g" "1 \<le> g" "g \<le> 2 ^ 30"
  shows "positiveIntParam r ''generation'' = Some g"
proof -
  have "Query r = [(''generation'', format_int g)]"
    using query_text_pairs [of "[(''generation'', format_int g)]"] param_names(2) assms(1)
    by (simp add: Query_def QueryUnescape_format_int)
  with assms(2,3) show ?thesis by (intro positiveIntParam_format) (simp_all add: first_value_def)
qed

text \<open>The parameters of an index; what is not positive is left to the server.\<close>

definition index_query :: "int \<Rightarrow> int \<Rightarrow> int \<Rightarrow> string" where
  "index_query generation from limit =
     ''generation='' @ format_int generation @ (if from > 0 then ''&from='' @ format_int from else '''') @
     (if limit > 0 then ''&limit='' @ format_int limit else '''')"

abbreviation index_pairs :: "int \<Rightarrow> int \<Rightarrow> int \<Rightarrow> (string \<times> string) list" where
  "index_pairs g from limit \<equiv> (''generation'', format_int g) # (if from > 0 then [(''from'', format_int from)] else []) @
     (if limit > 0 then [(''limit'', format_int limit)] else [])"

lemma index_query_text: "index_query g from limit = query_text (index_pairs g from limit)" "\<forall>kv \<in> set (index_pairs g from limit). param_ok kv"
  using param_names by (auto simp: index_query_def)

lemma index_params:
  assumes "rq_RawQuery r = index_query g from limit" "1 \<le> g" "g \<le> 2 ^ 30" "int64_ok from" "int64_ok limit"
  shows "positiveIntParam r ''generation'' = Some g" "optionalIntParam r ''from'' 1 = (if from > 0 then from else 1)"
    "Index_limit r = (if 1 \<le> limit \<and> limit \<le> DefaultIndexLimit then limit else DefaultIndexLimit)"
proof -
  have q: "Query r = index_pairs g from limit"
    using query_text_pairs [OF _ index_query_text(2)] assms(1)
    by (simp add: Query_def index_query_text(1) QueryUnescape_format_int)
  show "positiveIntParam r ''generation'' = Some g"
    using assms(2,3) by (intro positiveIntParam_format) (simp_all add: q first_value_def)
  have none: "atoi '''' = None" by (simp add: atoi_def)
  show "optionalIntParam r ''from'' 1 = (if from > 0 then from else 1)"
    using assms(4) by (simp add: optionalIntParam_def q first_value_def atoi_format_int none)
  show "Index_limit r = (if 1 \<le> limit \<and> limit \<le> DefaultIndexLimit then limit else DefaultIndexLimit)"
    using assms(5) by (auto simp: Index_limit_def optionalIntParam_def q first_value_def atoi_format_int none DefaultIndexLimit_def Let_def)
qed

section \<open>Numbers in a path\<close>

lemma parse_digits_mono: "parse_digits m s = Some k \<Longrightarrow> m \<le> k"
  by (induction s arbitrary: m) (fastforce split: if_splits)+

lemma parsePathInt_loop_digits:
  assumes "list_all is_digit s" "0 \<le> acc" "acc \<le> 2 ^ 30"
  shows "parsePathInt_loop acc s = (case parse_digits (nat acc) s of
     Some n \<Rightarrow> if 1 \<le> n \<and> n \<le> 2 ^ 30 then Some (int n) else None | None \<Rightarrow> None)"
  using assms
proof (induction s arbitrary: acc)
  case Nil
  then show ?case by (auto simp: le_nat_iff nat_le_iff)
next
  case (Cons c s)
  let ?a = "acc * 10 + int (digit_val c)"
  have a: "nat ?a = 10 * nat acc + digit_val c" "0 \<le> ?a" using Cons.prems(2) by simp_all
  show ?case
  proof (cases "?a > 2 ^ 30")
    case True
    have "\<not> k \<le> 2 ^ 30" if "parse_digits (nat ?a) s = Some k" for k
    proof -
      have "nat ?a \<le> k" using parse_digits_mono [OF that] .
      with True show ?thesis by simp
    qed
    with True Cons.prems a show ?thesis by (auto simp: Let_def split: option.splits)
  next
    case False
    with Cons a show ?thesis by (simp add: Let_def)
  qed
qed

lemma parsePathInt_loop_digit: "parsePathInt_loop acc s = Some n \<Longrightarrow> list_all is_digit s"
  by (induction s arbitrary: acc) (auto simp: Let_def split: if_splits)

text \<open>\<open>parsePathInt\<close> accepts exactly the decimal digits of a number from 1 to 2^30, leading zeros allowed.\<close>

lemma parsePathInt_digits:
  "parsePathInt s = Some n \<longleftrightarrow> s \<noteq> '''' \<and> list_all is_digit s \<and> parse_digits 0 s = Some (nat n) \<and> 1 \<le> n \<and> n \<le> 2 ^ 30"
proof (cases "list_all is_digit s")
  case True
  then show ?thesis
    using parsePathInt_loop_digits [of s 0] by (auto simp: parsePathInt_def split: option.splits if_splits)
qed (auto simp: parsePathInt_def dest: parsePathInt_loop_digit)

lemma parsePathInt_format: "1 \<le> n \<Longrightarrow> n \<le> 2 ^ 30 \<Longrightarrow> parsePathInt (format_int n) = Some n"
  unfolding parsePathInt_digits
  by (auto simp: format_int_def parse_digits_format_nat list_all_iff dest: format_nat_digits)

end
