(* ===== verification/Json_Text.thy ===== *)
theory Json_Text
  imports Http
begin

text \<open>
  The text of a JSON answer (\<open>encoding/json\<close> on what \<open>WriteJSON\<close> is given), and that parsing it
  gives the answer back.
\<close>

fun join :: "string list \<Rightarrow> string" where
  "join [] = ''''"
| "join [s] = s"
| "join (s # t # ts) = s @ '','' @ join (t # ts)"

fun payload_text :: "(time \<Rightarrow> string) \<Rightarrow> payload \<Rightarrow> string" where
  "payload_text fmt (PNum n) = format_int n"
| "payload_text fmt (PText s) = json_quote s"
| "payload_text fmt (PTime t) = json_quote (fmt t)"
| "payload_text fmt (PList ps) = ''['' @ join (map (payload_text fmt) ps) @ '']''"
| "payload_text fmt (PObj ms) = ''{'' @ join (map (\<lambda>m. json_field (fst m) (payload_text fmt (snd m))) ms) @ ''}''"

fun payload_json :: "(time \<Rightarrow> string) \<Rightarrow> payload \<Rightarrow> json" where
  "payload_json fmt (PNum n) = JNum (format_int n)"
| "payload_json fmt (PText s) = JStr s"
| "payload_json fmt (PTime t) = JStr (fmt t)"
| "payload_json fmt (PList ps) = JArr (map (payload_json fmt) ps)"
| "payload_json fmt (PObj ms) = JObj (map (\<lambda>m. (fst m, payload_json fmt (snd m))) ms)"

text \<open>An answer of ASCII texts that nests at most \<open>n\<close> deep.\<close>

fun payload_ok :: "(time \<Rightarrow> string) \<Rightarrow> nat \<Rightarrow> payload \<Rightarrow> bool" where
  "payload_ok fmt n (PNum i) \<longleftrightarrow> True"
| "payload_ok fmt n (PText s) \<longleftrightarrow> ascii s"
| "payload_ok fmt n (PTime t) \<longleftrightarrow> ascii (fmt t)"
| "payload_ok fmt n (PList ps) \<longleftrightarrow> 0 < n \<and> (\<forall>p \<in> set ps. payload_ok fmt (n - 1) p)"
| "payload_ok fmt n (PObj ms) \<longleftrightarrow> 0 < n \<and> (\<forall>m \<in> set ms. ascii (fst m) \<and> payload_ok fmt (n - 1) (snd m))"

text \<open>What may follow a value: a separator, a closing bracket, a line break.\<close>

definition closes :: "char \<Rightarrow> bool" where
  "closes c \<longleftrightarrow> c \<in> {CHR '','', CHR '']'', CHR ''}'', CHR 0x0A}"

lemma closes_num_end: "closes c \<Longrightarrow> num_end c"
  by (auto simp: closes_def num_end_def is_digit_def code_of_def)

lemma json_members_text:
  assumes "ms \<noteq> []" and "\<forall>m \<in> set ms. ascii (fst m) \<and>
      (\<forall>c r. closes c \<longrightarrow> json_value d (T (snd m) @ c # r) = Some (J (snd m), c # r))"
  shows "json_members d (join (map (\<lambda>m. json_field (fst m) (T (snd m))) ms) @ CHR ''}'' # r) =
     Some (map (\<lambda>m. (fst m, J (snd m))) ms, r)"
  using assms
proof (induction ms rule: induct_list012)
  case (2 m)
  then show ?case by (simp add: json_members_last closes_def)
next
  case (3 m m' ms)
  then have "json_members d (json_field (fst m) (T (snd m)) @ CHR '','' # u) =
      map_option (\<lambda>(ns, t). ((fst m, J (snd m)) # ns, t)) (json_members d u)" for u
    by (intro json_members_field) (simp_all add: closes_def)
  with 3 show ?case by simp
qed simp

lemma json_elements_text:
  assumes "ps \<noteq> []" and "\<forall>p \<in> set ps. \<forall>c r. closes c \<longrightarrow> json_value d (T p @ c # r) = Some (J p, c # r)"
  shows "json_elements d (join (map T ps) @ CHR '']'' # r) = Some (map J ps, r)"
  using assms
proof (induction ps rule: induct_list012)
  case (2 p)
  then have "json_value d (T p @ CHR '']'' # r) = Some (J p, CHR '']'' # r)" by (simp add: closes_def)
  then show ?case by (simp add: json_elements.simps [of d "T p @ CHR '']'' # r"] punct)
next
  case (3 p q ps)
  let ?u = "join (T q # map T ps) @ CHR '']'' # r"
  have "json_value d (T p @ CHR '','' # ?u) = Some (J p, CHR '','' # ?u)" using 3(4) by (simp add: closes_def)
  with 3 show ?case by (simp add: json_elements.simps [of d "T p @ CHR '','' # ?u"] punct)
qed simp

lemma json_opening:
  assumes "c # r = s"
  shows "\<not> is_ws c \<Longrightarrow> c \<noteq> CHR ''}'' \<Longrightarrow> json_members (Suc d) s = Some (ms, t) \<Longrightarrow> d < max_nesting \<Longrightarrow>
      json_value d (CHR ''{'' # s) = Some (JObj ms, t)"
    and "\<not> is_ws c \<Longrightarrow> c \<noteq> CHR '']'' \<Longrightarrow> json_elements (Suc d) s = Some (vs, t) \<Longrightarrow> d < max_nesting \<Longrightarrow>
      json_value d (CHR ''['' # s) = Some (JArr vs, t)"
  using assms expect_miss [of c "CHR ''}''" r] expect_miss [of c "CHR '']''" r]
  by (auto simp: json_value.simps [of d "CHR ''{'' # s"] json_value.simps [of d "CHR ''['' # s"] skip_ws_def is_ws_def)

text \<open>No value starts with white space or a closing bracket.\<close>

lemma payload_head: "\<exists>c r. payload_text fmt p = c # r \<and> \<not> is_ws c \<and> c \<noteq> CHR '']'' \<and> c \<noteq> CHR ''}''"
proof (cases p)
  case (PNum n)
  obtain x cs where f: "format_int n = x # cs" by (cases "format_int n") (auto simp: format_int_def split: if_splits)
  with format_int_chars [of x n] PNum show ?thesis by (auto simp: is_ws_def is_digit_def code_of_def)
qed (simp_all add: json_quote_def is_ws_def)

lemma json_value_text:
  assumes "payload_ok fmt (max_nesting - d) p" "closes c"
  shows "json_value d (payload_text fmt p @ c # r) = Some (payload_json fmt p, c # r)"
  using assms
proof (induction fmt p arbitrary: d c r rule: payload_text.induct)
  case (4 fmt ps)
  have d: "d < max_nesting" using 4(2) by simp
  show ?case
  proof (cases "ps = []")
    case True
    with d show ?thesis by (simp add: json_value.simps [of d "CHR ''['' # CHR '']'' # c # r"] skip_ws_def is_ws_def punct)
  next
    case False
    then obtain q qs where ps: "ps = q # qs" by (cases ps) auto
    obtain x s where head: "join (map (payload_text fmt) ps) = x # s" "\<not> is_ws x" "x \<noteq> CHR '']''"
      using payload_head [of fmt q] by (cases qs) (auto simp: ps)
    have "json_elements (Suc d) (join (map (payload_text fmt) ps) @ CHR '']'' # c # r) = Some (map (payload_json fmt) ps, c # r)"
      using 4 False by (intro json_elements_text) simp_all
    with head d show ?thesis by (simp add: json_opening(2) [OF refl])
  qed
next
  case (5 fmt ms)
  have d: "d < max_nesting" using 5(2) by simp
  show ?case
  proof (cases "ms = []")
    case True
    with d show ?thesis by (simp add: json_value.simps [of d "CHR ''{'' # CHR ''}'' # c # r"] skip_ws_def is_ws_def punct)
  next
    case False
    then obtain m ns where ms: "ms = m # ns" by (cases ms) auto
    obtain x s where head: "join (map (\<lambda>m. json_field (fst m) (payload_text fmt (snd m))) ms) = x # s" "\<not> is_ws x" "x \<noteq> CHR ''}''"
      by (cases ns) (auto simp: ms json_field_def json_quote_def is_ws_def)
    have "json_members (Suc d) (join (map (\<lambda>m. json_field (fst m) (payload_text fmt (snd m))) ms) @ CHR ''}'' # c # r) =
        Some (map (\<lambda>m. (fst m, payload_json fmt (snd m))) ms, c # r)"
      using 5 False by (intro json_members_text) simp_all
    with head d show ?thesis by (simp add: json_opening(1) [OF refl])
  qed
qed (simp_all add: json_value_quote json_value_number closes_num_end)

end
