(* ===== verification/Service_Requests.thy ===== *)
theory Service_Requests
  imports Service
begin

text \<open>
  What single requests come to, over any stores that meet their contracts: an upload
  (\<open>upload_outcome\<close> for every one, on any database, \<open>upload_accepted\<close> and \<open>upload_too_large\<close> for those with
  valid parameters) and a download (\<open>download_handled\<close>).
\<close>

definition cors_headers :: "writer \<Rightarrow> writer" where
  "cors_headers w = set_header ''Access-Control-Allow-Methods'' ''GET, POST, DELETE, OPTIONS''
       (set_header ''Access-Control-Allow-Headers'' ''*'' (set_header ''Access-Control-Allow-Origin'' ''*'' w))"

lemma cors_headers_fresh [simp]: "unsent (cors_headers w) = unsent w" "within (cors_headers w) = within w"
  by (simp_all add: cors_headers_def set_header_def)

text \<open>The answer to a stored upload.\<close>

definition stored_payload :: "int \<Rightarrow> string \<Rightarrow> int \<Rightarrow> payload" where
  "stored_payload n sha sz =
     PObj [(''seq'', PNum n), (''sha256'', PText sha), (''size'', PNum sz), (''status'', PText ''success'')]"

lemma Append_reply_stored: "Append_reply w n (Inr (sha, sz)) = WriteJSON w 201 (stored_payload n sha sz)"
  by (simp add: Append_reply_def stored_payload_def)

text \<open>What the two wrappers make of a request body.\<close>

lemma upload_body:
  assumes "reader_wf rc" "chunkable rc" "\<not> reader_over rc"
  defines "b \<equiv> \<lambda>l d. DigestBody (CountingBody rc l 0 False) [] d False"
  shows "reader_wf (b l d)" "chunkable (b l d)" "\<not> reader_over (b l d)" "content (b l d) = content rc"
    and "ending (b l d) = EOF \<Longrightarrow> ending rc = EOF \<and> sha256_hex (content rc) = d \<and> int (length (content rc)) \<le> l"
    and "ending (b l d) = ErrUnexpectedEOF \<Longrightarrow> ending rc = ErrUnexpectedEOF \<and> int (length (content rc)) \<le> l"
    and "int (length (content rc)) > l \<Longrightarrow> ending (b l d) = ErrBodyTooLarge"
  using assms by (auto simp: b_def chunkable_def case_prod_unfold split: if_splits)

text \<open>
  An upload needs less of its stores than the contract promises: an append is all or nothing, and
  when the store is not \<open>sure\<close> of its database, one that is there may be answered with an error.
\<close>

locale upload_service =
  fixes ops :: "'s BlobStore" and logs :: "'s \<Rightarrow> logs" and ok :: "'s \<Rightarrow> bool" and clock :: "'s \<Rightarrow> time"
    and sure :: "'s \<Rightarrow> bool" and nops :: "'s NonceStore"
  assumes consume_whole: "ns_Consume nops s n e = (res, s') \<Longrightarrow> ok s \<Longrightarrow> ok s' \<and> logs s' = logs s \<and> (sure s \<longrightarrow> sure s')"
    and Append_whole:
      "ok s \<Longrightarrow> key_ok k \<Longrightarrow> reader_wf body \<Longrightarrow> chunkable body \<Longrightarrow>
       bs_Append ops s k prev body = (r, s', body') \<Longrightarrow>
       ok s' \<and> (reader_over body' \<longrightarrow> reader_over body \<or> ending body = ErrBodyTooLarge) \<and>
       ((\<exists>e. r = Inl e) \<and> logs s' = logs s \<or>
        content body \<noteq> [] \<and> (ending body = EOF \<or> ending body = ErrUnexpectedEOF) \<and>
        key_Seq k = int (length (log_of (logs s) k)) + 1 \<and>
        logs s' = logs_append (logs s) k \<lparr>s_data = content body, s_prev = prev, s_created = clock s\<rparr> \<and>
        (r = Inr (sha256_hex (content body), int (length (content body))) \<or>
         \<not> sure s \<and> append_status r \<in> {409, 500}))"
begin

text \<open>
  What a handler's \<open>Append\<close> changes is one entry at the end of one log, with exactly the bytes of
  the body, and the answer is then 201, or 409 or 500 when the store is not sure; otherwise
  nothing changes and the answer is something else.
\<close>

lemma Append_outcomes:
  assumes sdk: "sdk_ok sdk" and "ok s" "reader_wf (rq_Body r)" "chunkable (rq_Body r)" "rq_Identity r = Some i"
    and "Append sdk ops s r (Guard w l False False) = (s', g)"
  shows "\<exists>status payload ov. g = WriteJSON (Guard w l ov False) status payload \<and>
     (ov \<longrightarrow> reader_over (rq_Body r) \<or> ending (rq_Body r) = ErrBodyTooLarge) \<and>
     (logs s' = logs s \<and> status \<noteq> 201 \<or>
      (\<exists>k st. logs s' = logs_append (logs s) k st \<and> key_Pseudonym k = ToDERHex sdk i \<and>
         key_DeviceID k = URLParam r ''deviceId'' \<and> s_data st = content (rq_Body r) \<and>
         content (rq_Body r) \<noteq> [] \<and> s_prev st = first_value (Query r) ''prevSha256'' \<and>
         key_Seq k = int (length (log_of (logs s) k)) + 1 \<and>
         (ending (rq_Body r) = EOF \<or> ending (rq_Body r) = ErrUnexpectedEOF) \<and>
         (status = 201 \<or> \<not> sure s \<and> status \<in> {409, 500})))"
proof -
  let ?g = "Guard w l False False"
  have ps: "pseudonym sdk ?g r = (ToDERHex sdk i, ?g)"
    using assms(5) by (simp add: pseudonym_def GetIdentityKey_def)
  consider (early) status payload where "g = WriteJSON ?g status payload" "s' = s" "status \<noteq> 201"
    | (store) n gn res body' where "1 \<le> n" "n \<le> 2 ^ 30" "1 \<le> gn" "gn \<le> 2 ^ 30" "name_ok (URLParam r ''deviceId'')"
        "bs_Append ops s \<lparr>key_Pseudonym = ToDERHex sdk i, key_DeviceID = URLParam r ''deviceId'',
           key_Generation = gn, key_Seq = n\<rparr> (first_value (Query r) ''prevSha256'') (rq_Body r) = (res, s', body')"
        "g = Append_reply (Guard w l (reader_over body') False) n res"
    using assms(6) ToDERHex_nonempty [OF sdk, of i] ps
    by (auto simp: Append_def WriteError_def deviceID_def Let_def split: prod.splits if_splits option.splits
        dest!: positiveIntParam_range) (metis deviceID_Some deviceID_def)+
  then show ?thesis
  proof cases
    case early
    then show ?thesis by blast
  next
    case store
    note whole = Append_whole [OF assms(2) request_key_ok [OF sdk store(5) conjI [OF store(3,4)] conjI [OF store(1,2)]] assms(3,4) store(6)]
    obtain payload where "g = WriteJSON (Guard w l (reader_over body') False) (append_status res) payload"
      using store(7) Append_reply_status by blast
    moreover have "append_status res = 201 \<longleftrightarrow> (\<exists>x. res = Inr x)"
      by (auto simp: append_status_def split: sum.splits store_err.splits rd_err.splits)
    ultimately show ?thesis using whole by fastforce
  qed
qed

text \<open>A request the router sends to an authenticated handler.\<close>

lemma auth_route:
  assumes d: "Wallet d = sdk" "Store d = ops" "Nonces d = nops"
    and len: "rq_ContentLength r \<le> MaxBlobBytes d" and opt: "rq_Method r \<noteq> ''OPTIONS''"
    and hit: "mux (map fst (routes d key)) (rq_Method r) (rq_EscapedPath r) = MuxHit pattern params"
    and h: "map_of (routes d key) (rq_Method r, pattern) = Some (AuthProof sdk nops h)"
  shows "app mux d key s r w =
     (case AuthProof sdk nops h s
        (r\<lparr>rq_Body := CountingBody (rq_Body r) (MaxBlobBytes d) 0 False, rq_Params := params\<rparr>)
        (Guard (cors_headers w) (MaxBlobBytes d) False False) of
        (s', g) \<Rightarrow> (s', inner (if guard_owes g then WriteHeader 413 g else g), pattern))"
  using assms
  by (simp add: app_def corsMiddleware_def maxBody_def dispatch_def cors_headers_def Let_def case_prod_unfold)

lemma upload_route:
  assumes d: "Wallet d = sdk" "Store d = ops" "Nonces d = nops"
    and post: "rq_Method r = ''POST''" "rq_ContentLength r \<le> MaxBlobBytes d"
      "mux (map fst (routes d key)) ''POST'' (rq_EscapedPath r) = MuxHit ''/v1/log/{deviceId}'' params"
  shows "app mux d key s r w =
     (case AuthProof sdk nops (Append sdk ops) s
        (r\<lparr>rq_Body := CountingBody (rq_Body r) (MaxBlobBytes d) 0 False, rq_Params := params\<rparr>)
        (Guard (cors_headers w) (MaxBlobBytes d) False False) of
        (s', g) \<Rightarrow> (s', inner (if guard_owes g then WriteHeader 413 g else g), ''/v1/log/{deviceId}''))"
  using assms by (intro auth_route) (simp_all add: routes_def Let_def)

text \<open>An upload that declares more than the cap is turned away before anything looks at it.\<close>

lemma declared_too_large:
  assumes "rq_ContentLength r > MaxBlobBytes d" "rq_Method r \<noteq> ''OPTIONS''" "unsent w" "within w"
  shows "\<exists>w' route. app mux d key s r w = (s, w', route) \<and> sent_status w' = Some 413"
proof -
  have w: "unsent (cors_headers w)" "within (cors_headers w)" using assms(3,4) by simp_all
  have "app mux d key s r w = (s, writeTooLarge (cors_headers w) (MaxBlobBytes d), '''')"
    using assms(1,2) by (simp add: app_def corsMiddleware_def maxBody_def cors_headers_def Let_def)
  then show ?thesis using base_of_WriteJSON [OF w] by (simp add: writeTooLarge_def WriteError_def sent_status_def Let_def)
qed

lemma upload_outcome:
  assumes sdk: "sdk_ok sdk" and d: "Wallet d = sdk" "Store d = ops" "Nonces d = nops"
    and meth: "rq_Method r = ''POST''"
      "mux (map fst (routes d key)) ''POST'' (rq_EscapedPath r) = MuxHit ''/v1/log/{deviceId}'' params"
    and s: "ok s" "reader_wf (rq_Body r)" "chunkable (rq_Body r)" "\<not> reader_over (rq_Body r)"
    and w: "unsent w" "within w" and run: "app mux d key s r w = (s', w', route)"
  shows "logs s' = logs s \<and> sent_status w' \<noteq> Some 201 \<or>
     (\<exists>pf i s1 k st. admits sdk nops s r pf i s1 \<and> key_Pseudonym k = ToDERHex sdk i \<and>
        key_DeviceID k = first_value params ''deviceId'' \<and> logs s' = logs_append (logs s) k st \<and>
        key_Seq k = int (length (log_of (logs s) k)) + 1 \<and> s_prev st = first_value (Query r) ''prevSha256'' \<and>
        s_data st = content (rq_Body r) \<and> int (length (s_data st)) \<le> MaxBlobBytes d \<and> s_data st \<noteq> [] \<and>
        (ending (rq_Body r) = EOF \<and> sha256_hex (s_data st) = BodySha256 (p_Action pf) \<or>
         ending (rq_Body r) = ErrUnexpectedEOF) \<and>
        (sent_status w' = Some 201 \<or> \<not> sure s \<and> sent_status w' \<in> {Some 409, Some 500}))"
proof (cases "rq_ContentLength r \<le> MaxBlobBytes d")
  case False
  have "rq_ContentLength r > MaxBlobBytes d" "rq_Method r \<noteq> ''OPTIONS''" using False meth(1) by simp_all
  from declared_too_large [OF this w, of mux key s] run show ?thesis by auto
next
  case len: True
  define w0 where "w0 = cors_headers w"
  define rb where "rb = r\<lparr>rq_Body := CountingBody (rq_Body r) (MaxBlobBytes d) 0 False, rq_Params := params\<rparr>"
  have w0: "unsent w0" "within w0" using w by (simp_all add: w0_def)
  from run [unfolded upload_route [where mux = mux and key = key and s = s and r = r and params = params and w = w,
      OF d meth(1) len meth(2), folded w0_def]] obtain g where
    auth: "AuthProof sdk nops (Append sdk ops) s rb (Guard w0 (MaxBlobBytes d) False False) = (s', g)"
    and w': "w' = inner (if guard_owes g then WriteHeader 413 g else g)"
    by (auto simp: rb_def split: prod.splits)
  note sent = sent_maxBody [OF w0, where g = g, folded w']
  from auth show ?thesis
  proof (cases rule: AuthProof_cases)
    case (refused status code t)
    then have "sent_status w' = Some status" using sent [where ov = False] by (simp add: WriteError_def)
    moreover have "logs s' = logs s" using refused(3) consume_whole s(1) by metis
    ultimately show ?thesis using refused(2) by auto
  next
    case (admitted pf i s1)
    let ?ra = "authed rb pf i" and ?dig = "BodySha256 (p_Action pf)"
    have s1: "ok s1" "logs s1 = logs s" "sure s \<Longrightarrow> sure s1"
      using admitted(1) consume_whole s(1) by (auto simp: admits_def)
    have adm: "admits sdk nops s r pf i s1" using admitted(1) by (simp add: rb_def)
    then have dig: "?dig \<noteq> ''''" using meth(1) by (simp add: admits_def Let_def)
    have body: "rq_Body ?ra = DigestBody (CountingBody (rq_Body r) (MaxBlobBytes d) 0 False) [] ?dig False"
      "rq_Identity ?ra = Some i" "URLParam ?ra ''deviceId'' = first_value params ''deviceId''" "Query ?ra = Query r"
      using dig by (simp_all add: authed_def WithIdentityKey_def rb_def URLParam_def Query_def)
    note wf = upload_body [where d = "?dig" and l = "MaxBlobBytes d", OF s(2-4), folded body(1)]
    note ends = wf(5,6)
    obtain status payload ov where
      g: "g = WriteJSON (Guard w0 (MaxBlobBytes d) ov False) status payload"
      and ov: "ov \<longrightarrow> ending (rq_Body ?ra) = ErrBodyTooLarge"
      and res: "logs s' = logs s \<and> status \<noteq> 201 \<or>
        (\<exists>k st. logs s' = logs_append (logs s) k st \<and> key_Pseudonym k = ToDERHex sdk i \<and>
         key_DeviceID k = first_value params ''deviceId'' \<and> s_data st = content (rq_Body r) \<and> content (rq_Body r) \<noteq> [] \<and>
         s_prev st = first_value (Query r) ''prevSha256'' \<and> key_Seq k = int (length (log_of (logs s) k)) + 1 \<and>
         (ending (rq_Body ?ra) = EOF \<or> ending (rq_Body ?ra) = ErrUnexpectedEOF) \<and>
         (status = 201 \<or> \<not> sure s1 \<and> status \<in> {409, 500}))"
      using Append_outcomes [OF sdk s1(1) wf(1,2) body(2) admitted(2), unfolded wf(4) s1(2) body(3,4)] wf(3) by blast
    from res show ?thesis
    proof (elim disjE)
      assume "\<exists>k st. logs s' = logs_append (logs s) k st \<and> key_Pseudonym k = ToDERHex sdk i \<and>
         key_DeviceID k = first_value params ''deviceId'' \<and> s_data st = content (rq_Body r) \<and> content (rq_Body r) \<noteq> [] \<and>
         s_prev st = first_value (Query r) ''prevSha256'' \<and> key_Seq k = int (length (log_of (logs s) k)) + 1 \<and>
         (ending (rq_Body ?ra) = EOF \<or> ending (rq_Body ?ra) = ErrUnexpectedEOF) \<and>
         (status = 201 \<or> \<not> sure s1 \<and> status \<in> {409, 500})"
      then obtain k st where new: "logs s' = logs_append (logs s) k st" "key_Pseudonym k = ToDERHex sdk i"
        "key_DeviceID k = first_value params ''deviceId''" "s_data st = content (rq_Body r)" "content (rq_Body r) \<noteq> []"
        "s_prev st = first_value (Query r) ''prevSha256''" "key_Seq k = int (length (log_of (logs s) k)) + 1"
        and e: "ending (rq_Body ?ra) = EOF \<or> ending (rq_Body ?ra) = ErrUnexpectedEOF"
        and status: "status = 201 \<or> \<not> sure s1 \<and> status \<in> {409, 500}" by blast
      have "\<not> ov" using ov e by auto
      with sent [OF g] have "sent_status w' = Some status" by simp
      with status s1(3) have answer: "sent_status w' = Some 201 \<or> \<not> sure s \<and> sent_status w' \<in> {Some 409, Some 500}" by auto
      have "ending (rq_Body r) = EOF \<and> sha256_hex (s_data st) = ?dig \<or> ending (rq_Body r) = ErrUnexpectedEOF"
        "int (length (s_data st)) \<le> MaxBlobBytes d"
        using e ends new(4) by auto
      with adm new answer show ?thesis by metis
    qed (use sent [OF g] in auto)
  qed
qed

end

text \<open>Stores that meet their contracts are sure.\<close>

sublocale service \<subseteq> up: upload_service ops logs ok clock "\<lambda>_. True" nops
proof
  show "ns_Consume nops s n e = (res, s') \<Longrightarrow> ok s \<Longrightarrow> ok s' \<and> logs s' = logs s \<and> (True \<longrightarrow> True)" for s n e res s'
    using consume_logs consume_ok by blast
next
  fix s k body prev r s' body'
  assume "ok s" "key_ok k" "reader_wf body" "chunkable body" "bs_Append ops s k prev body = (r, s', body')"
  from Append_any [OF this] show "ok s' \<and> (reader_over body' \<longrightarrow> reader_over body \<or> ending body = ErrBodyTooLarge) \<and>
       ((\<exists>e. r = Inl e) \<and> logs s' = logs s \<or>
        content body \<noteq> [] \<and> (ending body = EOF \<or> ending body = ErrUnexpectedEOF) \<and>
        key_Seq k = int (length (log_of (logs s) k)) + 1 \<and>
        logs s' = logs_append (logs s) k \<lparr>s_data = content body, s_prev = prev, s_created = clock s\<rparr> \<and>
        (r = Inr (sha256_hex (content body), int (length (content body))) \<or> \<not> True \<and> append_status r \<in> {409, 500}))"
    by blast
qed

context service
begin

lemma admitted_state:
  assumes "admits sdk nops s r pf i s1" and "ok s"
  shows "ok s1" and "logs s1 = logs s"
  using assms consume_logs consume_ok by (auto simp: admits_def)

text \<open>
  An admitted upload with valid parameters is answered as the store answers, but 413 once
  the body has overrun.
\<close>

lemma upload_handled:
  assumes sdk: "sdk_ok sdk" and d: "Wallet d = sdk" "Store d = ops" "Nonces d = nops"
    and post: "rq_Method r = ''POST''" "rq_ContentLength r \<le> MaxBlobBytes d"
      "mux (map fst (routes d key)) ''POST'' (rq_EscapedPath r) = MuxHit ''/v1/log/{deviceId}'' params"
    and adm: "admits sdk nops s r pf i s1"
    and ct: "first_value (rq_Header r) ''Content-Type'' = ContentTypeOctetStream"
    and dev: "deviceIDPattern (first_value params ''deviceId'')"
    and num: "positiveIntParam r ''seq'' = Some n" "positiveIntParam r ''generation'' = Some g"
    and w: "unsent w" "within w"
    and store: "bs_Append ops s1 \<lparr>key_Pseudonym = ToDERHex sdk i, key_DeviceID = first_value params ''deviceId'',
        key_Generation = g, key_Seq = n\<rparr> (first_value (Query r) ''prevSha256'')
        (DigestBody (CountingBody (rq_Body r) (MaxBlobBytes d) 0 False) [] (BodySha256 (p_Action pf)) False) =
        (res, s2, body')"
  shows "\<exists>w'. app mux d key s r w = (s2, w', ''/v1/log/{deviceId}'') \<and>
     sent_status w' = Some (if reader_over body' then 413 else append_status res) \<and>
     (\<forall>sha sz. res = Inr (sha, sz) \<and> \<not> reader_over body' \<longrightarrow>
        bw_Body (base_of w') = [PieceJson (stored_payload n sha sz)])"
proof -
  define w0 where "w0 = cors_headers w"
  define rb where "rb = r\<lparr>rq_Body := CountingBody (rq_Body r) (MaxBlobBytes d) 0 False, rq_Params := params\<rparr>"
  let ?ra = "authed rb pf i" and ?g = "Guard w0 (MaxBlobBytes d) False False"
  have w0: "unsent w0" "within w0" using w by (simp_all add: w0_def)
  have dig: "BodySha256 (p_Action pf) \<noteq> ''''" using adm post(1) by (simp add: admits_def Let_def)
  have body: "rq_Body ?ra = DigestBody (CountingBody (rq_Body r) (MaxBlobBytes d) 0 False) [] (BodySha256 (p_Action pf)) False"
    using dig by (simp add: authed_def WithIdentityKey_def rb_def)
  have "AuthProof sdk nops (Append sdk ops) s rb ?g = Append sdk ops s1 ?ra ?g"
    using adm by (intro AuthProof_admits) (simp add: rb_def)
  also have "\<dots> = (s2, Append_reply (sync_over (reader_over body') ?g) n res)"
    using ct dev num store ToDERHex_nonempty [OF sdk, of i] body
    by (simp add: Append_def pseudonym_def GetIdentityKey_def deviceID_def URLParam_def rb_def Let_def)
  finally have auth: "AuthProof sdk nops (Append sdk ops) s rb ?g =
    (s2, Append_reply (Guard w0 (MaxBlobBytes d) (reader_over body') False) n res)" by simp
  obtain payload where reply: "Append_reply (Guard w0 (MaxBlobBytes d) (reader_over body') False) n res =
     WriteJSON (Guard w0 (MaxBlobBytes d) (reader_over body') False) (append_status res) payload"
    using Append_reply_status by blast
  have stored: "bw_Body (base_of (inner (if guard_owes g then WriteHeader 413 g else g))) = [PieceJson (stored_payload n sha sz)]"
    if "g = Append_reply (Guard w0 (MaxBlobBytes d) False False) n (Inr (sha, sz))" for g sha sz
    by (rule body_maxBody [OF w0 that [unfolded Append_reply_stored]])
  show ?thesis
    unfolding up.upload_route [where mux = mux and key = key and s = s and r = r and params = params and w = w, OF d post, folded w0_def]
    using auth sent_maxBody [OF w0 reply] stored by (auto simp: rb_def)
qed

text \<open>The upload the contract promises to take is stored and answered 201.\<close>

lemma upload_accepted:
  assumes sdk: "sdk_ok sdk" and d: "Wallet d = sdk" "Store d = ops" "Nonces d = nops"
    and post: "rq_Method r = ''POST''" "rq_ContentLength r \<le> MaxBlobBytes d"
      "mux (map fst (routes d key)) ''POST'' (rq_EscapedPath r) = MuxHit ''/v1/log/{deviceId}'' params"
    and adm: "admits sdk nops s r pf i s1"
    and ct: "first_value (rq_Header r) ''Content-Type'' = ContentTypeOctetStream"
    and dev: "deviceIDPattern (first_value params ''deviceId'')"
    and num: "positiveIntParam r ''seq'' = Some n" "positiveIntParam r ''generation'' = Some g"
    and prev: "name_ok (first_value (Query r) ''prevSha256'')"
    and w: "unsent w" "within w" and s: "ok s" "arriving r"
    and nxt: "n = int (length (logs s (ToDERHex sdk i) (first_value params ''deviceId'') g)) + 1"
    and body: "ending (rq_Body r) = EOF" "content (rq_Body r) \<noteq> []"
      "int (length (content (rq_Body r))) \<le> MaxBlobBytes d" "sha256_hex (content (rq_Body r)) = BodySha256 (p_Action pf)"
  shows "\<exists>s2 w'. app mux d key s r w = (s2, w', ''/v1/log/{deviceId}'') \<and> sent_status w' = Some 201 \<and>
     bw_Body (base_of w') = [PieceJson (stored_payload n (sha256_hex (content (rq_Body r))) (int (length (content (rq_Body r)))))] \<and>
     ok s2 \<and>
     logs s2 = logs_append (logs s) \<lparr>key_Pseudonym = ToDERHex sdk i, key_DeviceID = first_value params ''deviceId'',
        key_Generation = g, key_Seq = n\<rparr>
       \<lparr>s_data = content (rq_Body r), s_prev = first_value (Query r) ''prevSha256'', s_created = clock s1\<rparr>"
proof -
  let ?b = "DigestBody (CountingBody (rq_Body r) (MaxBlobBytes d) 0 False) [] (BodySha256 (p_Action pf)) False"
  let ?k = "\<lparr>key_Pseudonym = ToDERHex sdk i, key_DeviceID = first_value params ''deviceId'', key_Generation = g, key_Seq = n\<rparr>"
  note s1 = admitted_state [OF adm s(1)]
  have r: "reader_wf (rq_Body r)" "chunkable (rq_Body r)" "\<not> reader_over (rq_Body r)" using s(2) by (auto simp: arriving_def)
  note wf = upload_body [OF r, of "MaxBlobBytes d" "BodySha256 (p_Action pf)"]
  have k: "key_ok ?k"
    by (rule request_key_ok [OF sdk device_name [OF dev] positiveIntParam_range [OF num(2)] positiveIntParam_range [OF num(1)]])
  have e: "ending ?b = EOF" using body by (auto simp: case_prod_unfold)
  obtain s2 b' where st: "bs_Append ops s1 ?k (first_value (Query r) ''prevSha256'') ?b =
      (Inr (sha256_hex (content ?b), int (length (content ?b))), s2, b')" "ok s2" "\<not> reader_over b'"
    "logs s2 = logs_append (logs s1) ?k \<lparr>s_data = content ?b, s_prev = first_value (Query r) ''prevSha256'', s_created = clock s1\<rparr>"
    using Append_stored [OF s1(1) k prev wf(1,2) _ e] nxt s1(2) wf(3,4) body(2) by (auto simp: log_of_def)
  show ?thesis
    using upload_handled [where mux = mux and key = key and r = r and params = params, OF sdk d post adm ct dev num w st(1)] st(2-4) s1(2) wf(4) by (auto simp: append_status_def)
qed

text \<open>A longer body than the cap is answered 413 and leaves the logs as they were.\<close>

lemma upload_too_large:
  assumes sdk: "sdk_ok sdk" and d: "Wallet d = sdk" "Store d = ops" "Nonces d = nops"
    and post: "rq_Method r = ''POST''" "rq_ContentLength r \<le> MaxBlobBytes d"
      "mux (map fst (routes d key)) ''POST'' (rq_EscapedPath r) = MuxHit ''/v1/log/{deviceId}'' params"
    and adm: "admits sdk nops s r pf i s1"
    and ct: "first_value (rq_Header r) ''Content-Type'' = ContentTypeOctetStream"
    and dev: "deviceIDPattern (first_value params ''deviceId'')"
    and num: "positiveIntParam r ''seq'' = Some n" "positiveIntParam r ''generation'' = Some g"
    and w: "unsent w" "within w" and s: "ok s" "arriving r"
    and nxt: "n = int (length (logs s (ToDERHex sdk i) (first_value params ''deviceId'') g)) + 1"
    and body: "int (length (content (rq_Body r))) > MaxBlobBytes d"
  shows "\<exists>s2 w'. app mux d key s r w = (s2, w', ''/v1/log/{deviceId}'') \<and> sent_status w' = Some 413 \<and> ok s2 \<and>
     logs s2 = logs s"
proof -
  let ?b = "DigestBody (CountingBody (rq_Body r) (MaxBlobBytes d) 0 False) [] (BodySha256 (p_Action pf)) False"
  let ?k = "\<lparr>key_Pseudonym = ToDERHex sdk i, key_DeviceID = first_value params ''deviceId'', key_Generation = g, key_Seq = n\<rparr>"
  note s1 = admitted_state [OF adm s(1)]
  have r: "reader_wf (rq_Body r)" "chunkable (rq_Body r)" "\<not> reader_over (rq_Body r)" using s(2) by (auto simp: arriving_def)
  note wf = upload_body [OF r, of "MaxBlobBytes d" "BodySha256 (p_Action pf)"]
  have k: "key_ok ?k"
    by (rule request_key_ok [OF sdk device_name [OF dev] positiveIntParam_range [OF num(2)] positiveIntParam_range [OF num(1)]])
  have e: "ending ?b = ErrBodyTooLarge" using wf(7) body by simp
  obtain s2 b' where st: "bs_Append ops s1 ?k (first_value (Query r) ''prevSha256'') ?b =
      (Inl (ErrReadBody ErrBodyTooLarge), s2, b')" "ok s2" "reader_over b'" "logs s2 = logs s1"
    using Append_read_error [OF s1(1) k wf(1,2)] nxt s1(2) e by (fastforce simp: log_of_def)
  show ?thesis
    using upload_handled [where mux = mux and key = key and r = r and params = params, OF sdk d post adm ct dev num w st(1)] st(2-4) s1(2) by auto
qed

text \<open>
  A download: the entry's bytes, all of them and nothing else, with their length announced;
  404 past the end of the log. Nothing changes in the store.
\<close>

lemma blob_answer:
  assumes "unsent w" "within w" "bytes \<noteq> []"
  shows "base_of (inner (Write (PieceBytes bytes) (WriteHeader 200
      (set_header ''Content-Length'' len (set_header ''Content-Type'' t (Guard w l False False)))))) =
    (let hdr = AList.update ''Content-Length'' len (AList.update ''Content-Type'' t (bw_Header (base_of w)))
     in \<lparr>bw_Header = hdr, bw_Sent = Some (200, hdr), bw_Body = [PieceBytes bytes]\<rparr>)"
  using assms unsent_base [OF assms(1)]
  by (simp add: set_header_def base_of_Write settled_WriteHeader within_WriteHeader base_of_WriteHeader
      base_WriteHeader_def base_of_map_header Let_def)

lemma download_handled:
  assumes sdk: "sdk_ok sdk" and d: "Wallet d = sdk" "Store d = ops" "Nonces d = nops"
    and get: "rq_Method r = ''GET''" "rq_ContentLength r \<le> MaxBlobBytes d"
      "mux (map fst (routes d key)) ''GET'' (rq_EscapedPath r) = MuxHit ''/v1/log/{deviceId}/{seq}'' params"
    and adm: "admits sdk nops s r pf i s1"
    and dev: "deviceIDPattern (first_value params ''deviceId'')"
    and num: "parsePathInt (first_value params ''seq'') = Some n" "positiveIntParam r ''generation'' = Some g"
    and w: "unsent w" "within w" and s: "ok s"
    and L: "L = logs s (ToDERHex sdk i) (first_value params ''deviceId'') g"
  shows "\<exists>s2 w'. app mux d key s r w = (s2, w', ''/v1/log/{deviceId}/{seq}'') \<and> ok s2 \<and> logs s2 = logs s \<and>
     (if n \<le> int (length L)
      then let data = s_data (L ! nat (n - 1));
               hdr = AList.update ''Content-Length'' (format_int (int (length data)))
                       (AList.update ''Content-Type'' ContentTypeOctetStream (bw_Header (base_of (cors_headers w))))
           in base_of w' = \<lparr>bw_Header = hdr, bw_Sent = Some (200, hdr), bw_Body = [PieceBytes data]\<rparr>
      else sent_status w' = Some 404)"
proof -
  define w0 where "w0 = cors_headers w"
  define rb where "rb = r\<lparr>rq_Body := CountingBody (rq_Body r) (MaxBlobBytes d) 0 False, rq_Params := params\<rparr>"
  let ?k = "\<lparr>key_Pseudonym = ToDERHex sdk i, key_DeviceID = first_value params ''deviceId'', key_Generation = g, key_Seq = n\<rparr>"
  let ?g = "Guard w0 (MaxBlobBytes d) False False"
  have w0: "unsent w0" "within w0" using w by (simp_all add: w0_def)
  note s1 = admitted_state [OF adm s]
  have n: "1 \<le> n \<and> n \<le> 2 ^ 30" using parsePathInt_range [OF num(1)] .
  have k: "key_ok ?k"
    by (rule request_key_ok [OF sdk device_name [OF dev] positiveIntParam_range [OF num(2)] n])
  have "app mux d key s r w =
     (case Blob sdk ops s1 (authed rb pf i) ?g of
        (s', g) \<Rightarrow> (s', inner (if guard_owes g then WriteHeader 413 g else g), ''/v1/log/{deviceId}/{seq}''))"
    using get adm AuthProof_admits [of sdk nops s rb pf i s1 "Blob sdk ops" ?g]
    by (subst up.auth_route [where params = params and pattern = "''/v1/log/{deviceId}/{seq}''" and h = "Blob sdk ops", OF d])
      (simp_all add: routes_def d Let_def rb_def w0_def)
  moreover have "Blob sdk ops s1 (authed rb pf i) ?g =
     (case bs_Get ops s1 ?k of
        (Inl ErrNotFound, s') \<Rightarrow> (s', WriteError ?g 404 ''ERR_BLOB_NOT_FOUND'' ''No such blob.'')
      | (Inl _, s') \<Rightarrow> (s', WriteError ?g 500 ''ERR_INTERNAL'' ''Could not read the blob.'')
      | (Inr (body, sz), s') \<Rightarrow>
          (let w = WriteHeader 200 (set_header ''Content-Length'' (format_int sz)
                     (set_header ''Content-Type'' ContentTypeOctetStream ?g))
           in (s', case Copy body of (bytes, _) \<Rightarrow> if bytes = [] then w else Write (PieceBytes bytes) w)))"
    using dev num ToDERHex_nonempty [OF sdk, of i]
    by (simp add: Blob_def pseudonym_def GetIdentityKey_def deviceID_def URLParam_def rb_def Let_def
        split: sum.splits store_err.splits prod.splits)
  ultimately have run: "app mux d key s r w =
     (case (case bs_Get ops s1 ?k of
        (Inl ErrNotFound, s') \<Rightarrow> (s', WriteError ?g 404 ''ERR_BLOB_NOT_FOUND'' ''No such blob.'')
      | (Inl _, s') \<Rightarrow> (s', WriteError ?g 500 ''ERR_INTERNAL'' ''Could not read the blob.'')
      | (Inr (body, sz), s') \<Rightarrow>
          (let w = WriteHeader 200 (set_header ''Content-Length'' (format_int sz)
                     (set_header ''Content-Type'' ContentTypeOctetStream ?g))
           in (s', case Copy body of (bytes, _) \<Rightarrow> if bytes = [] then w else Write (PieceBytes bytes) w))) of
        (s', g) \<Rightarrow> (s', inner (if guard_owes g then WriteHeader 413 g else g), ''/v1/log/{deviceId}/{seq}''))" by simp
  have L1: "log_of (logs s1) ?k = L" using s1(2) L by (simp add: log_of_def)
  show ?thesis
  proof (cases "n \<le> int (length L)")
    case False
    then obtain s2 where "bs_Get ops s1 ?k = (Inl ErrNotFound, s2)" "ok s2" "logs s2 = logs s"
      using Get_missing [OF s1(1) k] L1 s1(2) by auto
    with run sent_maxBody [OF w0, of _ _ False 404] False show ?thesis by (auto simp: WriteError_def)
  next
    case True
    let ?data = "s_data (L ! nat (n - 1))"
    obtain rd s2 where got: "bs_Get ops s1 ?k = (Inr (rd, int (length ?data)), s2)"
      "stream rd = (?data, EOF)" "ok s2" "logs s2 = logs s"
      using Get_found [OF s1(1) k] L1 True s1(2) by auto
    have "L ! nat (n - 1) \<in> set L" using True n by (intro nth_mem) linarith
    then have ne: "?data \<noteq> []" using ok_entry [OF s] unfolding L by blast
    obtain e where cp: "Copy rd = (?data, e)" using Copy_stream [of rd] got(2) by simp
    have gw: "\<not> guard_owes (Write (PieceBytes ?data) (WriteHeader 200 (set_header ''Content-Length'' len
        (set_header ''Content-Type'' ContentTypeOctetStream ?g))))" for len
      by (simp add: set_header_def guard_owes_def)
    show ?thesis
      using run got cp ne gw blob_answer [OF w0 ne] True by (simp add: Let_def w0_def)
  qed
qed

end

end
