(* ===== verification/Client_Wire.thy ===== *)
theory Client_Wire
  imports Client_Requests Json_Text Service_Requests
begin

text \<open>
  The client and the server joined: what \<open>net/http\<close> makes of a request of the client at the
  server and of the server's answer at the client. A request line is the URL past the base
  URL, split at its first question mark; a body arrives in pieces of any size; a JSON value
  is written as its text and a line break.
\<close>

section \<open>Requests on the wire\<close>

fun PathUnescape :: "string \<Rightarrow> string option" where
  "PathUnescape [] = Some []"
| "PathUnescape (c # s) =
     (if c = CHR 0x25 then
        (case s of
           a # b # r \<Rightarrow>
             (case (hex_val a, hex_val b) of
                (Some x, Some y) \<Rightarrow> map_option (Cons (char_of (x * 16 + y))) (PathUnescape r)
              | _ \<Rightarrow> None)
         | _ \<Rightarrow> None)
      else map_option (Cons c) (PathUnescape s))"

definition request_on_wire :: "string \<Rightarrow> nat list \<Rightarrow> time \<Rightarrow> http_request \<Rightarrow> 'k request" where
  "request_on_wire base frag now req =
     (let uri = drop (length base) (hr_URL req);
          (path, query) = cut (CHR ''?'') uri
      in \<lparr>rq_Method = hr_Method req,
          rq_Path = (case PathUnescape path of Some p \<Rightarrow> p | None \<Rightarrow> path), rq_EscapedPath = path,
          rq_ForceQuery = (CHR ''?'' \<in> set uri \<and> query = ''''), rq_RawQuery = query, rq_Header = hr_Header req,
          rq_ContentLength = hr_Length req,
          rq_Body = ConnBody \<lparr>c_data = (case hr_Body req of None \<Rightarrow> [] | Some b \<Rightarrow> content b), c_frag = frag,
                              c_final = EOF, c_joined = False\<rparr>,
          rq_Params = [], rq_Identity = None, rq_Now = now\<rparr>)"

section \<open>Answers on the wire\<close>

fun piece_text :: "(time \<Rightarrow> string) \<Rightarrow> piece \<Rightarrow> bytes" where
  "piece_text fmt (PieceBytes bs) = bs"
| "piece_text fmt (PieceJson p) = bytes_of_string (payload_text fmt p @ [CHR 0x0A])"

text \<open>
  The length that the client is told is the one the handler set; of a body it set none for,
  the one \<open>net/http\<close> counts for it.
\<close>

definition response_on_wire :: "(time \<Rightarrow> string) \<Rightarrow> base_writer \<Rightarrow> http_response" where
  "response_on_wire fmt b =
     (let (status, hdr) = (case bw_Sent b of Some s \<Rightarrow> s | None \<Rightarrow> (200, bw_Header b));
          body = concat (map (piece_text fmt) (bw_Body b))
      in \<lparr>rs_Status = status,
          rs_Length = (case map_of hdr ''Content-Length'' of
             Some s \<Rightarrow> (case atoi s of Some n \<Rightarrow> n | None \<Rightarrow> -1) | None \<Rightarrow> int (length body)),
          rs_Body = body, rs_End = EOF\<rparr>)"

section \<open>The client in front of the server\<close>

record 's wire =
  ww_state :: "'s \<times> tel_record list"
  ww_now :: time
  ww_nonces :: "bytes list"

definition wire_Do ::
  "mux \<Rightarrow> ('s, 'k, 'g) Deps \<Rightarrow> string \<Rightarrow> ('s \<Rightarrow> time \<Rightarrow> 's) \<Rightarrow> string \<Rightarrow> nat list \<Rightarrow> (time \<Rightarrow> string) \<Rightarrow> 's wire doer" where
  "wire_Do mux d key at base frag fmt w req =
     (case Telemetry (app mux d key) (at (fst (ww_state w)) (ww_now w), snd (ww_state w))
             (request_on_wire base frag (ww_now w) req) (Base new_response) of
        (st, w', _) \<Rightarrow> (Inr (response_on_wire fmt (base_of w')), w\<lparr>ww_state := st\<rparr>))"

text \<open>A host whose clock is the server's, and whose random source gives the listed nonces in turn.\<close>

definition wire_host :: "(string \<Rightarrow> time option) \<Rightarrow> 's wire client_host" where
  "wire_host parse =
     \<lparr>ch_NewRequest = (\<lambda>_ _. None), ch_Now = (\<lambda>w. (ww_now w, w)),
      ch_Rand = (\<lambda>w. case ww_nonces w of [] \<Rightarrow> (None, w) | n # ns \<Rightarrow> (Some n, w\<lparr>ww_nonces := ns\<rparr>)),
      ch_parse_time = parse\<rparr>"

section \<open>Decoding what the server writes\<close>

lemma decode_body_object:
  assumes "payload_ok fmt max_nesting (PObj ms)"
  shows "decode_body flds zero (response_on_wire fmt \<lparr>bw_Header = h, bw_Sent = sent, bw_Body = [PieceJson (PObj ms)]\<rparr>) =
     (case decode_members flds (map (\<lambda>m. (fst m, payload_json fmt (snd m))) ms) zero of
        (x, err) \<Rightarrow> if err then None else Some x)"
  using json_value_text [of fmt 0 "PObj ms" "CHR 0x0A" "[]"] assms
  by (simp add: decode_body_def response_on_wire_def closes_def decode_struct_def Let_def case_prod_unfold)

lemma fold_answer_names:
  "fold_name ''maxBlobBytes'' = ''MAXBLOBBYTES''" "fold_name ''maxBodyBytes'' = ''MAXBODYBYTES''"
  "fold_name ''serverIdentityKey'' = ''SERVERIDENTITYKEY''" "fold_name ''status'' = ''STATUS''"
  "fold_name ''seq'' = ''SEQ''" "fold_name ''sha256'' = ''SHA256''" "fold_name ''size'' = ''SIZE''"
  "fold_name ''deleted'' = ''DELETED''" "fold_name ''entries'' = ''ENTRIES''" "fold_name ''devices'' = ''DEVICES''"
  "fold_name ''prevSha256'' = ''PREVSHA256''" "fold_name ''createdAt'' = ''CREATEDAT''"
  "fold_name ''deviceId'' = ''DEVICEID''" "fold_name ''generation'' = ''GENERATION''" "fold_name ''headSeq'' = ''HEADSEQ''"
  "fold_name ''headSha256'' = ''HEADSHA256''" "fold_name ''totalBytes'' = ''TOTALBYTES''" "fold_name ''updatedAt'' = ''UPDATEDAT''"
  by code_simp+

definition limits_payload :: "int \<Rightarrow> string \<Rightarrow> (string \<times> payload) list" where
  "limits_payload cap key =
     [(''maxBlobBytes'', PNum cap), (''maxBodyBytes'', PNum cap), (''serverIdentityKey'', PText key),
      (''status'', PText ''success'')]"

lemma decode_limits:
  assumes "ascii key" "int64_ok cap"
  shows "decode_body limits_flds zero_limits
       (response_on_wire fmt \<lparr>bw_Header = h, bw_Sent = sent, bw_Body = [PieceJson (PObj (limits_payload cap key))]\<rparr>) =
     Some \<lparr>lim_MaxBlobBytes = cap, lim_MaxBodyBytes = cap, lim_ServerIdentityKey = key\<rparr>"
proof -
  have ok: "payload_ok fmt max_nesting (PObj (limits_payload cap key))"
    using assms(1) by (simp add: limits_payload_def max_nesting_def ascii_def code_of_def)
  show ?thesis
    unfolding decode_body_object [OF ok]
    by (simp add: limits_payload_def limits_flds_def zero_limits_def fold_answer_names text_field_def int_field_def
        atoi_format_int [OF assms(2)] del: fold_name.simps)
qed

lemma decode_deleted:
  assumes "int64_ok n"
  shows "decode_body [(''DELETED'', int_field (\<lambda>n _. n))] 0
       (response_on_wire fmt \<lparr>bw_Header = h, bw_Sent = sent, bw_Body = [PieceJson (PObj [(''deleted'', PNum n)])]\<rparr>) = Some n"
proof -
  have ok: "payload_ok fmt max_nesting (PObj [(''deleted'', PNum n)])" by (simp add: max_nesting_def ascii_def code_of_def)
  show ?thesis
    unfolding decode_body_object [OF ok]
    by (simp add: fold_answer_names int_field_def atoi_format_int [OF assms] del: fold_name.simps)
qed

text \<open>What the client makes of an entry and of a line of the manifest.\<close>

definition entry_seen :: "Entry \<Rightarrow> client_Entry" where
  "entry_seen e =
     \<lparr>ce_Seq = ent_Seq e, ce_Sha256 = ent_Sha256 e, ce_PrevSha256 = ent_PrevSha256 e, ce_Size = ent_Size e,
      ce_CreatedAt = ent_CreatedAt e\<rparr>"

definition summary_seen :: "DeviceSummary \<Rightarrow> client_DeviceSummary" where
  "summary_seen d =
     \<lparr>cd_DeviceID = dev_DeviceID d, cd_Generation = dev_Generation d, cd_HeadSeq = dev_HeadSeq d,
      cd_HeadSha256 = dev_HeadSha256 d, cd_TotalBytes = dev_TotalBytes d, cd_UpdatedAt = dev_UpdatedAt d\<rparr>"

text \<open>A time that the server's formatting and the client's parsing carry over the wire.\<close>

definition carried :: "(time \<Rightarrow> string) \<Rightarrow> (string \<Rightarrow> time option) \<Rightarrow> time \<Rightarrow> bool" where
  "carried fmt parse t \<longleftrightarrow> ascii (fmt t) \<and> parse (fmt t) = Some t"

definition entry_carried :: "(time \<Rightarrow> string) \<Rightarrow> (string \<Rightarrow> time option) \<Rightarrow> Entry \<Rightarrow> bool" where
  "entry_carried fmt parse e \<longleftrightarrow> int64_ok (ent_Seq e) \<and> ascii (ent_Sha256 e) \<and> ascii (ent_PrevSha256 e) \<and>
     int64_ok (ent_Size e) \<and> carried fmt parse (ent_CreatedAt e)"

definition summary_carried :: "(time \<Rightarrow> string) \<Rightarrow> (string \<Rightarrow> time option) \<Rightarrow> DeviceSummary \<Rightarrow> bool" where
  "summary_carried fmt parse d \<longleftrightarrow> ascii (dev_DeviceID d) \<and> int64_ok (dev_Generation d) \<and> int64_ok (dev_HeadSeq d) \<and>
     ascii (dev_HeadSha256 d) \<and> int64_ok (dev_TotalBytes d) \<and> carried fmt parse (dev_UpdatedAt d)"

lemmas decoding = fold_answer_names text_field_def int_field_def time_field_def decode_struct_def atoi_format_int

lemma entry_on_wire:
  assumes "entry_carried fmt parse e"
  shows "payload_ok fmt 2 (payload_of_entry e)"
    "decode_struct (entry_flds parse) (payload_json fmt (payload_of_entry e)) zero_entry = (entry_seen e, False)"
  using assms
  by (auto simp: payload_of_entry_def entry_carried_def carried_def entry_seen_def entry_flds_def zero_entry_def decoding
      ascii_def code_of_def simp del: fold_name.simps)

lemma summary_on_wire:
  assumes "summary_carried fmt parse d"
  shows "payload_ok fmt 2 (payload_of_summary d)"
    "decode_struct (summary_flds parse) (payload_json fmt (payload_of_summary d)) zero_summary = (summary_seen d, False)"
  using assms
  by (auto simp: payload_of_summary_def summary_carried_def carried_def summary_seen_def summary_flds_def zero_summary_def decoding
      ascii_def code_of_def simp del: fold_name.simps)

lemma payload_ok_mono: "payload_ok fmt m p \<Longrightarrow> m \<le> n \<Longrightarrow> payload_ok fmt n p"
proof (induction fmt m p arbitrary: n rule: payload_ok.induct)
  case (4 fmt m ps)
  then show ?case by (auto intro: "4.IH" [where n = "n - 1"])
next
  case (5 fmt m ms)
  then show ?case by (auto intro: "5.IH" [where n = "n - 1"])
qed simp_all

text \<open>An answer with a list: its elements one by one.\<close>

lemma decode_elements_map:
  "(\<And>x. x \<in> set xs \<Longrightarrow> decode_struct flds (J x) zero = (seen x, False)) \<Longrightarrow>
     decode_elements flds zero [] (map J xs) = Some (map seen xs)"
  by (induction xs) simp_all

lemma decode_list_answer:
  assumes "\<And>x. x \<in> set xs \<Longrightarrow> payload_ok fmt 2 (J x) \<and> decode_struct flds (payload_json fmt (J x)) zero = (seen x, False)"
    and "ascii name" "fold_name name = folded" "folded \<noteq> ''STATUS''"
  shows "decode_body [(folded, list_field flds zero)] []
       (response_on_wire fmt \<lparr>bw_Header = h, bw_Sent = sent,
         bw_Body = [PieceJson (PObj [(name, PList (map J xs)), (''status'', PText ''success'')])]\<rparr>) = Some (map seen xs)"
proof -
  have "payload_ok fmt (max_nesting - 2) (J x)" if "x \<in> set xs" for x
    using assms(1) [OF that] payload_ok_mono [of fmt 2 "J x" "max_nesting - 2"] by (simp add: max_nesting_def)
  then have ok: "payload_ok fmt max_nesting (PObj [(name, PList (map J xs)), (''status'', PText ''success'')])"
    using assms(2) by (auto simp: max_nesting_def ascii_def code_of_def)
  have "decode_elements flds zero [] (map (payload_json fmt) (map J xs)) = Some (map seen xs)"
    using decode_elements_map [of xs flds "\<lambda>x. payload_json fmt (J x)" zero seen] assms(1) by (simp add: comp_def)
  then show ?thesis
    unfolding decode_body_object [OF ok]
    using assms(3,4) by (auto simp: fold_answer_names list_field_def simp del: fold_name.simps)
qed

lemma decode_stored:
  assumes "ascii sha" "int64_ok n" "int64_ok sz"
  shows "decode_body append_flds zero_result
       (response_on_wire fmt \<lparr>bw_Header = h, bw_Sent = sent, bw_Body = [PieceJson (stored_payload n sha sz)]\<rparr>) =
     Some \<lparr>ar_Seq = n, ar_Sha256 = sha, ar_Size = sz\<rparr>"
proof -
  let ?ms = "[(''seq'', PNum n), (''sha256'', PText sha), (''size'', PNum sz), (''status'', PText ''success'')]"
  have ok: "payload_ok fmt max_nesting (PObj ?ms)"
    using assms(1) by (simp add: max_nesting_def ascii_def code_of_def)
  show ?thesis
    unfolding stored_payload_def decode_body_object [OF ok]
    by (simp add: append_flds_def zero_result_def fold_answer_names text_field_def int_field_def
        atoi_format_int assms(2,3) del: fold_name.simps)
qed

section \<open>The server's side\<close>

text \<open>What chi makes of the paths the client asks for.\<close>

definition routed :: "mux \<Rightarrow> (string \<times> string) list \<Rightarrow> bool" where
  "routed mux table \<longleftrightarrow>
     mux table ''GET'' ''/v1/limits'' = MuxHit ''/v1/limits'' [] \<and>
     mux table ''GET'' ''/v1/manifest'' = MuxHit ''/v1/manifest'' [] \<and>
     mux table ''DELETE'' ''/v1/account'' = MuxHit ''/v1/account'' [] \<and>
     (\<forall>dev. list_all is_lower_hex dev \<and> dev \<noteq> '''' \<longrightarrow>
        mux table ''POST'' (''/v1/log/'' @ dev) = MuxHit ''/v1/log/{deviceId}'' [(''deviceId'', dev)] \<and>
        mux table ''GET'' (''/v1/log/'' @ dev) = MuxHit ''/v1/log/{deviceId}'' [(''deviceId'', dev)] \<and>
        (\<forall>n. mux table ''GET'' (''/v1/log/'' @ dev @ ''/'' @ format_int n) =
           MuxHit ''/v1/log/{deviceId}/{seq}'' [(''deviceId'', dev), (''seq'', format_int n)] \<and>
         mux table ''DELETE'' (''/v1/generation/'' @ dev @ ''/'' @ format_int n) =
           MuxHit ''/v1/generation/{deviceId}/{generation}'' [(''deviceId'', dev), (''generation'', format_int n)]))"

lemma base_of_inner [simp]: "base_of (inner w) = base_of w"
  by (cases w) simp_all

text \<open>Telemetry hands the request on to a writer nothing has been written to.\<close>

lemma Telemetry_passes:
  assumes "Telemetry nxt (s, tel) r (Base b) = (st, w', route)" "bw_Sent b = None" "bw_Body b = []"
  shows "\<exists>w0 v. unsent w0 \<and> within w0 \<and> nxt s r w0 = (fst st, v, route) \<and> base_of w' = base_of v"
proof (cases "rq_Path r = ''/health''")
  case True
  with assms show ?thesis by (intro exI [of _ "Base b"] exI [of _ w']) (auto simp: Telemetry_def split: prod.splits)
next
  case False
  obtain s' v p where run: "nxt s r (Recorder (Base b) 0 []) = (s', v, p)" by (metis prod_cases3)
  with False assms have "fst st = s'" "w' = inner v" "route = p"
    by (auto simp: Telemetry_def Let_def split: prod.splits)
  with run assms(2,3) show ?thesis by (intro exI [of _ "Recorder (Base b) 0 []"] exI [of _ v]) simp
qed

lemma limits_served:
  assumes "routed mux (map fst (routes d key))" "rq_Method r = ''GET''" "rq_EscapedPath r = ''/v1/limits''"
    and "rq_ContentLength r = 0" "0 \<le> MaxBlobBytes d" "unsent w" "within w"
  shows "\<exists>w'. app mux d key s r w = (s, w', ''/v1/limits'') \<and> sent_status w' = Some 200 \<and>
     bw_Body (base_of w') = [PieceJson (PObj (limits_payload (MaxBlobBytes d) key))]"
proof -
  have w: "unsent (cors_headers w)" "within (cors_headers w)" using assms(6,7) by simp_all
  let ?g = "WriteJSON (Guard (cors_headers w) (MaxBlobBytes d) False False) 200 (PObj (limits_payload (MaxBlobBytes d) key))"
  have "app mux d key s r w = (s, inner (if guard_owes ?g then WriteHeader 413 ?g else ?g), ''/v1/limits'')"
    using assms(1-5)
    by (simp add: routed_def app_def corsMiddleware_def maxBody_def dispatch_def cors_headers_def Let_def routes_def
        Limits_def limits_payload_def)
  with sent_maxBody [OF w refl] body_maxBody [OF w refl] show ?thesis by simp
qed

section \<open>Fetching the limits\<close>

lemma wire_Do_app:
  assumes "\<And>w0. unsent w0 \<Longrightarrow> within w0 \<Longrightarrow>
      \<exists>s2 v. app mux d key (at (fst (ww_state w)) (ww_now w)) (request_on_wire base frag (ww_now w) req) w0 = (s2, v, route) \<and>
        P s2 (base_of v)"
  shows "\<exists>s2 tel b. wire_Do mux d key at base frag fmt w req =
     (Inr (response_on_wire fmt b), w\<lparr>ww_state := (s2, tel)\<rparr>) \<and> P s2 b"
proof -
  obtain st v rt where tel: "Telemetry (app mux d key) (at (fst (ww_state w)) (ww_now w), snd (ww_state w))
      (request_on_wire base frag (ww_now w) req) (Base new_response) = (st, v, rt)" by (metis prod_cases3)
  then obtain w0 w' where w0: "unsent w0" "within w0"
    "app mux d key (at (fst (ww_state w)) (ww_now w)) (request_on_wire base frag (ww_now w) req) w0 = (fst st, w', rt)"
    "base_of v = base_of w'" using Telemetry_passes [OF tel] by (auto simp: new_response_def)
  with assms [OF w0(1,2)] have "P (fst st) (base_of v)" by auto
  with tel show ?thesis
    by (intro exI [of _ "fst st"] exI [of _ "snd st"] exI [of _ "base_of v"]) (simp add: wire_Do_def)
qed

lemma status_on_wire: "map_option fst (bw_Sent b) = Some code \<Longrightarrow> rs_Status (response_on_wire fmt b) = code"
  by (auto simp: response_on_wire_def Let_def)

lemma with_body: "bw_Body b = x \<Longrightarrow> b = \<lparr>bw_Header = bw_Header b, bw_Sent = bw_Sent b, bw_Body = x\<rparr>"
  by (cases b) simp

lemma Client_Limits_fetched:
  assumes "c_http c = wire_Do mux d key at (c_baseURL c) frag fmt" "c_limits c = None"
    and "routed mux (map fst (routes d key))" "0 \<le> MaxBlobBytes d" "ascii key" "key \<noteq> ''''" "int64_ok (MaxBlobBytes d)"
  shows "\<exists>tel. Client_Limits (wire_host parse) c w =
     (Inr \<lparr>lim_MaxBlobBytes = MaxBlobBytes d, lim_MaxBodyBytes = MaxBlobBytes d, lim_ServerIdentityKey = key\<rparr>,
      c\<lparr>c_limits := Some \<lparr>lim_MaxBlobBytes = MaxBlobBytes d, lim_MaxBodyBytes = MaxBlobBytes d, lim_ServerIdentityKey = key\<rparr>\<rparr>,
      w\<lparr>ww_state := (at (fst (ww_state w)) (ww_now w), tel)\<rparr>)"
proof -
  let ?req = "\<lparr>hr_Method = ''GET'', hr_URL = c_baseURL c @ ''/v1/limits'', hr_Header = [], hr_Body = None, hr_Length = 0\<rparr>"
  let ?r = "request_on_wire (c_baseURL c) frag (ww_now w) ?req"
  have r: "rq_Method ?r = ''GET''" "rq_EscapedPath ?r = ''/v1/limits''" "rq_ContentLength ?r = 0"
    by (simp_all add: request_on_wire_def cut_def Let_def)
  have "\<exists>s2 tel b. wire_Do mux d key at (c_baseURL c) frag fmt w ?req = (Inr (response_on_wire fmt b), w\<lparr>ww_state := (s2, tel)\<rparr>) \<and>
     (s2 = at (fst (ww_state w)) (ww_now w) \<and> map_option fst (bw_Sent b) = Some 200 \<and>
      bw_Body b = [PieceJson (PObj (limits_payload (MaxBlobBytes d) key))])"
  proof (rule wire_Do_app [where route = "''/v1/limits''"])
    fix w0
    assume "unsent w0" "within w0"
    from limits_served [OF assms(3) r assms(4) this, where s = "at (fst (ww_state w)) (ww_now w)"]
    show "\<exists>s2 v. app mux d key (at (fst (ww_state w)) (ww_now w)) ?r w0 = (s2, v, ''/v1/limits'') \<and>
       s2 = at (fst (ww_state w)) (ww_now w) \<and> map_option fst (bw_Sent (base_of v)) = Some 200 \<and>
       bw_Body (base_of v) = [PieceJson (PObj (limits_payload (MaxBlobBytes d) key))]"
      by (auto simp: sent_status_def)
  qed
  then obtain tel b where run: "wire_Do mux d key at (c_baseURL c) frag fmt w ?req =
      (Inr (response_on_wire fmt b), w\<lparr>ww_state := (at (fst (ww_state w)) (ww_now w), tel)\<rparr>)"
    and b: "map_option fst (bw_Sent b) = Some 200" "bw_Body b = [PieceJson (PObj (limits_payload (MaxBlobBytes d) key))]" by blast
  have "decode_body limits_flds zero_limits (response_on_wire fmt b) =
      Some \<lparr>lim_MaxBlobBytes = MaxBlobBytes d, lim_MaxBodyBytes = MaxBlobBytes d, lim_ServerIdentityKey = key\<rparr>"
    by (subst with_body [OF b(2)]) (simp add: decode_limits assms(5,7))
  with run status_on_wire [OF b(1)] assms(1,2,6) show ?thesis
    by (auto simp: Client_Limits_def wire_host_def)
qed

section \<open>A signed request\<close>

lemma Sign_nonce:
  "Sign cw k a now (Some nb) = Inr p \<Longrightarrow> p_Nonce p = b64_encode nb \<and> p_ExpiresAt p = unix_milli (now + Window) \<and> p_Action p = a"
  by (auto simp: Sign_def Let_def split: option.splits)

lemma digest_no_space: "CHR '' '' \<notin> set (sha256_hex bs)"
  using sha256_hex_lower [of "CHR '' ''" bs] by (auto simp: is_lower_hex_def is_digit_def code_of_def)

lemma digest_pattern: "sha256HexPattern (sha256_hex bs)"
  by (auto simp: sha256HexPattern_def list_all_iff dest: sha256_hex_lower)

lemma digest_ascii: "ascii (sha256_hex data)"
  using sha256_hex_lower [of _ data] is_lower_hex_code by (auto simp: ascii_def)

text \<open>The client's request, as it arrives.\<close>

lemma cut_none: "c \<notin> set xs \<Longrightarrow> cut c xs = (xs, '''')"
proof -
  assume "c \<notin> set xs"
  then have all: "\<forall>x \<in> set xs. x \<noteq> c" by blast
  have "takeWhile (\<lambda>x. x \<noteq> c) xs = xs" "dropWhile (\<lambda>x. x \<noteq> c) xs = []" using all by (simp_all add: takeWhile_eq_all_conv)
  then show ?thesis unfolding cut_def by (simp only: drop_Nil)
qed

definition target :: "string \<Rightarrow> string \<Rightarrow> string" where
  "target path query = path @ (if query = '''' then '''' else CHR ''?'' # query)"

lemma cut_target: "CHR ''?'' \<notin> set path \<Longrightarrow> cut (CHR ''?'') (target path query) = (path, query)"
  by (simp add: target_def cut_sep cut_none)

lemma request_on_wire_split:
  fixes base frag now meth query hdr body l
  assumes "CHR ''?'' \<notin> set path" "path \<noteq> ''''"
  defines "r \<equiv> request_on_wire base frag now
      \<lparr>hr_Method = meth, hr_URL = base @ target path query, hr_Header = hdr, hr_Body = body, hr_Length = l\<rparr>"
  shows "rq_Method r = meth" "rq_EscapedPath r = path" "rq_RawQuery r = query" "RequestURI r = target path query"
    "rq_Header r = hdr" "rq_ContentLength r = l" "rq_Now r = now" "ending (rq_Body r) = EOF"
    "content (rq_Body r) = (case body of None \<Rightarrow> [] | Some b \<Rightarrow> content b)"
    "arriving r \<longleftrightarrow> length (case body of None \<Rightarrow> [] | Some b \<Rightarrow> content b) < 2 ^ 51"
  using assms cut_target [OF assms(1), of query]
  by (simp_all add: r_def request_on_wire_def Let_def RequestURI_def arriving_def chunkable_def)
    (auto simp: target_def)

text \<open>
  What the two sides have to agree on for a request signed on one to pass on the other: the
  keys, the clocks, a nonce that is new, and an SDK that signs.
\<close>

definition may_sign :: "('k, 'g) wallet_api \<Rightarrow> 'k \<Rightarrow> time \<Rightarrow> bytes \<Rightarrow> bool" where
  "may_sign cw sk now nb \<longleftrightarrow> (\<forall>action. \<exists>p. Sign cw (ToDERHex cw sk) action now (Some nb) = Inr p)"

definition accepts_nonce :: "'s NonceStore \<Rightarrow> 's \<Rightarrow> time \<Rightarrow> bytes \<Rightarrow> bool" where
  "accepts_nonce nops s now nb \<longleftrightarrow>
     (\<exists>s1. ns_Consume nops s (b64_encode nb) (unix_milli (now + Window) * 1000000) = (Inr True, s1))"

lemma signed_arrives:
  assumes pair: "sdk_pair cw sw ck sk" "sdk_client cw"
    and sign: "Sign cw (ToDERHex cw sk) (Action (rq_Method r) (RequestURI r) digest) now (Some nb) = Inr p"
    and meth: "rq_Method r \<in> {''GET'', ''POST'', ''DELETE''}" and uri: "ascii (RequestURI r)" "CHR '' '' \<notin> set (RequestURI r)"
      "prefix ''/'' (RequestURI r)"
    and digest: "digest = (if rq_Method r = ''POST'' then sha256_hex data else '''')"
    and hdr: "first_value (rq_Header r) Header = Encode p" and nb: "nb \<noteq> []"
    and time: "rq_Now r = now" "int64_ok (unix_milli (now + Window))" and fresh: "accepts_nonce nops s now nb"
  shows "\<exists>s1. admits sw nops s r p ck s1"
proof -
  obtain s1 where c: "ns_Consume nops s (p_Nonce p) (p_ExpiresAt p * 1000000) = (Inr True, s1)"
    using fresh Sign_nonce [OF sign] by (auto simp: accepts_nonce_def)
  have "unix_milli now < unix_milli (now + Window)" by (simp add: unix_milli_def Window_def)
  moreover have "\<not> prefix ''sha256='' (RequestURI r)" using uri(3) by (cases "RequestURI r") auto
  moreover have "ascii (rq_Method r)" "CHR '' '' \<notin> set (rq_Method r)" using meth by (auto simp: ascii_def code_of_def)
  ultimately have "admits sw nops s r p ck s1"
    using digest digest_pattern [of data] sha256_hex_nonempty [of data] uri hdr nb time c
    by (intro signed_admitted [OF pair sign]) auto
  then show ?thesis by blast
qed

section \<open>A call the server answers\<close>

text \<open>A client that has fetched the limits, in front of the server.\<close>

definition connected ::
  "('s wire, 'k, 'g) Client \<Rightarrow> ('k, 'g) wallet_api \<Rightarrow> mux \<Rightarrow> ('s, 'k, 'g) Deps \<Rightarrow> string \<Rightarrow> ('s \<Rightarrow> time \<Rightarrow> 's) \<Rightarrow>
   nat list \<Rightarrow> (time \<Rightarrow> string) \<Rightarrow> bool" where
  "connected c cw mux d key at frag fmt \<longleftrightarrow>
     c_wallet c = Some cw \<and> c_http c = wire_Do mux d key at (c_baseURL c) frag fmt \<and>
     routed mux (map fst (routes d key)) \<and> 0 \<le> MaxBlobBytes d \<and> int64_ok (MaxBlobBytes d) \<and> ascii key \<and> key \<noteq> '''' \<and>
     c_limits c \<in> {None, Some \<lparr>lim_MaxBlobBytes = MaxBlobBytes d, lim_MaxBodyBytes = MaxBlobBytes d,
       lim_ServerIdentityKey = key\<rparr>}"

text \<open>Whether the limits are cached or fetched, the server is as it was but for its clock.\<close>

lemma connected_limits:
  assumes "connected c cw mux d key at frag fmt"
  shows "\<exists>c1 w1 lim. Client_Limits (wire_host parse) c w = (Inr lim, c1, w1) \<and> lim_ServerIdentityKey lim = key \<and>
     c_baseURL c1 = c_baseURL c \<and> connected c1 cw mux d key at frag fmt \<and> c_limits c1 = Some lim \<and>
     ww_now w1 = ww_now w \<and> ww_nonces w1 = ww_nonces w \<and>
     fst (ww_state w1) \<in> {fst (ww_state w), at (fst (ww_state w)) (ww_now w)}"
proof (cases "c_limits c")
  case None
  with assms Client_Limits_fetched [of c mux d key at frag fmt parse w] show ?thesis
    by (auto simp: connected_def)
next
  case (Some lim)
  with assms show ?thesis by (auto simp: connected_def Client_Limits_def)
qed

lemma append_uri_split:
  "deviceIDPattern dev \<Longrightarrow> append_uri dev g n prev = (''/v1/log/'' @ dev) @ CHR ''?'' # append_query n g prev"
  by (simp add: append_uri_def append_query_def PathEscape_hex deviceIDPattern_def)

lemma device_plain:
  assumes "deviceIDPattern dev" "x \<in> set dev"
  shows "plain x"
proof -
  have "is_lower_hex x" using assms by (auto simp: deviceIDPattern_def list_all_iff)
  then show ?thesis by (auto simp: plain_def is_lower_hex_def is_digit_def code_of_def)
qed

definition signed_request :: "string \<Rightarrow> string \<Rightarrow> string \<Rightarrow> Proof \<Rightarrow> reader option \<Rightarrow> int \<Rightarrow> http_request" where
  "signed_request base meth uri p body sz =
     \<lparr>hr_Method = meth, hr_URL = base @ uri,
      hr_Header = (Header, Encode p) # (if body = None then [] else [(''Content-Type'', contentTypeOctetStream)]),
      hr_Body = body, hr_Length = outgoing_length body sz\<rparr>"

text \<open>What a call makes of the answer.\<close>

definition outcome_of :: "http_response \<Rightarrow> client_err + http_response" where
  "outcome_of resp = (if rs_Status resp < 200 \<or> rs_Status resp \<ge> 300 then Inl (decodeAPIError resp) else Inr resp)"

lemma outcome_not_spent: "rs_Status resp \<noteq> 401 \<Longrightarrow> \<not> isSpentProofRefusal (outcome_of resp)"
  by (simp add: outcome_of_def isSpentProofRefusal_def decodeAPIError_def Let_def case_prod_unfold)

lemma outcome_success:
  "map_option fst (bw_Sent b) = Some k \<Longrightarrow> 200 \<le> k \<Longrightarrow> k < 300 \<Longrightarrow>
     outcome_of (response_on_wire fmt b) = Inr (response_on_wire fmt b)"
  by (simp add: outcome_of_def status_on_wire)

text \<open>An envelope that is not longer than what the client reads of it.\<close>

lemma json_quote_length: "ascii s \<Longrightarrow> length (json_quote s) \<le> 6 * length s + 2"
proof -
  have "length (json_escape_ascii c) \<le> 6" for c by (simp add: json_escape_ascii_def json_u_escape_def)
  then have "ascii s \<Longrightarrow> length (json_escape s) \<le> 6 * length s"
    by (induction s) (auto simp: json_escape.simps [of "[]"] json_escape.simps [of "_ # _"] ascii_def intro: order_trans [OF add_mono])
  then show "ascii s \<Longrightarrow> length (json_quote s) \<le> 6 * length s + 2" by (simp add: json_quote_def)
qed

lemma outcome_error:
  assumes "map_option fst (bw_Sent b) = Some k" "300 \<le> k" "bw_Body b = [PieceJson (error_payload code t)]"
    and "ascii code" "ascii t" "length code + length t \<le> 10000"
  shows "outcome_of (response_on_wire fmt b) = Inl (APIError k code t)"
proof -
  let ?flds = "[(''CODE'', text_field (\<lambda>s (_, d). (s, d))), (''DESCRIPTION'', text_field (\<lambda>s (c, _). (c, s)))] :: (string \<times> string) json_field list"
  let ?text = "payload_text fmt (error_payload code t) @ [CHR 0x0A]"
  have names: "fold_name ''code'' = ''CODE''" "fold_name ''description'' = ''DESCRIPTION''" by code_simp+
  have "length (json_quote code) \<le> 6 * length code + 2" "length (json_quote t) \<le> 6 * length t + 2"
    using json_quote_length assms(4,5) by blast+
  moreover have "length (json_quote ''error'') \<le> 32" "length (json_quote ''status'') \<le> 38" "length (json_quote ''code'') \<le> 26"
    "length (json_quote ''description'') \<le> 68"
    by (rule order_trans [OF json_quote_length], simp add: ascii_def code_of_def, simp)+
  ultimately have len: "length ?text \<le> 65536"
    using assms(6) by (simp add: error_payload_def json_field_def)
  have ok: "payload_ok fmt max_nesting (error_payload code t)"
    using assms(4,5) by (simp add: error_payload_def max_nesting_def ascii_def code_of_def)
  have "json_parse ?text = Some (payload_json fmt (error_payload code t))"
    using json_value_text [of fmt 0 "error_payload code t" "CHR 0x0A" "[]"] ok
    by (simp add: json_parse_def closes_def skip_ws_def is_ws_def)
  then show ?thesis
    using assms(1-3) len
    by (auto simp: outcome_of_def decodeAPIError_def response_on_wire_def error_payload_def decode_struct_def names
        text_field_def fold_answer_names case_prod_unfold Let_def simp del: fold_name.simps)
qed

text \<open>A call whose request the server admits, whatever the state of its writer.\<close>

lemma Client_do_served:
  assumes c: "connected c cw mux d key at frag fmt" and nonces: "ww_nonces w = nb # ns"
    and sign: "Sign cw key (Action meth uri digest) (ww_now w) (Some nb) = Inr p"
    and served: "\<And>s w0. s \<in> {fst (ww_state w), at (fst (ww_state w)) (ww_now w)} \<Longrightarrow> unsent w0 \<Longrightarrow> within w0 \<Longrightarrow>
      \<exists>s2 v. app mux d key (at s (ww_now w)) (request_on_wire (c_baseURL c) frag (ww_now w)
          (signed_request (c_baseURL c) meth uri p body sz)) w0 = (s2, v, route) \<and> P s2 (base_of v)"
    and code: "\<And>s b. P s b \<Longrightarrow> \<exists>code. map_option fst (bw_Sent b) = Some code \<and> code \<noteq> 401"
  shows "\<exists>s2 tel b c'. Client_do (wire_host parse) c meth uri digest body sz w =
     (outcome_of (response_on_wire fmt b), c', w\<lparr>ww_nonces := ns, ww_state := (s2, tel)\<rparr>) \<and> P s2 b \<and>
     connected c' cw mux d key at frag fmt"
proof -
  from connected_limits [OF c, of parse w] obtain c1 w1 lim where
    lim: "Client_Limits (wire_host parse) c w = (Inr lim, c1, w1)" "lim_ServerIdentityKey lim = key"
    and c1: "c_baseURL c1 = c_baseURL c" "connected c1 cw mux d key at frag fmt"
    and w1: "ww_now w1 = ww_now w" "ww_nonces w1 = ww_nonces w"
      "fst (ww_state w1) \<in> {fst (ww_state w), at (fst (ww_state w)) (ww_now w)}" by blast
  let ?w2 = "w1\<lparr>ww_nonces := ns\<rparr>"
  have "\<exists>s2 tel b. wire_Do mux d key at (c_baseURL c) frag fmt ?w2 (signed_request (c_baseURL c) meth uri p body sz) =
     (Inr (response_on_wire fmt b), ?w2\<lparr>ww_state := (s2, tel)\<rparr>) \<and> P s2 b"
    by (rule wire_Do_app [where route = route]) (use served [OF w1(3)] w1(1) in simp)
  then obtain s2 tel b where run: "wire_Do mux d key at (c_baseURL c) frag fmt ?w2 (signed_request (c_baseURL c) meth uri p body sz) =
     (Inr (response_on_wire fmt b), ?w2\<lparr>ww_state := (s2, tel)\<rparr>)" and P: "P s2 b" by blast
  from code [OF P] have "rs_Status (response_on_wire fmt b) \<noteq> 401" using status_on_wire [of b] by auto
  note fresh = outcome_not_spent [OF this]
  have wallet: "c_wallet c = Some cw" "c_http c1 = wire_Do mux d key at (c_baseURL c) frag fmt"
    using c c1 by (auto simp: connected_def)
  have "roundTrip (wire_host parse) c1 cw key meth uri digest body sz w1 =
      (outcome_of (response_on_wire fmt b), ?w2\<lparr>ww_state := (s2, tel)\<rparr>)"
    using run sign nonces w1(1,2) wallet(2) c1(1)
    by (simp add: roundTrip_def wire_host_def signed_request_def outcome_of_def Let_def)
  moreover have "?w2\<lparr>ww_state := (s2, tel)\<rparr> = w\<lparr>ww_nonces := ns, ww_state := (s2, tel)\<rparr>"
    using w1(1) by (cases w; cases w1) simp
  ultimately show ?thesis
    using lim wallet P c1(2) fresh by (auto simp: Client_do_def)
qed

end
