(* ===== verification/Memory_Store.thy ===== *)
theory Memory_Store
  imports Store_Laws
begin

text \<open>
  \<open>internal/blobstore/memory.go\<close>: the in-memory \<open>BlobStore\<close>. The Go map of rows is an
  association list whose order stands for the iteration order, which Go leaves open; the
  theorems hold for every order. The store's clock is the reading its next call takes.
  \<open>Append\<close> is split where the code releases its lock: the advisory check, the drain of
  the body, and \<open>MemoryStore_commit\<close>, the part under the write lock.
\<close>

section \<open>State and operations\<close>

record row =
  row_key :: BlobKey
  row_sha256 :: string
  row_prevSha256 :: string
  row_data :: bytes
  row_createdAt :: time

record MemoryStore =
  ms_rows :: "(string \<times> row) list"
  ms_now :: time

definition NewMemoryStore :: "time \<Rightarrow> MemoryStore" where
  "NewMemoryStore now = \<lparr>ms_rows = [], ms_now = now\<rparr>"

abbreviation NUL :: char where
  "NUL \<equiv> CHR 0x00"

definition rowKey :: "BlobKey \<Rightarrow> string" where
  "rowKey k = key_Pseudonym k @ [NUL] @ key_DeviceID k @ [NUL] @
     format_int (key_Generation k) @ [NUL] @ format_int (key_Seq k)"

definition in_gen :: "string \<Rightarrow> string \<Rightarrow> int \<Rightarrow> row \<Rightarrow> bool" where
  "in_gen p d g r \<longleftrightarrow> key_Pseudonym (row_key r) = p \<and> key_DeviceID (row_key r) = d \<and>
     key_Generation (row_key r) = g"

definition headSeqLocked :: "MemoryStore \<Rightarrow> string \<Rightarrow> string \<Rightarrow> int \<Rightarrow> int" where
  "headSeqLocked m p d g =
     fold (\<lambda>(_, r) head. if in_gen p d g r \<and> key_Seq (row_key r) > head
                         then key_Seq (row_key r) else head) (ms_rows m) 0"

definition MemoryStore_check :: "MemoryStore \<Rightarrow> BlobKey \<Rightarrow> store_err option" where
  "MemoryStore_check m k =
     (let want = headSeqLocked m (key_Pseudonym k) (key_DeviceID k) (key_Generation k) + 1
      in if key_Seq k \<noteq> want then Some (ErrSeqConflict (ExpectedSeq want (key_Seq k))) else None)"

definition MemoryStore_commit ::
  "MemoryStore \<Rightarrow> BlobKey \<Rightarrow> string \<Rightarrow> bytes \<Rightarrow> (store_err + string \<times> int) \<times> MemoryStore" where
  "MemoryStore_commit m k prev data =
     (case MemoryStore_check m k of
        Some e \<Rightarrow> (Inl e, m)
      | None \<Rightarrow>
          (let sha = sha256_hex data;
               r = \<lparr>row_key = k, row_sha256 = sha, row_prevSha256 = prev, row_data = data,
                    row_createdAt = ms_now m\<rparr>
           in (Inr (sha, int (length data)), m\<lparr>ms_rows := AList.update (rowKey k) r (ms_rows m)\<rparr>)))"

definition MemoryStore_Append ::
  "MemoryStore \<Rightarrow> BlobKey \<Rightarrow> string \<Rightarrow> reader \<Rightarrow>
     (store_err + string \<times> int) \<times> MemoryStore \<times> reader" where
  "MemoryStore_Append m k prev body =
     (case MemoryStore_check m k of
        Some e \<Rightarrow> (Inl e, m, body)
      | None \<Rightarrow>
          (case ReadAll body of
             (Inl e, body') \<Rightarrow> (Inl (ErrReadBody e), m, body')
           | (Inr data, body') \<Rightarrow>
               if data = [] then (Inl ErrEmptyBlob, m, body')
               else case MemoryStore_commit m k prev data of (res, m') \<Rightarrow> (res, m', body')))"

definition MemoryStore_Get :: "MemoryStore \<Rightarrow> BlobKey \<Rightarrow> (store_err + reader \<times> int) \<times> MemoryStore" where
  "MemoryStore_Get m k =
     (case map_of (ms_rows m) (rowKey k) of
        None \<Rightarrow> (Inl ErrNotFound, m)
      | Some r \<Rightarrow> (Inr (BytesReader (row_data r), int (length (row_data r))), m))"

definition entry_of_row :: "row \<Rightarrow> Entry" where
  "entry_of_row r =
     \<lparr>ent_Seq = key_Seq (row_key r), ent_Sha256 = row_sha256 r,
      ent_PrevSha256 = row_prevSha256 r, ent_Size = int (length (row_data r)),
      ent_CreatedAt = row_createdAt r\<rparr>"

definition MemoryStore_Index ::
  "MemoryStore \<Rightarrow> string \<Rightarrow> string \<Rightarrow> int \<Rightarrow> int \<Rightarrow> int \<Rightarrow> (store_err + Entry list) \<times> MemoryStore" where
  "MemoryStore_Index m p d g from limit =
     (let out = [entry_of_row r. (_, r) \<leftarrow> ms_rows m, in_gen p d g r \<and> \<not> key_Seq (row_key r) < from];
          out = sort_key ent_Seq out
      in (Inr (if limit > 0 \<and> int (length out) > limit then take (nat limit) out else out), m))"

text \<open>
  \<open>Manifest\<close>: one pass groups the account's rows by device and generation into \<open>agg\<close>
  records. A group always holds a row, so the dereference of \<open>a.head\<close> is safe; the
  \<open>None\<close> case below is that dereference of \<open>nil\<close> and never arises.
\<close>

record agg =
  agg_head :: "row option"
  agg_total :: int
  agg_updatedAt :: time

definition agg_empty :: agg where
  "agg_empty = \<lparr>agg_head = None, agg_total = 0, agg_updatedAt = time_zero\<rparr>"

definition agg_add :: "row \<Rightarrow> agg \<Rightarrow> agg" where
  "agg_add r a =
     \<lparr>agg_head = (case agg_head a of
          None \<Rightarrow> Some r
        | Some h \<Rightarrow> if key_Seq (row_key r) > key_Seq (row_key h) then Some r else Some h),
      agg_total = agg_total a + int (length (row_data r)),
      agg_updatedAt = (if row_createdAt r > agg_updatedAt a then row_createdAt r else agg_updatedAt a)\<rparr>"

definition group_id :: "row \<Rightarrow> string" where
  "group_id r = key_DeviceID (row_key r) @ [NUL] @ format_int (key_Generation (row_key r))"

definition manifest_step :: "string \<Rightarrow> string \<times> row \<Rightarrow> (string \<times> agg) list \<Rightarrow> (string \<times> agg) list" where
  "manifest_step p x m =
     (case x of (_, r) \<Rightarrow>
        if key_Pseudonym (row_key r) \<noteq> p then m
        else AList.update (group_id r)
               (agg_add r (case map_of m (group_id r) of None \<Rightarrow> agg_empty | Some a \<Rightarrow> a)) m)"

definition summary_of_agg :: "agg \<Rightarrow> DeviceSummary list" where
  "summary_of_agg a =
     (case agg_head a of
        None \<Rightarrow> []
      | Some h \<Rightarrow>
          [\<lparr>dev_DeviceID = key_DeviceID (row_key h), dev_Generation = key_Generation (row_key h),
            dev_HeadSeq = key_Seq (row_key h), dev_HeadSha256 = row_sha256 h,
            dev_TotalBytes = agg_total a, dev_UpdatedAt = agg_updatedAt a\<rparr>])"

definition MemoryStore_Manifest :: "MemoryStore \<Rightarrow> string \<Rightarrow> (store_err + DeviceSummary list) \<times> MemoryStore" where
  "MemoryStore_Manifest m p =
     (let byDevGen = fold (manifest_step p) (ms_rows m) [];
          out = concat (map (\<lambda>(_, a). summary_of_agg a) byDevGen)
      in (Inr (sort_key (\<lambda>x. (dev_DeviceID x, dev_Generation x)) out), m))"

definition MemoryStore_DeleteGeneration ::
  "MemoryStore \<Rightarrow> string \<Rightarrow> string \<Rightarrow> int \<Rightarrow> (store_err + int) \<times> MemoryStore" where
  "MemoryStore_DeleteGeneration m p d g =
     (let mine = (\<lambda>r. key_Pseudonym (row_key r) = p \<and> key_DeviceID (row_key r) = d);
          (newest, found) = fold (\<lambda>(_, r) (newest, found).
              if mine r then (if key_Generation (row_key r) > newest then key_Generation (row_key r)
                              else newest, True)
              else (newest, found)) (ms_rows m) (0, False)
      in if found \<and> g > newest - RetainedGenerations
         then (Inl (ErrRetentionGuard g newest), m)
         else (Inr (int (length (filter (\<lambda>(_, r). in_gen p d g r) (ms_rows m)))),
               m\<lparr>ms_rows := filter (\<lambda>(_, r). \<not> in_gen p d g r) (ms_rows m)\<rparr>))"

definition MemoryStore_DeleteAccount :: "MemoryStore \<Rightarrow> string \<Rightarrow> (store_err + int) \<times> MemoryStore" where
  "MemoryStore_DeleteAccount m p =
     (Inr (int (length (filter (\<lambda>(_, r). key_Pseudonym (row_key r) = p) (ms_rows m)))),
      m\<lparr>ms_rows := filter (\<lambda>(_, r). key_Pseudonym (row_key r) \<noteq> p) (ms_rows m)\<rparr>)"

definition MemoryStore_Ping :: "MemoryStore \<Rightarrow> store_err option \<times> MemoryStore" where
  "MemoryStore_Ping m = (None, m)"

definition memory_ops :: "MemoryStore BlobStore" where
  "memory_ops =
     \<lparr>bs_Append = MemoryStore_Append, bs_Get = MemoryStore_Get, bs_Index = MemoryStore_Index,
      bs_Manifest = MemoryStore_Manifest, bs_DeleteGeneration = MemoryStore_DeleteGeneration,
      bs_DeleteAccount = MemoryStore_DeleteAccount, bs_Ping = MemoryStore_Ping\<rparr>"

section \<open>Row keys\<close>

text \<open>The separator keeps addresses apart: equal row keys mean equal addresses.\<close>

lemma NUL_notin_name: "name_ok s \<Longrightarrow> NUL \<notin> set s"
  by (auto simp: name_ok_def code_of_def)

lemma NUL_notin_format_int: "NUL \<notin> set (format_int n)"
  by (auto dest!: format_int_chars simp: is_digit_def code_of_def)

lemma rowKey_inject:
  assumes "name_ok (key_Pseudonym k)" "name_ok (key_Pseudonym k')"
    and "name_ok (key_DeviceID k)" "name_ok (key_DeviceID k')"
  shows "rowKey k = rowKey k' \<longleftrightarrow> k = k'"
proof
  assume "rowKey k = rowKey k'"
  note eq = this [unfolded rowKey_def, simplified]
  note p = append_sep_inject [OF eq NUL_notin_name NUL_notin_name, OF assms(1,2)]
  note d = append_sep_inject [OF conjunct2 [OF p] NUL_notin_name NUL_notin_name, OF assms(3,4)]
  note g = append_sep_inject [OF conjunct2 [OF d] NUL_notin_format_int NUL_notin_format_int]
  from p d g show "k = k'" by (simp add: format_int_inject)
qed simp

lemma group_id_inject:
  assumes "name_ok (key_DeviceID (row_key r))" and "name_ok (key_DeviceID (row_key r'))"
  shows "group_id r = group_id r' \<longleftrightarrow> key_DeviceID (row_key r) = key_DeviceID (row_key r') \<and>
     key_Generation (row_key r) = key_Generation (row_key r')"
  using append_sep_inject [of "key_DeviceID (row_key r)" NUL
      "format_int (key_Generation (row_key r))" "key_DeviceID (row_key r')"
      "format_int (key_Generation (row_key r'))"] assms
  by (auto simp: group_id_def format_int_inject dest: NUL_notin_name)

section \<open>The logs the rows stand for, and the invariant\<close>

abbreviation row_Seq :: "row \<Rightarrow> int" where
  "row_Seq r \<equiv> key_Seq (row_key r)"

definition all_rows :: "MemoryStore \<Rightarrow> row list" where
  "all_rows m = map snd (ms_rows m)"

definition gen_rows :: "MemoryStore \<Rightarrow> string \<Rightarrow> string \<Rightarrow> int \<Rightarrow> row list" where
  "gen_rows m p d g = filter (in_gen p d g) (all_rows m)"

definition stored_of_row :: "row \<Rightarrow> stored" where
  "stored_of_row r = \<lparr>s_data = row_data r, s_prev = row_prevSha256 r, s_created = row_createdAt r\<rparr>"

definition mem_logs :: "MemoryStore \<Rightarrow> logs" where
  "mem_logs m p d g = map stored_of_row (sort_key row_Seq (gen_rows m p d g))"

definition row_ok :: "row \<Rightarrow> bool" where
  "row_ok r \<longleftrightarrow> key_ok (row_key r) \<and> row_sha256 r = sha256_hex (row_data r) \<and>
     row_data r \<noteq> [] \<and> row_createdAt r > time_zero"

definition mem_ok :: "MemoryStore \<Rightarrow> bool" where
  "mem_ok m \<longleftrightarrow> distinct (map fst (ms_rows m)) \<and>
     (\<forall>(i, r) \<in> set (ms_rows m). i = rowKey (row_key r) \<and> row_ok r) \<and>
     (\<forall>p d g. contiguous row_Seq (gen_rows m p d g)) \<and> ms_now m > time_zero"

lemma mem_okD:
  assumes "mem_ok m"
  shows "distinct (map fst (ms_rows m))" and "contiguous row_Seq (gen_rows m p d g)"
    and "r \<in> set (all_rows m) \<Longrightarrow> row_ok r"
    and "(i, r) \<in> set (ms_rows m) \<Longrightarrow> i = rowKey (row_key r)"
    and "ms_now m > time_zero"
  using assms by (auto simp: mem_ok_def all_rows_def)

lemma row_ok_name:
  "row_ok r \<Longrightarrow> name_ok (key_Pseudonym (row_key r)) \<and> name_ok (key_DeviceID (row_key r))"
  by (simp add: row_ok_def key_ok_def)

lemma length_mem_logs [simp]: "length (mem_logs m p d g) = length (gen_rows m p d g)"
  by (simp add: mem_logs_def)

lemma mem_logs_eq_Nil [simp]: "mem_logs m p d g = [] \<longleftrightarrow> gen_rows m p d g = []"
  by (metis length_0_conv length_mem_logs)

lemma in_gen_row_key [simp]:
  "in_gen (key_Pseudonym (row_key r)) (key_DeviceID (row_key r)) (key_Generation (row_key r)) r"
  by (simp add: in_gen_def)

lemma gen_rowsD: "r \<in> set (gen_rows m p d g) \<Longrightarrow> r \<in> set (all_rows m) \<and> in_gen p d g r"
  by (auto simp: gen_rows_def)

lemma headSeqLocked_length:
  assumes "contiguous row_Seq (gen_rows m p d g)"
  shows "headSeqLocked m p d g = int (length (gen_rows m p d g))"
proof -
  have "headSeqLocked m p d g =
      fold (\<lambda>r h. if in_gen p d g r \<and> row_Seq r > h then row_Seq r else h) (all_rows m) 0"
    unfolding headSeqLocked_def all_rows_def
    by (induction "ms_rows m" arbitrary: m) (simp_all add: fold_map comp_def case_prod_unfold)
  also have "\<dots> = Max (insert 0 (row_Seq ` set (gen_rows m p d g)))"
    by (simp only: fold_running_max gen_rows_def set_filter)
  also have "\<dots> = Max {0..int (length (gen_rows m p d g))}"
    using assms by (auto simp: contiguous_def intro!: arg_cong [of _ _ Max])
  also have "\<dots> = int (length (gen_rows m p d g))"
    by (simp add: Max_eq_iff)
  finally show ?thesis .
qed

section \<open>Append\<close>

lemma MemoryStore_check_eq:
  assumes "mem_ok m"
  shows "MemoryStore_check m k =
     (if key_Seq k = int (length (log_of (mem_logs m) k)) + 1 then None
      else Some (ErrSeqConflict
        (ExpectedSeq (int (length (log_of (mem_logs m) k)) + 1) (key_Seq k))))"
  using headSeqLocked_length [OF mem_okD(2) [OF assms]]
  by (simp add: MemoryStore_check_def log_of_def Let_def)

text \<open>Adding one row with the next sequence number.\<close>

definition add_row :: "MemoryStore \<Rightarrow> row \<Rightarrow> MemoryStore" where
  "add_row m r = m\<lparr>ms_rows := ms_rows m @ [(rowKey (row_key r), r)]\<rparr>"

lemma gen_rows_add_row:
  "gen_rows (add_row m r) p d g = (if in_gen p d g r then gen_rows m p d g @ [r] else gen_rows m p d g)"
  by (simp add: gen_rows_def all_rows_def add_row_def)

lemma row_absent:
  assumes ok: "mem_ok m" and k: "key_ok k"
    and next_seq: "key_Seq k = int (length (gen_rows m (key_Pseudonym k) (key_DeviceID k) (key_Generation k))) + 1"
  shows "rowKey k \<notin> fst ` set (ms_rows m)"
proof
  assume "rowKey k \<in> fst ` set (ms_rows m)"
  then obtain r where r: "(rowKey k, r) \<in> set (ms_rows m)" by force
  then have all: "r \<in> set (all_rows m)" by (force simp: all_rows_def)
  have "rowKey k = rowKey (row_key r)" by (rule mem_okD(4) [OF ok r])
  then have key: "row_key r = k"
    using rowKey_inject [of k "row_key r"] row_ok_name [OF mem_okD(3) [OF ok all]] k
    by (simp add: key_ok_def)
  with all have "r \<in> set (gen_rows m (key_Pseudonym k) (key_DeviceID k) (key_Generation k))"
    by (simp add: gen_rows_def in_gen_def)
  then have "row_Seq r \<in> {1..int (length (gen_rows m (key_Pseudonym k) (key_DeviceID k) (key_Generation k)))}"
    using mem_okD(2) [OF ok] unfolding contiguous_def by blast
  with key next_seq show False by simp
qed

lemma mem_ok_add_row:
  assumes ok: "mem_ok m" and r: "row_ok r"
    and next_seq: "row_Seq r = int (length (log_of (mem_logs m) (row_key r))) + 1"
  shows "mem_ok (add_row m r)"
    and "mem_logs (add_row m r) = logs_append (mem_logs m) (row_key r) (stored_of_row r)"
proof -
  note next_seq' = next_seq [unfolded log_of_def length_mem_logs]
  have absent: "rowKey (row_key r) \<notin> fst ` set (ms_rows m)"
    using row_absent [OF ok _ next_seq'] r by (simp add: row_ok_def)
  have same: "in_gen p d g r \<Longrightarrow> row_Seq r = int (length (gen_rows m p d g)) + 1" for p d g
    using next_seq' by (auto simp: in_gen_def)
  have "contiguous row_Seq (gen_rows (add_row m r) p d g)" for p d g
    using mem_okD(2) [OF ok] contiguous_snoc [of row_Seq] same by (simp add: gen_rows_add_row)
  then show "mem_ok (add_row m r)"
    using ok r absent unfolding mem_ok_def by (auto simp: add_row_def)
  have "sort_key row_Seq (gen_rows m p d g @ [r]) = sort_key row_Seq (gen_rows m p d g) @ [r]"
    if "in_gen p d g r" for p d g
    using sort_key_snoc_next [of row_Seq] mem_okD(2) [OF ok] same [OF that] by blast
  then show "mem_logs (add_row m r) = logs_append (mem_logs m) (row_key r) (stored_of_row r)"
    by (auto simp: fun_eq_iff mem_logs_def gen_rows_add_row log_defs in_gen_def)
qed

lemma MemoryStore_commit_ok:
  assumes ok: "mem_ok m" and k: "key_ok k" and data: "data \<noteq> []"
    and next_seq: "key_Seq k = int (length (log_of (mem_logs m) k)) + 1"
  shows "\<exists>m'. MemoryStore_commit m k prev data = (Inr (sha256_hex data, int (length data)), m') \<and>
     mem_ok m' \<and> mem_logs m' = logs_append (mem_logs m) k
       \<lparr>s_data = data, s_prev = prev, s_created = ms_now m\<rparr>"
proof -
  define r where "r = \<lparr>row_key = k, row_sha256 = sha256_hex data, row_prevSha256 = prev,
    row_data = data, row_createdAt = ms_now m\<rparr>"
  have r: "row_ok r" and key: "row_key r = k"
    using k data mem_okD(5) [OF ok] by (simp_all add: row_ok_def r_def)
  have "AList.update (rowKey k) r (ms_rows m) = ms_rows m @ [(rowKey k, r)]"
    using row_absent [OF ok k] next_seq by (intro AList_update_new) (simp add: log_of_def)
  then have "MemoryStore_commit m k prev data = (Inr (sha256_hex data, int (length data)), add_row m r)"
    using next_seq
    by (simp add: MemoryStore_commit_def MemoryStore_check_eq [OF ok] add_row_def r_def Let_def)
  moreover have "stored_of_row r = \<lparr>s_data = data, s_prev = prev, s_created = ms_now m\<rparr>"
    by (simp add: stored_of_row_def r_def)
  ultimately show ?thesis
    using mem_ok_add_row [OF ok r] next_seq key by simp
qed

section \<open>Reads\<close>

lemma mem_nth_row:
  assumes ok: "mem_ok m" and i: "i < length (gen_rows m p d g)"
  obtains r where "r \<in> set (all_rows m)" and "in_gen p d g r" and "row_Seq r = int i + 1"
    and "mem_logs m p d g ! i = stored_of_row r" and "sort_key row_Seq (gen_rows m p d g) ! i = r"
proof
  let ?r = "sort_key row_Seq (gen_rows m p d g) ! i"
  have "?r \<in> set (gen_rows m p d g)" using i by (metis length_sort nth_mem set_sort)
  then show "?r \<in> set (all_rows m)" "in_gen p d g ?r" by (auto dest: gen_rowsD)
  show "row_Seq ?r = int i + 1" by (rule contiguous_nth [OF mem_okD(2) [OF ok] i])
  show "mem_logs m p d g ! i = stored_of_row ?r" using i by (simp add: mem_logs_def)
qed simp

lemma map_of_row:
  assumes ok: "mem_ok m" and r: "r \<in> set (all_rows m)"
  shows "map_of (ms_rows m) (rowKey (row_key r)) = Some r"
proof -
  from r obtain i where i: "(i, r) \<in> set (ms_rows m)" by (auto simp: all_rows_def)
  then have "i = rowKey (row_key r)" by (rule mem_okD(4) [OF ok])
  with i show ?thesis using mem_okD(1) [OF ok] by simp
qed

lemma MemoryStore_Get_found:
  assumes ok: "mem_ok m" and k: "key_ok k" and le: "key_Seq k \<le> int (length (log_of (mem_logs m) k))"
  shows "let st = log_of (mem_logs m) k ! nat (key_Seq k - 1) in
     MemoryStore_Get m k = (Inr (BytesReader (s_data st), int (length (s_data st))), m)"
proof -
  have "nat (key_Seq k - 1) < length (gen_rows m (key_Pseudonym k) (key_DeviceID k) (key_Generation k))"
    using k le by (subst nat_less_iff) (auto simp: log_of_def key_ok_def)
  from mem_nth_row [OF ok this] obtain r where r: "r \<in> set (all_rows m)"
    "in_gen (key_Pseudonym k) (key_DeviceID k) (key_Generation k) r"
    "row_Seq r = int (nat (key_Seq k - 1)) + 1"
    "log_of (mem_logs m) k ! nat (key_Seq k - 1) = stored_of_row r"
    unfolding log_of_def by metis
  have "row_key r = k" using r(2,3) k by (simp add: in_gen_def key_ok_def)
  with map_of_row [OF ok r(1)] r(4) show ?thesis
    by (simp add: MemoryStore_Get_def stored_of_row_def)
qed

lemma MemoryStore_Get_missing:
  assumes ok: "mem_ok m" and k: "key_ok k" and gt: "key_Seq k > int (length (log_of (mem_logs m) k))"
  shows "MemoryStore_Get m k = (Inl ErrNotFound, m)"
proof (cases "map_of (ms_rows m) (rowKey k)")
  case (Some r)
  then have in_m: "(rowKey k, r) \<in> set (ms_rows m)" by (rule map_of_SomeD)
  then have r: "r \<in> set (all_rows m)" by (force simp: all_rows_def)
  have "rowKey k = rowKey (row_key r)" by (rule mem_okD(4) [OF ok in_m])
  then have "row_key r = k"
    using rowKey_inject [of k "row_key r"] row_ok_name [OF mem_okD(3) [OF ok r]] k
    by (simp add: key_ok_def)
  with r have "r \<in> set (gen_rows m (key_Pseudonym k) (key_DeviceID k) (key_Generation k))"
    by (simp add: gen_rows_def in_gen_def)
  then have "row_Seq r \<le> int (length (log_of (mem_logs m) k))"
    using mem_okD(2) [OF ok, of "key_Pseudonym k" "key_DeviceID k" "key_Generation k"]
    unfolding contiguous_def log_of_def length_mem_logs by (metis atLeastAtMost_iff image_eqI)
  with \<open>row_key r = k\<close> gt show ?thesis by simp
qed (simp add: MemoryStore_Get_def)

lemma log_entries_rows:
  assumes "mem_ok m"
  shows "log_entries (mem_logs m p d g) = map entry_of_row (sort_key row_Seq (gen_rows m p d g))"
proof (rule nth_equalityI)
  fix i assume "i < length (log_entries (mem_logs m p d g))"
  then have i: "i < length (gen_rows m p d g)" by simp
  from mem_nth_row [OF assms i] obtain r where r: "r \<in> set (all_rows m)" "row_Seq r = int i + 1"
    "mem_logs m p d g ! i = stored_of_row r" "sort_key row_Seq (gen_rows m p d g) ! i = r" by metis
  from mem_okD(3) [OF assms r(1)] have "row_sha256 r = sha256_hex (row_data r)"
    by (simp add: row_ok_def)
  with r i show "log_entries (mem_logs m p d g) ! i =
      map entry_of_row (sort_key row_Seq (gen_rows m p d g)) ! i"
    by (simp add: entry_at_def entry_of_row_def stored_of_row_def)
qed simp

lemma MemoryStore_Index_page:
  assumes "mem_ok m" and "1 \<le> limit"
  shows "MemoryStore_Index m p d g from limit = (Inr (index_page (mem_logs m p d g) from limit), m)"
proof -
  define rs where "rs = filter (\<lambda>r. \<not> row_Seq r < from) (gen_rows m p d g)"
  have "[entry_of_row r. (_, r) \<leftarrow> xs, in_gen p d g r \<and> \<not> row_Seq r < from] =
      map entry_of_row (filter (\<lambda>r. \<not> row_Seq r < from) (filter (in_gen p d g) (map snd xs)))"
    for xs :: "(string \<times> row) list"
    by (induction xs) auto
  then have "[entry_of_row r. (_, r) \<leftarrow> ms_rows m, in_gen p d g r \<and> \<not> row_Seq r < from] = map entry_of_row rs"
    unfolding rs_def gen_rows_def all_rows_def by blast
  moreover have page: "sort_key ent_Seq (map entry_of_row rs) =
      filter (\<lambda>e. from \<le> ent_Seq e) (log_entries (mem_logs m p d g))"
    unfolding log_entries_rows [OF assms(1)] sort_key_map rs_def
    by (simp add: filter_map filter_sort comp_def entry_of_row_def not_less)
  moreover have "length (filter (\<lambda>e. from \<le> ent_Seq e) (log_entries (mem_logs m p d g))) = length rs"
    by (metis length_map length_sort page)
  ultimately show ?thesis
    using assms(2) by (simp add: MemoryStore_Index_def index_page_def Let_def)
qed

section \<open>Deletion\<close>

text \<open>Dropping whole generations keeps the invariant and empties their logs.\<close>

definition keep_rows :: "(row \<Rightarrow> bool) \<Rightarrow> MemoryStore \<Rightarrow> MemoryStore" where
  "keep_rows P m = m\<lparr>ms_rows := filter (\<lambda>(_, r). P r) (ms_rows m)\<rparr>"

lemma gen_rows_keep_rows: "gen_rows (keep_rows P m) p d g = filter P (gen_rows m p d g)"
proof -
  have "map snd (filter (\<lambda>(_, r). P r) xs) = filter P (map snd xs)" for xs :: "(string \<times> row) list"
    by (induction xs) auto
  then show ?thesis
    by (auto simp: gen_rows_def all_rows_def keep_rows_def intro!: filter_cong)
qed

lemma keep_rows_whole:
  assumes ok: "mem_ok m" and whole: "\<And>r. P r = Q (key_Pseudonym (row_key r)) (key_DeviceID (row_key r)) (key_Generation (row_key r))"
  shows "mem_ok (keep_rows P m)"
    and "mem_logs (keep_rows P m) = (\<lambda>p d g. if Q p d g then mem_logs m p d g else [])"
proof -
  have gen: "gen_rows (keep_rows P m) p d g = (if Q p d g then gen_rows m p d g else [])" for p d g
  proof -
    have "P r = Q p d g" if "r \<in> set (gen_rows m p d g)" for r
      using gen_rowsD [OF that] by (simp add: whole in_gen_def)
    then show ?thesis unfolding gen_rows_keep_rows by (simp cong: filter_cong)
  qed
  then have "contiguous row_Seq (gen_rows (keep_rows P m) p d g)" for p d g
    using mem_okD(2) [OF ok] by (auto simp: contiguous_def)
  moreover have "distinct (map fst (filter (\<lambda>(_, r). P r) (ms_rows m)))"
    using mem_okD(1) [OF ok] by (rule distinct_map_filter)
  ultimately show "mem_ok (keep_rows P m)"
    using ok unfolding mem_ok_def by (auto simp: keep_rows_def)
  show "mem_logs (keep_rows P m) = (\<lambda>p d g. if Q p d g then mem_logs m p d g else [])"
    by (simp add: fun_eq_iff mem_logs_def gen)
qed

lemma newest_found:
  "fold (\<lambda>(_, r) (newest, found).
        if P r then (if f r > newest then f r else newest, True) else (newest, found)) xs (a, b) =
     (Max (insert a (f ` {r \<in> snd ` set xs. P r})), b \<or> (\<exists>r \<in> snd ` set xs. P r))"
  for a :: int
proof (induction xs arbitrary: a b)
  case (Cons x xs)
  obtain i r where x: "x = (i, r)" by (cases x)
  have ins: "{y \<in> snd ` set (x # xs). P y} =
      (if P r then insert r {y \<in> snd ` set xs. P y} else {y \<in> snd ` set xs. P y})"
    using x by auto
  have "max a (f r) = (if f r > a then f r else a)" by (auto simp: max_def)
  moreover have "Max (insert (max a (f r)) (f ` {y \<in> snd ` set xs. P y})) =
      Max (insert a (insert (f r) (f ` {y \<in> snd ` set xs. P y})))"
    by (rule Max_insert_max) simp
  ultimately show ?case using Cons.IH ins x by (cases "P r") auto
qed auto

lemma mem_device_gens:
  "device_gens (mem_logs m) p d =
     (\<lambda>r. key_Generation (row_key r)) ` {r \<in> snd ` set (ms_rows m).
        key_Pseudonym (row_key r) = p \<and> key_DeviceID (row_key r) = d}"
  by (force simp: device_gens_def gen_rows_def all_rows_def filter_empty_conv in_gen_def)

lemma mem_DeleteGeneration_eq:
  fixes p d :: string
  assumes ok: "mem_ok m"
  defines "gs \<equiv> device_gens (mem_logs m) p d"
  shows "MemoryStore_DeleteGeneration m p d g =
     (if gs \<noteq> {} \<and> g > Max gs - RetainedGenerations
      then (Inl (ErrRetentionGuard g (Max gs)), m)
      else (Inr (int (length (mem_logs m p d g))), keep_rows (\<lambda>r. \<not> in_gen p d g r) m))"
proof -
  have gs: "gs = (\<lambda>r. key_Generation (row_key r)) ` {r \<in> snd ` set (ms_rows m).
        key_Pseudonym (row_key r) = p \<and> key_DeviceID (row_key r) = d}"
    unfolding gs_def by (rule mem_device_gens)
  have fin: "finite gs" unfolding gs by simp
  have pos: "1 \<le> x" if "x \<in> gs" for x
    using that mem_okD(3) [OF ok] by (auto simp: gs all_rows_def row_ok_def key_ok_def)
  have max0: "Max (insert 0 gs) = Max gs" if "gs \<noteq> {}"
  proof -
    have "1 \<le> Max gs" using pos [OF Max_in [OF fin that]] .
    then show ?thesis using fin that by simp
  qed
  have found: "(\<exists>r \<in> snd ` set (ms_rows m). key_Pseudonym (row_key r) = p \<and> key_DeviceID (row_key r) = d)
      \<longleftrightarrow> gs \<noteq> {}"
    unfolding gs by blast
  have len: "length (filter (\<lambda>(_, r). in_gen p d g r) xs) = length (filter (in_gen p d g) (map snd xs))"
    for xs :: "(string \<times> row) list" by (induction xs) auto
  show ?thesis
    unfolding MemoryStore_DeleteGeneration_def newest_found gs [symmetric] found Let_def
    using max0 by (cases "gs = {}") (simp_all add: keep_rows_def gen_rows_def all_rows_def len)
qed

lemma finite_mem_live: "finite (live_gens (mem_logs m) p)"
proof (rule finite_subset)
  show "live_gens (mem_logs m) p \<subseteq>
      (\<lambda>r. (key_DeviceID (row_key r), key_Generation (row_key r))) ` set (all_rows m)"
    by (force simp: live_gens_def gen_rows_def filter_empty_conv in_gen_def)
qed simp

text \<open>The number of rows of an account is the total length of its logs.\<close>

lemma mem_account_rows:
  "account_rows (mem_logs m) p =
     int (length (filter (\<lambda>(_, r). key_Pseudonym (row_key r) = p) (ms_rows m)))"
proof -
  let ?f = "\<lambda>r. (key_DeviceID (row_key r), key_Generation (row_key r))"
  have "length (filter (\<lambda>r. key_Pseudonym (row_key r) = p) (all_rows m)) =
      (\<Sum>a \<in> live_gens (mem_logs m) p.
         length (filter (\<lambda>r. key_Pseudonym (row_key r) = p \<and> ?f r = a) (all_rows m)))"
    by (rule filter_partition_length [OF finite_mem_live])
      (auto simp: live_gens_def gen_rows_def filter_empty_conv intro: in_gen_row_key)
  also have "\<dots> = (\<Sum>(d, g) \<in> live_gens (mem_logs m) p. length (mem_logs m p d g))"
    by (intro sum.cong refl) (auto simp: gen_rows_def in_gen_def intro!: arg_cong [of _ _ length] filter_cong)
  finally have "int (length (filter (\<lambda>r. key_Pseudonym (row_key r) = p) (all_rows m))) =
      account_rows (mem_logs m) p"
    by (simp add: account_rows_def case_prod_unfold)
  moreover have "length (filter (\<lambda>(_, r). key_Pseudonym (row_key r) = p) xs) =
      length (filter (\<lambda>r. key_Pseudonym (row_key r) = p) (map snd xs))" for xs :: "(string \<times> row) list"
    by (induction xs) auto
  ultimately show ?thesis by (simp add: all_rows_def)
qed

section \<open>Manifest\<close>

text \<open>
  The grouping pass keeps, for every group identifier seen, the aggregate of the rows of
  that group in the order they were visited.
\<close>

definition agg_rows :: "row list \<Rightarrow> agg" where
  "agg_rows rs = fold agg_add rs agg_empty"

lemma agg_rows_snoc: "agg_rows (rs @ [r]) = agg_add r (agg_rows rs)"
  by (simp add: agg_rows_def)

definition account_list :: "string \<Rightarrow> (string \<times> row) list \<Rightarrow> row list" where
  "account_list p xs = filter (\<lambda>r. key_Pseudonym (row_key r) = p) (map snd xs)"

lemma manifest_fold_lookup:
  "map_of (fold (manifest_step p) xs []) i =
     (let rs = filter (\<lambda>r. group_id r = i) (account_list p xs)
      in if rs = [] then None else Some (agg_rows rs))"
proof (induction xs rule: rev_induct)
  case (snoc x xs)
  obtain k r where x: "x = (k, r)" by (cases x)
  show ?case
  proof (cases "key_Pseudonym (row_key r) = p")
    case True
    with snoc x show ?thesis
      by (auto simp: manifest_step_def account_list_def Let_def update_conv' agg_rows_snoc
          agg_rows_def)
  next
    case False
    with snoc x show ?thesis by (simp add: manifest_step_def account_list_def)
  qed
qed (simp add: account_list_def)

lemma manifest_fold_distinct: "distinct (map fst (fold (manifest_step p) xs []))"
proof (induction xs rule: rev_induct)
  case (snoc x xs)
  then show ?case
    by (cases x) (auto simp: manifest_step_def intro: distinct_update)
qed simp

text \<open>What the aggregate of a contiguous group says, against the group's log.\<close>

lemma agg_rows_total: "agg_total (agg_rows rs) = sum_list (map (\<lambda>r. int (length (row_data r))) rs)"
  by (induction rs rule: rev_induct) (simp_all add: agg_rows_snoc agg_add_def, simp add: agg_rows_def agg_empty_def)

lemma agg_rows_updated:
  "agg_updatedAt (agg_rows rs) = Max (insert time_zero (row_createdAt ` set rs))"
proof (induction rs rule: rev_induct)
  case (snoc r rs)
  have "agg_updatedAt (agg_rows (rs @ [r])) = max (row_createdAt r) (agg_updatedAt (agg_rows rs))"
    by (auto simp: agg_rows_snoc agg_add_def max_def)
  moreover have "insert time_zero (row_createdAt ` set (rs @ [r])) =
      insert (row_createdAt r) (insert time_zero (row_createdAt ` set rs))" by auto
  ultimately show ?case using snoc by (metis Max_insert finite_imageI finite_insert
        finite_set insert_not_empty)
qed (simp add: agg_rows_def agg_empty_def)

lemma agg_rows_head:
  "rs \<noteq> [] \<Longrightarrow> \<exists>h. agg_head (agg_rows rs) = Some h \<and> h \<in> set rs \<and> (\<forall>r \<in> set rs. row_Seq r \<le> row_Seq h)"
proof (induction rs rule: rev_induct)
  case (snoc r rs)
  show ?case
  proof (cases "rs = []")
    case True
    then show ?thesis by (simp add: agg_rows_def agg_add_def agg_empty_def)
  next
    case False
    with snoc.IH obtain h where "agg_head (agg_rows rs) = Some h" "h \<in> set rs"
      "\<forall>x \<in> set rs. row_Seq x \<le> row_Seq h" by blast
    then show ?thesis by (force simp: agg_rows_snoc agg_add_def)
  qed
qed simp

lemma summary_of_group:
  assumes ok: "mem_ok m" and ne: "gen_rows m p d g \<noteq> []"
  shows "summary_of_agg (agg_rows (gen_rows m p d g)) = [summary_of d g (mem_logs m p d g)]"
proof -
  let ?rs = "gen_rows m p d g"
  let ?n = "length ?rs"
  obtain h where h: "agg_head (agg_rows ?rs) = Some h" "h \<in> set ?rs"
    "\<forall>r \<in> set ?rs. row_Seq r \<le> row_Seq h" using agg_rows_head [OF ne] by blast
  have "?n - 1 < ?n" using ne by simp
  from mem_nth_row [OF ok this] obtain r where r: "in_gen p d g r" "row_Seq r = int (?n - 1) + 1"
    "mem_logs m p d g ! (?n - 1) = stored_of_row r" "sort_key row_Seq ?rs ! (?n - 1) = r" by metis
  have "r \<in> set ?rs" using r(4) \<open>?n - 1 < ?n\<close> by (metis length_sort nth_mem set_sort)
  then have "row_Seq r \<le> row_Seq h" using h(3) by blast
  moreover have "row_Seq h \<le> int ?n"
    using h(2) mem_okD(2) [OF ok, of p d g] unfolding contiguous_def by (metis atLeastAtMost_iff image_eqI)
  ultimately have seq: "row_Seq h = int ?n" using r(2) ne by simp
  then have "row_Seq h = row_Seq r" using r(2) ne by (cases ?rs) simp_all
  with h(2) \<open>r \<in> set ?rs\<close> have "h = r"
    using mem_okD(2) [OF ok, of p d g] by (auto simp: contiguous_def distinct_map dest: inj_onD)
  have last: "last (mem_logs m p d g) = stored_of_row h"
    using r(3) \<open>h = r\<close> ne by (simp add: last_conv_nth)
  have key: "in_gen p d g h" and sha: "row_sha256 h = sha256_hex (row_data h)"
    using h(2) mem_okD(3) [OF ok] by (auto dest!: gen_rowsD simp: row_ok_def)
  have total: "sum_list (map (\<lambda>st. int (length (s_data st))) (mem_logs m p d g)) = agg_total (agg_rows ?rs)"
    by (simp add: agg_rows_total mem_logs_def comp_def stored_of_row_def)
      (metis (no_types, lifting) mset_map mset_sort sum_mset_sum_list)
  have created: "s_created ` set (mem_logs m p d g) = row_createdAt ` set ?rs"
    by (force simp: mem_logs_def stored_of_row_def)
  have "time_zero \<le> Max (row_createdAt ` set ?rs)"
    using h(2) mem_okD(3) [OF ok] gen_rowsD
    by (intro Max_ge_iff [THEN iffD2]) (auto simp: row_ok_def intro!: bexI [of _ h] less_imp_le)
  then have upd: "agg_updatedAt (agg_rows ?rs) = Max (s_created ` set (mem_logs m p d g))"
    using ne by (simp add: agg_rows_updated created max_def)
  show ?thesis
    using key by (simp add: summary_of_agg_def h(1) summary_of_def seq last sha total upd
        stored_of_row_def in_gen_def)
qed

lemma group_rows:
  assumes ok: "mem_ok m" and r: "r \<in> set (all_rows m)"
  shows "filter (\<lambda>x. group_id x = group_id r) (account_list p (ms_rows m)) =
     gen_rows m p (key_DeviceID (row_key r)) (key_Generation (row_key r))"
proof -
  have "group_id x = group_id r \<longleftrightarrow> key_DeviceID (row_key x) = key_DeviceID (row_key r) \<and>
      key_Generation (row_key x) = key_Generation (row_key r)" if "x \<in> set (all_rows m)" for x
    using group_id_inject row_ok_name mem_okD(3) [OF ok] that r by blast
  then show ?thesis
    unfolding account_list_def gen_rows_def all_rows_def filter_filter
    by (intro filter_cong refl) (auto simp: in_gen_def all_rows_def)
qed

definition gid :: "string \<times> int \<Rightarrow> string" where
  "gid dg = fst dg @ [NUL] @ format_int (snd dg)"

lemma group_id_gid: "group_id r = gid (key_DeviceID (row_key r), key_Generation (row_key r))"
  by (simp add: group_id_def gid_def)

lemma live_row:
  assumes "dg \<in> live_gens (mem_logs m) p"
  obtains r where "r \<in> set (all_rows m)" and "key_Pseudonym (row_key r) = p"
    and "dg = (key_DeviceID (row_key r), key_Generation (row_key r))"
  using assms by (auto simp: live_gens_def gen_rows_def filter_empty_conv in_gen_def)

lemma gid_inject_live:
  assumes "mem_ok m" and "dg \<in> live_gens (mem_logs m) p" and "dg' \<in> live_gens (mem_logs m) p"
  shows "gid dg = gid dg' \<longleftrightarrow> dg = dg'"
  using assms(2,3)
  by (elim live_row) (use group_id_inject group_id_gid row_ok_name mem_okD(3) [OF assms(1)] in auto)

lemma manifest_group:
  assumes ok: "mem_ok m" and x: "x \<in> set (fold (manifest_step p) (ms_rows m) [])"
  shows "\<exists>dg. fst x = gid dg \<and> dg \<in> live_gens (mem_logs m) p \<and>
     summary_of_agg (snd x) = [case dg of (d, g) \<Rightarrow> summary_of d g (mem_logs m p d g)]"
proof -
  let ?rs = "filter (\<lambda>r. group_id r = fst x) (account_list p (ms_rows m))"
  have "map_of (fold (manifest_step p) (ms_rows m) []) (fst x) = Some (snd x)"
    using x manifest_fold_distinct by simp
  then have a: "?rs \<noteq> []" "snd x = agg_rows ?rs"
    unfolding manifest_fold_lookup by (auto simp: Let_def split: if_splits)
  from a(1) obtain r where r: "r \<in> set (all_rows m)" "key_Pseudonym (row_key r) = p" "group_id r = fst x"
    by (auto simp: filter_empty_conv account_list_def all_rows_def)
  let ?d = "key_DeviceID (row_key r)" and ?g = "key_Generation (row_key r)"
  have rs: "?rs = gen_rows m p ?d ?g" using group_rows [OF ok r(1)] r(3) by simp
  then have live: "gen_rows m p ?d ?g \<noteq> []" using a(1) by simp
  then have "(?d, ?g) \<in> live_gens (mem_logs m) p" by (simp add: live_gens_def)
  moreover have "summary_of_agg (snd x) = [summary_of ?d ?g (mem_logs m p ?d ?g)]"
    using summary_of_group [OF ok live] a(2) rs by simp
  ultimately show ?thesis
    using r(3) by (intro exI [of _ "(?d, ?g)"]) (simp add: group_id_gid)
qed

lemma mem_Manifest_eq:
  assumes ok: "mem_ok m"
  shows "MemoryStore_Manifest m p = (Inr (manifest_of (mem_logs m) p), m)"
proof -
  let ?groups = "fold (manifest_step p) (ms_rows m) []"
  let ?key = "\<lambda>x :: DeviceSummary. (dev_DeviceID x, dev_Generation x)"
  define sm where "sm = (\<lambda>(d, g). summary_of d g (mem_logs m p d g))"
  obtain f where f: "\<And>x. x \<in> set ?groups \<Longrightarrow> fst x = gid (f x) \<and> f x \<in> live_gens (mem_logs m) p \<and>
      summary_of_agg (snd x) = [sm (f x)]"
    using manifest_group [OF ok, of _ p] unfolding sm_def [symmetric] by (metis (no_types, lifting))
  have key: "?key (sm dg) = dg" for dg by (cases dg) (simp add: sm_def summary_of_def)
  have "map (\<lambda>(_, a). summary_of_agg a) ?groups = map (\<lambda>x. [sm (f x)]) ?groups"
    using f by (intro map_cong refl) (simp add: case_prod_unfold)
  then have out: "concat (map (\<lambda>(_, a). summary_of_agg a) ?groups) = map (\<lambda>x. sm (f x)) ?groups"
    by (simp only: concat_map_singleton)
  have "sort_key ?key (map (\<lambda>x. sm (f x)) ?groups) = map sm (sorted_list_of_set (live_gens (mem_logs m) p))"
  proof (rule sort_key_by_index)
    have "map gid (map f ?groups) = map fst ?groups" using f by (simp add: comp_def)
    then have "distinct (map gid (map f ?groups))" using manifest_fold_distinct by metis
    then have "distinct (map f ?groups)" by (subst (asm) distinct_map) blast
    then show "distinct (map ?key (map (\<lambda>x. sm (f x)) ?groups))" by (simp add: comp_def key del: Pair_inject)
    show "?key ` set (map (\<lambda>x. sm (f x)) ?groups) = live_gens (mem_logs m) p" (is "?l = ?r")
    proof (intro set_eqI iffI)
      have l: "?l = f ` set ?groups" by (simp only: set_map image_image key)
      fix dg assume "dg \<in> ?l"
      then show "dg \<in> ?r" unfolding l using f by blast
    next
      fix dg assume dg: "dg \<in> ?r"
      then obtain r where r: "r \<in> set (all_rows m)" "key_Pseudonym (row_key r) = p" "gid dg = group_id r"
        by (rule live_row) (simp add: group_id_gid)
      then have "map_of ?groups (gid dg) \<noteq> None"
        unfolding manifest_fold_lookup by (auto simp: Let_def account_list_def all_rows_def filter_empty_conv)
      then obtain x where x: "x \<in> set ?groups" "fst x = gid dg" by (auto dest: map_of_SomeD)
      then have "f x = dg" using f [OF x(1)] gid_inject_live [OF ok _ dg] by metis
      with x(1) show "dg \<in> ?l" by (simp only: set_map image_image key) blast
    qed
    show "x = sm (?key x)" if "x \<in> set (map (\<lambda>x. sm (f x)) ?groups)" for x
      using that unfolding set_map by (elim imageE) (simp only: key)
  qed (rule finite_mem_live)
  then show ?thesis by (simp add: MemoryStore_Manifest_def out manifest_of_def sm_def Let_def)
qed

section \<open>The memory store keeps the contract\<close>

lemma MemoryStore_Append_next:
  assumes "mem_ok s" "key_ok k" "reader_wf body" "key_Seq k = int (length (log_of (mem_logs s) k)) + 1"
    and "ending body = EOF" "content body \<noteq> []"
  shows "\<exists>s' body'. MemoryStore_Append s k prev body =
              (Inr (sha256_hex (content body), int (length (content body))), s', body') \<and> mem_ok s' \<and>
            mem_logs s' = logs_append (mem_logs s) k
              \<lparr>s_data = content body, s_prev = prev, s_created = ms_now s\<rparr> \<and>
            (reader_over body' \<longleftrightarrow> reader_over body)"
proof -
  obtain m' where "MemoryStore_commit s k prev (content body) =
      (Inr (sha256_hex (content body), int (length (content body))), m')" "mem_ok m'"
    "mem_logs m' = logs_append (mem_logs s) k
       \<lparr>s_data = content body, s_prev = prev, s_created = ms_now s\<rparr>"
    using MemoryStore_commit_ok [of s k "content body" prev] assms by blast
  moreover obtain body' where "ReadAll body = (Inr (content body), body')"
    using ReadAll_stream [of body] assms by (cases "ReadAll body") simp
  ultimately show ?thesis using ReadAll_over [of body] assms
    by (simp add: MemoryStore_Append_def MemoryStore_check_eq)
qed

interpretation mem: blob_store memory_ops mem_logs mem_ok ms_now
proof (unfold_locales, goal_cases)
  case (1 s p)
  then show ?case by (rule_tac finite_mem_live)
next
  case (2 s st p d g)
  then show ?case
    by (auto simp: mem_logs_def stored_of_row_def row_ok_def dest!: gen_rowsD mem_okD(3))
next
  case (3 s p d g)
  then obtain r where "r \<in> set (gen_rows s p d g)" by (cases "gen_rows s p d g") auto
  then show ?case using mem_okD(3) [OF 3(1)]
    by (auto simp: row_ok_def key_ok_def in_gen_def dest!: gen_rowsD)
next
  case (4 s k prev body)
  then show ?case by (simp add: memory_ops_def MemoryStore_Append_def MemoryStore_check_eq)
next
  case (5 s k prev body)
  then show ?case using MemoryStore_Append_next [of s k body prev] by (simp add: memory_ops_def)
next
  case (6 s k body prev)
  moreover obtain body' where "ReadAll body = (Inr [], body')"
    using ReadAll_stream [of body] 6 by (cases "ReadAll body") simp
  ultimately show ?case using ReadAll_over [of body]
    by (simp add: memory_ops_def MemoryStore_Append_def MemoryStore_check_eq)
next
  case (7 s k body prev)
  moreover obtain body' where "ReadAll body = (Inl (ending body), body')"
    using ReadAll_stream [of body] 7 by (cases "ReadAll body") simp
  ultimately show ?case using ReadAll_over [of body]
    by (simp add: memory_ops_def MemoryStore_Append_def MemoryStore_check_eq)
next
  case (8 s k)
  with MemoryStore_Get_found [OF 8] show ?case by (simp add: memory_ops_def Let_def)
next
  case (9 s k)
  with MemoryStore_Get_missing [OF 9] show ?case by (simp add: memory_ops_def)
next
  case (10 s p d g "from" limit)
  then show ?case by (simp add: memory_ops_def MemoryStore_Index_page)
next
  case (11 s p)
  then show ?case by (simp add: memory_ops_def mem_Manifest_eq)
next
  case (12 s p d g)
  then show ?case by (simp add: memory_ops_def mem_DeleteGeneration_eq)
next
  case (13 s p d g)
  note keep = keep_rows_whole [OF 13(1), of "\<lambda>r. \<not> in_gen p d g r" "\<lambda>p' d' g'. \<not> (p' = p \<and> d' = d \<and> g' = g)"]
  have "mem_logs (keep_rows (\<lambda>r. \<not> in_gen p d g r) s) = set_log (mem_logs s) p d g []"
    by (subst keep(2)) (auto simp: in_gen_def set_log_def fun_eq_iff)
  moreover have "mem_ok (keep_rows (\<lambda>r. \<not> in_gen p d g r) s)"
    by (rule keep(1)) (simp add: in_gen_def)
  ultimately show ?case using 13
    by (auto simp: memory_ops_def mem_DeleteGeneration_eq simp del: length_mem_logs)
next
  case (14 s p)
  note keep = keep_rows_whole [OF 14(1), of "\<lambda>r. key_Pseudonym (row_key r) \<noteq> p" "\<lambda>p' d' g'. p' \<noteq> p"]
  have "mem_logs (keep_rows (\<lambda>r. key_Pseudonym (row_key r) \<noteq> p) s) = erase_account (mem_logs s) p"
    by (subst keep(2)) (auto simp: erase_account_def fun_eq_iff)
  moreover have "mem_ok (keep_rows (\<lambda>r. key_Pseudonym (row_key r) \<noteq> p) s)"
    by (rule keep(1)) simp
  ultimately show ?case
    by (simp add: memory_ops_def MemoryStore_DeleteAccount_def mem_account_rows keep_rows_def)
next
  case (15 s)
  then show ?case by (simp add: memory_ops_def MemoryStore_Ping_def)
next
  case (16 s k body prev r s' body')
  then have app: "MemoryStore_Append s k prev body = (r, s', body')" by (simp add: memory_ops_def)
  show ?case
  proof (cases "key_Seq k = int (length (log_of (mem_logs s) k)) + 1 \<and> ending body = EOF \<and> content body \<noteq> []")
    case True
    with app 16 show ?thesis using MemoryStore_Append_next [of s k body prev] by auto
  next
    case False
    with app 16 show ?thesis using ReadAll_stream [of body] ReadAll_over [of body]
      by (auto simp: MemoryStore_Append_def MemoryStore_check_eq split: prod.splits sum.splits if_splits)
  qed
next
  case (17 s p d g f limit ri s')
  then show ?case by (auto simp: memory_ops_def MemoryStore_Index_def Let_def)
qed

lemma mem_ok_new: "now > time_zero \<Longrightarrow> mem_ok (NewMemoryStore now)"
  by (simp add: mem_ok_def NewMemoryStore_def gen_rows_def all_rows_def contiguous_def)

lemma mem_logs_new: "mem_logs (NewMemoryStore now) = (\<lambda>_ _ _. [])"
  by (simp add: fun_eq_iff mem_logs_def NewMemoryStore_def gen_rows_def all_rows_def)

text \<open>A run may set the store's clock.\<close>

definition mem_at :: "MemoryStore \<Rightarrow> time \<Rightarrow> MemoryStore" where
  "mem_at m now = m\<lparr>ms_now := now\<rparr>"

interpretation mem_timed: timed_blob_store memory_ops mem_logs mem_ok ms_now mem_at
proof
  have rows: "gen_rows (mem_at s now) = gen_rows s" for s now
    by (simp add: fun_eq_iff mem_at_def gen_rows_def all_rows_def)
  show "ms_now (mem_at s now) = now" for s now by (simp add: mem_at_def)
  show "mem_logs (mem_at s now) = mem_logs s" for s now
    by (simp add: fun_eq_iff mem_logs_def rows)
  show "mem_ok (mem_at s now)" if "mem_ok s" "time_zero < now" for s now
    using that by (simp add: mem_ok_def rows) (simp add: mem_at_def)
qed

end
