(* ===== verification/Tracing_Store.thy ===== *)
theory Tracing_Store
  imports Memory_Store Postgres_Contract
begin

text \<open>
  \<open>internal/blobstore/tracing.go\<close>: the wrapper that runs every store operation inside a
  span. The wrapped state pairs the store with the spans ended so far. The tracer itself
  belongs to OpenTelemetry; what is kept of it is what the source hands to it: a span's
  name, its attributes and the text of its error status. The wrapper changes nothing a
  caller sees: a traced store meets the contract whenever the store does.
\<close>

record span =
  sp_name :: string
  sp_attribute :: "string \<times> int"
  sp_error :: "string option"

definition recordErr :: "store_err option \<Rightarrow> span \<Rightarrow> span" where
  "recordErr err sp = (case err of None \<Rightarrow> sp | Some e \<Rightarrow> sp\<lparr>sp_error := Some (store_err_text e)\<rparr>)"

definition start_span :: "string \<Rightarrow> string \<times> int \<Rightarrow> span" where
  "start_span name attr = \<lparr>sp_name = name, sp_attribute = attr, sp_error = None\<rparr>"

definition err_of :: "store_err + 'a \<Rightarrow> store_err option" where
  "err_of r = (case r of Inl e \<Rightarrow> Some e | Inr _ \<Rightarrow> None)"

text \<open>A Go result has its zero value beside an error.\<close>

definition count_of :: "('a \<Rightarrow> int) \<Rightarrow> store_err + 'a \<Rightarrow> int" where
  "count_of f r = (case r of Inl _ \<Rightarrow> 0 | Inr x \<Rightarrow> f x)"

definition tracingStore_Append ::
  "'s BlobStore \<Rightarrow> 's \<times> span list \<Rightarrow> BlobKey \<Rightarrow> string \<Rightarrow> reader \<Rightarrow>
     (store_err + string \<times> int) \<times> ('s \<times> span list) \<times> reader" where
  "tracingStore_Append nxt t k prev body =
     (case t of (s, spans) \<Rightarrow>
        (case bs_Append nxt s k prev body of
           (r, s', body') \<Rightarrow>
             (r, (s', spans @ [recordErr (err_of r)
                (start_span ''blobstore.Append'' (''blob.bytes'', count_of snd r))]), body')))"

definition tracingStore_Get ::
  "'s BlobStore \<Rightarrow> 's \<times> span list \<Rightarrow> BlobKey \<Rightarrow> (store_err + reader \<times> int) \<times> 's \<times> span list" where
  "tracingStore_Get nxt t k =
     (case t of (s, spans) \<Rightarrow>
        (case bs_Get nxt s k of
           (r, s') \<Rightarrow>
             (r, s', spans @ [recordErr (err_of r)
                (start_span ''blobstore.Get'' (''blob.bytes'', count_of snd r))])))"

definition tracingStore_Index ::
  "'s BlobStore \<Rightarrow> 's \<times> span list \<Rightarrow> string \<Rightarrow> string \<Rightarrow> int \<Rightarrow> int \<Rightarrow> int \<Rightarrow>
     (store_err + Entry list) \<times> 's \<times> span list" where
  "tracingStore_Index nxt t p d g from limit =
     (case t of (s, spans) \<Rightarrow>
        (case bs_Index nxt s p d g from limit of
           (r, s') \<Rightarrow>
             (r, s', spans @ [recordErr (err_of r)
                (start_span ''blobstore.Index'' (''entries'', count_of (\<lambda>es. int (length es)) r))])))"

definition tracingStore_Manifest ::
  "'s BlobStore \<Rightarrow> 's \<times> span list \<Rightarrow> string \<Rightarrow> (store_err + DeviceSummary list) \<times> 's \<times> span list" where
  "tracingStore_Manifest nxt t p =
     (case t of (s, spans) \<Rightarrow>
        (case bs_Manifest nxt s p of
           (r, s') \<Rightarrow>
             (r, s', spans @ [recordErr (err_of r)
                (start_span ''blobstore.Manifest'' (''devices'', count_of (\<lambda>ds. int (length ds)) r))])))"

definition tracingStore_DeleteGeneration ::
  "'s BlobStore \<Rightarrow> 's \<times> span list \<Rightarrow> string \<Rightarrow> string \<Rightarrow> int \<Rightarrow> (store_err + int) \<times> 's \<times> span list" where
  "tracingStore_DeleteGeneration nxt t p d g =
     (case t of (s, spans) \<Rightarrow>
        (case bs_DeleteGeneration nxt s p d g of
           (r, s') \<Rightarrow>
             (r, s', spans @ [recordErr (err_of r)
                (start_span ''blobstore.DeleteGeneration'' (''rows'', count_of id r))])))"

definition tracingStore_DeleteAccount ::
  "'s BlobStore \<Rightarrow> 's \<times> span list \<Rightarrow> string \<Rightarrow> (store_err + int) \<times> 's \<times> span list" where
  "tracingStore_DeleteAccount nxt t p =
     (case t of (s, spans) \<Rightarrow>
        (case bs_DeleteAccount nxt s p of
           (r, s') \<Rightarrow>
             (r, s', spans @ [recordErr (err_of r)
                (start_span ''blobstore.DeleteAccount'' (''rows'', count_of id r))])))"

definition tracingStore_Ping :: "'s BlobStore \<Rightarrow> 's \<times> span list \<Rightarrow> store_err option \<times> 's \<times> span list" where
  "tracingStore_Ping nxt t =
     (case t of (s, spans) \<Rightarrow> (case bs_Ping nxt s of (r, s') \<Rightarrow> (r, s', spans)))"

definition WithTracing :: "'s BlobStore \<Rightarrow> ('s \<times> span list) BlobStore" where
  "WithTracing nxt =
     \<lparr>bs_Append = tracingStore_Append nxt, bs_Get = tracingStore_Get nxt,
      bs_Index = tracingStore_Index nxt, bs_Manifest = tracingStore_Manifest nxt,
      bs_DeleteGeneration = tracingStore_DeleteGeneration nxt,
      bs_DeleteAccount = tracingStore_DeleteAccount nxt, bs_Ping = tracingStore_Ping nxt\<rparr>"

lemmas tracing_defs = WithTracing_def tracingStore_Append_def tracingStore_Get_def
  tracingStore_Index_def tracingStore_Manifest_def tracingStore_DeleteGeneration_def
  tracingStore_DeleteAccount_def tracingStore_Ping_def

section \<open>The wrapper keeps the contract\<close>

lemma views_tracing: "views fst (WithTracing ops) ops"
  by (auto simp: views_def tracing_defs split: prod.splits)

interpretation mem_tr: blob_store "WithTracing memory_ops" "\<lambda>t. mem_logs (fst t)"
  "\<lambda>t. mem_ok (fst t)" "\<lambda>t. ms_now (fst t)"
  by (rule mem.viewed [OF views_tracing])

interpretation pg_tr: blob_store "WithTracing postgres_ops" "\<lambda>t. pg_logs (fst t)"
  "\<lambda>t. pg_ok (fst t)" "\<lambda>t. db_now (fst t)"
  by (rule pg.viewed [OF views_tracing])

section \<open>What the wrapper adds\<close>

fun op_name :: "store_op \<Rightarrow> string" where
  "op_name (OpAppend k prev body) = ''blobstore.Append''"
| "op_name (OpGet k) = ''blobstore.Get''"
| "op_name (OpIndex p d g from limit) = ''blobstore.Index''"
| "op_name (OpManifest p) = ''blobstore.Manifest''"
| "op_name (OpDeleteGeneration p d g) = ''blobstore.DeleteGeneration''"
| "op_name (OpDeleteAccount p) = ''blobstore.DeleteAccount''"

fun reply_error :: "store_reply \<Rightarrow> store_err option" where
  "reply_error (RAppend r) = err_of r"
| "reply_error (RGet r) = err_of r"
| "reply_error (RIndex r) = err_of r"
| "reply_error (RManifest r) = err_of r"
| "reply_error (RDelete r) = err_of r"

text \<open>
  C39: Tracing is transparent: through the wrapper every request gets the store's own reply and
  leaves the store as it would be, and exactly one span is added, named after the operation
  and marked as failed exactly when the reply is an error, with that error's text.
\<close>

theorem tracing_transparent:
  "\<exists>sp. apply_op (WithTracing ops) (s, spans) op =
       (fst (apply_op ops s op), snd (apply_op ops s op), spans @ [sp]) \<and>
     sp_name sp = op_name op \<and>
     sp_error sp = map_option store_err_text (reply_error (fst (apply_op ops s op)))"
  by (cases op) (auto simp: tracing_defs recordErr_def start_span_def err_of_def split: prod.splits sum.splits)

end
