(* ===== verification/Service_Queries.thy ===== *)
theory Service_Queries
  imports Service_Requests
begin

text \<open>
  What the service answers to the requests without a body: the manifest, the index of a log,
  the deletion of a generation and the erasure of an account, each from the admitted request
  to the status, the payload and the logs afterwards.
\<close>

lemma no_content_answer:
  assumes "unsent w" "within w"
    and g: "g = WriteHeader 204 (Guard w l False False)"
  shows "sent_status (inner (if guard_owes g then WriteHeader 413 g else g)) = Some 204"
  using assms
  by (simp add: g guard_owes_def sent_status_def base_of_WriteHeader base_WriteHeader_def unsent_base Let_def)

context service
begin

text \<open>An admitted request is answered as its handler answers the authenticated request.\<close>

definition handled :: "('s, 'k, 'g) Deps \<Rightarrow> 'k request \<Rightarrow> Proof \<Rightarrow> 'k \<Rightarrow> (string \<times> string) list \<Rightarrow> 'k request" where
  "handled d r pf i params =
     authed (r\<lparr>rq_Body := CountingBody (rq_Body r) (MaxBlobBytes d) 0 False, rq_Params := params\<rparr>) pf i"

lemma handled_sel [simp]:
  "rq_Params (handled d r pf i params) = params" "rq_Identity (handled d r pf i params) = Some i"
  "positiveIntParam (handled d r pf i params) = positiveIntParam r"
  "optionalIntParam (handled d r pf i params) = optionalIntParam r"
  by (simp_all add: handled_def)

lemma handled_account [simp]: "pseudonym sdk w (handled d r pf i params) = (ToDERHex sdk i, w)"
  by (simp add: pseudonym_def GetIdentityKey_def)

lemma admitted_route:
  assumes d: "Wallet d = sdk" "Store d = ops" "Nonces d = nops"
    and req: "rq_ContentLength r \<le> MaxBlobBytes d" "rq_Method r \<noteq> ''OPTIONS''"
      "mux (map fst (routes d key)) (rq_Method r) (rq_EscapedPath r) = MuxHit pattern params"
    and h: "map_of (routes d key) (rq_Method r, pattern) = Some (AuthProof sdk nops h)"
    and adm: "admits sdk nops s r pf i s1"
    and run: "h s1 (handled d r pf i params) (Guard (cors_headers w) (MaxBlobBytes d) False False) = (s2, g)"
  shows "app mux d key s r w = (s2, inner (if guard_owes g then WriteHeader 413 g else g), pattern)"
proof -
  let ?rb = "r\<lparr>rq_Body := CountingBody (rq_Body r) (MaxBlobBytes d) 0 False, rq_Params := params\<rparr>"
  have "admits sdk nops s ?rb pf i s1" using adm by simp
  from AuthProof_admits [OF this] run show ?thesis
    by (simp add: up.auth_route [where mux = mux and key = key and s = s and w = w, OF d req h] handled_def)
qed

lemma admitted_json:
  assumes d: "Wallet d = sdk" "Store d = ops" "Nonces d = nops"
    and req: "rq_ContentLength r \<le> MaxBlobBytes d" "rq_Method r \<noteq> ''OPTIONS''"
      "mux (map fst (routes d key)) (rq_Method r) (rq_EscapedPath r) = MuxHit pattern params"
    and h: "map_of (routes d key) (rq_Method r, pattern) = Some (AuthProof sdk nops h)"
    and adm: "admits sdk nops s r pf i s1" and w: "unsent w" "within w"
    and run: "h s1 (handled d r pf i params) (Guard (cors_headers w) (MaxBlobBytes d) False False) =
      (s2, WriteJSON (Guard (cors_headers w) (MaxBlobBytes d) False False) status payload)"
  shows "\<exists>w'. app mux d key s r w = (s2, w', pattern) \<and> sent_status w' = Some status \<and>
     bw_Body (base_of w') = [PieceJson payload]"
proof -
  have w0: "unsent (cors_headers w)" "within (cors_headers w)" using w by simp_all
  show ?thesis
    using admitted_route [where mux = mux and key = key and w = w, OF d req h adm run] sent_maxBody [OF w0 refl] body_maxBody [OF w0 refl] by simp
qed

section \<open>Erasing an account\<close>

lemma erase_handled:
  assumes sdk: "sdk_ok sdk" and d: "Wallet d = sdk" "Store d = ops" "Nonces d = nops"
    and req: "rq_Method r = ''DELETE''" "rq_ContentLength r \<le> MaxBlobBytes d"
      "mux (map fst (routes d key)) ''DELETE'' (rq_EscapedPath r) = MuxHit ''/v1/account'' params"
    and adm: "admits sdk nops s r pf i s1" and w: "unsent w" "within w" and s: "ok s"
  shows "\<exists>s2 w'. app mux d key s r w = (s2, w', ''/v1/account'') \<and> sent_status w' = Some 200 \<and>
     bw_Body (base_of w') = [PieceJson (PObj [(''deleted'', PNum (account_rows (logs s) (ToDERHex sdk i)))])] \<and>
     ok s2 \<and> logs s2 = erase_account (logs s) (ToDERHex sdk i)"
proof -
  note s1 = admitted_state [OF adm s]
  obtain s2 where st: "bs_DeleteAccount ops s1 (ToDERHex sdk i) = (Inr (account_rows (logs s1) (ToDERHex sdk i)), s2)"
    "ok s2" "logs s2 = erase_account (logs s1) (ToDERHex sdk i)"
    using DeleteAccount_done [OF s1(1) ToDERHex_hex [OF sdk]] by blast
  have "\<exists>w'. app mux d key s r w = (s2, w', ''/v1/account'') \<and> sent_status w' = Some 200 \<and>
     bw_Body (base_of w') = [PieceJson (PObj [(''deleted'', PNum (account_rows (logs s1) (ToDERHex sdk i)))])]"
    using req d st(1) ToDERHex_nonempty [OF sdk, of i]
    by (intro admitted_json [where h = "DeleteAccount sdk ops" and params = params, OF d _ _ _ _ adm w])
      (simp_all add: routes_def Let_def DeleteAccount_def)
  with st(2,3) s1(2) show ?thesis by auto
qed

section \<open>Pruning a generation\<close>

lemma prune_handled:
  assumes sdk: "sdk_ok sdk" and d: "Wallet d = sdk" "Store d = ops" "Nonces d = nops"
    and req: "rq_Method r = ''DELETE''" "rq_ContentLength r \<le> MaxBlobBytes d"
      "mux (map fst (routes d key)) ''DELETE'' (rq_EscapedPath r) = MuxHit ''/v1/generation/{deviceId}/{generation}'' params"
    and adm: "admits sdk nops s r pf i s1"
    and dev: "deviceIDPattern (first_value params ''deviceId'')"
    and gen: "parsePathInt (first_value params ''generation'') = Some g"
    and w: "unsent w" "within w" and s: "ok s"
    and G: "G = device_gens (logs s) (ToDERHex sdk i) (first_value params ''deviceId'')"
  shows "\<exists>s2 w'. app mux d key s r w = (s2, w', ''/v1/generation/{deviceId}/{generation}'') \<and> ok s2 \<and>
     (if G \<noteq> {} \<and> g > Max G - RetainedGenerations
      then sent_status w' = Some 409 \<and> logs s2 = logs s \<and>
        bw_Body (base_of w') = [PieceJson (error_payload ''ERR_RETENTION_GUARD'' (store_err_text (ErrRetentionGuard g (Max G))))]
      else if g \<notin> G then sent_status w' = Some 404 \<and> logs s2 = logs s \<and>
        bw_Body (base_of w') = [PieceJson (error_payload ''ERR_GENERATION_NOT_FOUND'' ''No such generation.'')]
      else sent_status w' = Some 204 \<and>
        logs s2 = set_log (logs s) (ToDERHex sdk i) (first_value params ''deviceId'') g [])"
proof -
  let ?p = "ToDERHex sdk i" and ?d = "first_value params ''deviceId''"
  let ?pat = "''/v1/generation/{deviceId}/{generation}''" and ?g = "Guard (cors_headers w) (MaxBlobBytes d) False False"
  note s1 = admitted_state [OF adm s]
  have int4: "int4_ok g" using parsePathInt_range [OF gen] by (simp add: int4_ok_def)
  have w0: "unsent (cors_headers w)" "within (cors_headers w)" using w by simp_all
  have h: "map_of (routes d key) (rq_Method r, ?pat) = Some (AuthProof sdk nops (PruneGeneration sdk ops))"
    using req d by (simp add: routes_def Let_def)
  have hit: "mux (map fst (routes d key)) (rq_Method r) (rq_EscapedPath r) = MuxHit ?pat params" using req by simp
  have run: "PruneGeneration sdk ops s1 (handled d r pf i params) ?g =
     (case bs_DeleteGeneration ops s1 ?p ?d g of
        (Inl (ErrRetentionGuard g n), s') \<Rightarrow>
          (s', WriteError ?g 409 ''ERR_RETENTION_GUARD'' (store_err_text (ErrRetentionGuard g n)))
      | (Inl _, s') \<Rightarrow> (s', WriteError ?g 500 ''ERR_INTERNAL'' ''Could not prune the generation.'')
      | (Inr n, s') \<Rightarrow>
          if n = 0 then (s', WriteError ?g 404 ''ERR_GENERATION_NOT_FOUND'' ''No such generation.'')
          else (s', WriteHeader 204 ?g))"
    using dev gen ToDERHex_nonempty [OF sdk, of i]
    by (simp add: PruneGeneration_def deviceID_def URLParam_def)
  have opt: "rq_Method r \<noteq> ''OPTIONS''" using req by simp
  note route = admitted_route [where mux = mux and key = key and w = w, OF d req(2) opt hit h adm]
    and json = admitted_json [where mux = mux and key = key, OF d req(2) opt hit h adm w]
  show ?thesis
  proof (cases "G \<noteq> {} \<and> g > Max G - RetainedGenerations")
    case True
    then obtain s2 where "bs_DeleteGeneration ops s1 ?p ?d g = (Inl (ErrRetentionGuard g (Max G)), s2)" "ok s2" "logs s2 = logs s1"
      using DeleteGeneration_guard [OF s1(1) ToDERHex_hex [OF sdk, of i] device_name [OF dev] int4] s1(2) G by auto
    with run json [of s2 409 "error_payload ''ERR_RETENTION_GUARD'' (store_err_text (ErrRetentionGuard g (Max G)))"] True s1(2)
    show ?thesis by (auto simp: WriteError_payload)
  next
    case False
    then obtain s2 where st: "bs_DeleteGeneration ops s1 ?p ?d g = (Inr (int (length (logs s ?p ?d g))), s2)" "ok s2"
      "logs s2 = set_log (logs s) ?p ?d g []"
      using DeleteGeneration_done [OF s1(1) ToDERHex_hex [OF sdk, of i] device_name [OF dev] int4] s1(2) G False by (auto simp: not_less)
    show ?thesis
    proof (cases "g \<in> G")
      case True
      then have "logs s ?p ?d g \<noteq> []" by (simp add: G device_gens_def)
      with run st have "PruneGeneration sdk ops s1 (handled d r pf i params) ?g = (s2, WriteHeader 204 ?g)" by simp
      from route [OF this] no_content_answer [OF w0 refl] st(2,3) False True show ?thesis by auto
    next
      case none: False
      then have "logs s ?p ?d g = []" by (simp add: G device_gens_def)
      with st(3) have "logs s2 = logs s" by (simp add: set_log_def fun_eq_iff)
      with json [of s2 404 "error_payload ''ERR_GENERATION_NOT_FOUND'' ''No such generation.''"] st run False none \<open>logs s ?p ?d g = []\<close>
      show ?thesis by (auto simp: WriteError_payload)
    qed
  qed
qed

section \<open>Reading what there is\<close>

lemma manifest_handled:
  assumes sdk: "sdk_ok sdk" and d: "Wallet d = sdk" "Store d = ops" "Nonces d = nops"
    and req: "rq_Method r = ''GET''" "rq_ContentLength r \<le> MaxBlobBytes d"
      "mux (map fst (routes d key)) ''GET'' (rq_EscapedPath r) = MuxHit ''/v1/manifest'' params"
    and adm: "admits sdk nops s r pf i s1" and w: "unsent w" "within w" and s: "ok s"
  shows "\<exists>s2 w'. app mux d key s r w = (s2, w', ''/v1/manifest'') \<and> sent_status w' = Some 200 \<and>
     bw_Body (base_of w') = [PieceJson (PObj
       [(''devices'', PList (map payload_of_summary (manifest_of (logs s) (ToDERHex sdk i)))), (''status'', PText ''success'')])] \<and>
     ok s2 \<and> logs s2 = logs s"
proof -
  note s1 = admitted_state [OF adm s]
  obtain s2 where st: "bs_Manifest ops s1 (ToDERHex sdk i) = (Inr (manifest_of (logs s1) (ToDERHex sdk i)), s2)"
    "ok s2" "logs s2 = logs s1"
    using Manifest_all [OF s1(1) ToDERHex_hex [OF sdk]] by blast
  have "\<exists>w'. app mux d key s r w = (s2, w', ''/v1/manifest'') \<and> sent_status w' = Some 200 \<and>
     bw_Body (base_of w') = [PieceJson (PObj
       [(''devices'', PList (map payload_of_summary (manifest_of (logs s1) (ToDERHex sdk i)))), (''status'', PText ''success'')])]"
    using req d st(1) ToDERHex_nonempty [OF sdk, of i]
    by (intro admitted_json [where h = "Manifest sdk ops" and params = params, OF d _ _ _ _ adm w])
      (simp_all add: routes_def Let_def Manifest_def)
  with st(2,3) s1(2) show ?thesis by auto
qed

lemma index_handled:
  assumes sdk: "sdk_ok sdk" and d: "Wallet d = sdk" "Store d = ops" "Nonces d = nops"
    and req: "rq_Method r = ''GET''" "rq_ContentLength r \<le> MaxBlobBytes d"
      "mux (map fst (routes d key)) ''GET'' (rq_EscapedPath r) = MuxHit ''/v1/log/{deviceId}'' params"
    and adm: "admits sdk nops s r pf i s1"
    and dev: "deviceIDPattern (first_value params ''deviceId'')" and gen: "positiveIntParam r ''generation'' = Some g"
    and start: "int4_ok (optionalIntParam r ''from'' 1)"
    and w: "unsent w" "within w" and s: "ok s"
  shows "\<exists>s2 w'. app mux d key s r w = (s2, w', ''/v1/log/{deviceId}'') \<and> sent_status w' = Some 200 \<and>
     bw_Body (base_of w') = [PieceJson (PObj
       [(''entries'', PList (map payload_of_entry
          (index_page (logs s (ToDERHex sdk i) (first_value params ''deviceId'') g) (optionalIntParam r ''from'' 1) (Index_limit r)))),
        (''status'', PText ''success'')])] \<and>
     ok s2 \<and> logs s2 = logs s"
proof -
  let ?p = "ToDERHex sdk i" and ?d = "first_value params ''deviceId''" and ?f = "optionalIntParam r ''from'' 1"
  note s1 = admitted_state [OF adm s]
  have lim: "1 \<le> Index_limit r" "Index_limit r \<le> DefaultIndexLimit" "Index_limit (handled d r pf i params) = Index_limit r"
    by (auto simp: Index_limit_def DefaultIndexLimit_def Let_def)
  have int4: "int4_ok g" using positiveIntParam_range [OF gen] by (simp add: int4_ok_def)
  obtain s2 where st: "bs_Index ops s1 ?p ?d g ?f (Index_limit r) = (Inr (index_page (logs s1 ?p ?d g) ?f (Index_limit r)), s2)"
    "ok s2" "logs s2 = logs s1"
    using Index_page [OF s1(1) ToDERHex_hex [OF sdk] device_name [OF dev] int4 start lim(1)] by blast
  have "\<exists>w'. app mux d key s r w = (s2, w', ''/v1/log/{deviceId}'') \<and> sent_status w' = Some 200 \<and>
     bw_Body (base_of w') = [PieceJson (PObj
       [(''entries'', PList (map payload_of_entry (index_page (logs s1 ?p ?d g) ?f (Index_limit r)))), (''status'', PText ''success'')])]"
    using req d st(1) dev gen lim(3) ToDERHex_nonempty [OF sdk, of i]
    by (intro admitted_json [where h = "Index sdk ops" and params = params, OF d _ _ _ _ adm w])
      (simp_all add: routes_def Let_def Index_def deviceID_def URLParam_def)
  with st(2,3) s1(2) show ?thesis by auto
qed

text \<open>A store that cannot take the place it is to start from makes the index an internal error.\<close>

lemma index_failed:
  assumes sdk: "sdk_ok sdk" and d: "Wallet d = sdk" "Store d = ops" "Nonces d = nops"
    and req: "rq_Method r = ''GET''" "rq_ContentLength r \<le> MaxBlobBytes d"
      "mux (map fst (routes d key)) ''GET'' (rq_EscapedPath r) = MuxHit ''/v1/log/{deviceId}'' params"
    and adm: "admits sdk nops s r pf i s1"
    and dev: "deviceIDPattern (first_value params ''deviceId'')" and gen: "positiveIntParam r ''generation'' = Some g"
    and failing: "\<And>s p d g limit. fst (bs_Index ops s p d g (optionalIntParam r ''from'' 1) limit) \<in> range Inl"
    and w: "unsent w" "within w" and s: "ok s"
  shows "\<exists>s2 w'. app mux d key s r w = (s2, w', ''/v1/log/{deviceId}'') \<and> sent_status w' = Some 500 \<and>
     bw_Body (base_of w') = [PieceJson (error_payload ''ERR_INTERNAL'' ''Could not read the log index.'')] \<and>
     ok s2 \<and> logs s2 = logs s"
proof -
  let ?p = "ToDERHex sdk i" and ?d = "first_value params ''deviceId''" and ?f = "optionalIntParam r ''from'' 1"
  note s1 = admitted_state [OF adm s]
  have lim: "Index_limit (handled d r pf i params) = Index_limit r" by (simp add: Index_limit_def Let_def)
  obtain e s2 where st: "bs_Index ops s1 ?p ?d g ?f (Index_limit r) = (Inl e, s2)"
    using failing [of s1 ?p ?d g "Index_limit r"] by (cases "bs_Index ops s1 ?p ?d g ?f (Index_limit r)") auto
  have "\<exists>w'. app mux d key s r w = (s2, w', ''/v1/log/{deviceId}'') \<and> sent_status w' = Some 500 \<and>
     bw_Body (base_of w') = [PieceJson (error_payload ''ERR_INTERNAL'' ''Could not read the log index.'')]"
    using req d st dev gen lim ToDERHex_nonempty [OF sdk, of i]
    by (intro admitted_json [where h = "Index sdk ops" and params = params, OF d _ _ _ _ adm w])
      (simp_all add: routes_def Let_def Index_def deviceID_def URLParam_def WriteError_payload)
  with Index_any [OF s1(1) st] s1(2) show ?thesis by auto
qed

end

end
