(* ===== verification/Client_Calls.thy ===== *)
theory Client_Calls
  imports Client_Wire Service_Queries
begin

text \<open>
  The methods of the client against the server, over any stores that meet their contracts: what
  each of them returns and what it leaves stored.
  \<open>client_call\<close> is what they share: the request is signed, arrives as it was sent, is admitted,
  and the answer is read back.
\<close>

section \<open>Targets\<close>

lemma plain_parts:
  "deviceIDPattern dev \<Longrightarrow> x \<in> set dev \<Longrightarrow> plain x" "x \<in> set (format_int n) \<Longrightarrow> plain x"
  using device_plain format_int_plain by blast+

lemma plain_literals:
  "\<forall>x \<in> set ''/v1/log/''. plain x" "\<forall>x \<in> set ''/v1/generation/''. plain x" "\<forall>x \<in> set ''/v1/account''. plain x"
  "plain (CHR ''/'')"
  by (simp_all add: plain_def code_of_def)

lemma plain_code: "plain x \<Longrightarrow> code_of x < 128"
  by (simp add: plain_def)

lemma target_ok:
  assumes "prefix ''/'' path" "\<forall>x \<in> set path. plain x" "\<forall>x \<in> set query. code_of x < 128 \<and> x \<noteq> CHR '' ''"
  shows "CHR ''?'' \<notin> set path" "path \<noteq> ''''" "ascii (target path query)" "CHR '' '' \<notin> set (target path query)"
    "prefix ''/'' (target path query)"
proof -
  have plain: "plain x" if "x \<in> set path" for x using assms(2) that by blast
  have path: "code_of x < 128" "x \<noteq> CHR ''?''" "x \<noteq> CHR '' ''" if "x \<in> set path" for x
    using plain_code [OF plain [OF that]] plain_separators(4,5) [OF plain [OF that]] by - assumption+
  then show "CHR ''?'' \<notin> set path" by blast
  show "path \<noteq> ''''" "prefix ''/'' (target path query)" using assms(1) by (auto simp: target_def)
  have "code_of (CHR ''?'') < 128" by (simp add: code_of_def)
  with path(1) assms(3) show "ascii (target path query)" by (auto simp: target_def ascii_def)
  show "CHR '' '' \<notin> set (target path query)" using path(3) assms(3) by (auto simp: target_def)
qed

text \<open>A request with a body of given bytes, or without one.\<close>

definition payload_of :: "string \<Rightarrow> bytes \<Rightarrow> reader option \<times> string" where
  "payload_of meth data = (if meth = ''POST'' then (Some (BytesReader data), sha256_hex data) else (None, ''''))"

definition arrives :: "string \<Rightarrow> string \<Rightarrow> string \<Rightarrow> bytes \<Rightarrow> 'k request \<Rightarrow> bool" where
  "arrives meth path query data r \<longleftrightarrow> rq_Method r = meth \<and> rq_EscapedPath r = path \<and> rq_RawQuery r = query \<and>
     rq_ContentLength r = int (length data) \<and> ending (rq_Body r) = EOF \<and> content (rq_Body r) = data \<and> arriving r \<and>
     (meth = ''POST'' \<longrightarrow> first_value (rq_Header r) ''Content-Type'' = ContentTypeOctetStream)"

text \<open>
  A client \<open>c\<close> of the account \<open>ck\<close> that is about to call the server \<open>sk\<close>: its SDK fits the
  server's, it can sign, it has a nonce \<open>nb\<close> to use and more to come, and its clock is sane.
\<close>

definition ready_call ::
  "('k, 'g) wallet_api \<Rightarrow> ('k, 'g) wallet_api \<Rightarrow> 'k \<Rightarrow> 'k \<Rightarrow> ('s wire, 'k, 'g) Client \<Rightarrow> mux \<Rightarrow> ('s, 'k, 'g) Deps \<Rightarrow>
   ('s \<Rightarrow> time \<Rightarrow> 's) \<Rightarrow> nat list \<Rightarrow> (time \<Rightarrow> string) \<Rightarrow> 's wire \<Rightarrow> bytes \<Rightarrow> bytes list \<Rightarrow> bool" where
  "ready_call sw cw ck sk c mux d at frag fmt w nb ns \<longleftrightarrow>
     sdk_ok sw \<and> sdk_pair cw sw ck sk \<and> sdk_client cw \<and> Wallet d = sw \<and>
     connected c cw mux d (ToDERHex cw sk) at frag fmt \<and> ww_nonces w = nb # ns \<and> nb \<noteq> [] \<and>
     time_zero < ww_now w \<and> int64_ok (unix_milli (ww_now w + Window)) \<and> may_sign cw sk (ww_now w) nb"

lemma signed_request_arrives:
  fixes base frag now query p
  assumes "CHR ''?'' \<notin> set path" "path \<noteq> ''''" and data: "meth = ''POST'' \<and> data \<noteq> [] \<or> meth \<noteq> ''POST'' \<and> data = []" "length data < 2 ^ 51"
  defines "r \<equiv> request_on_wire base frag now
      (signed_request base meth (target path query) p (fst (payload_of meth data)) (int (length data)))"
  shows "arrives meth path query data r" "RequestURI r = target path query" "first_value (rq_Header r) Header = Encode p"
    "rq_Now r = now"
proof -
  note split = request_on_wire_split [OF assms(1,2)]
  have len: "outgoing_length (fst (payload_of meth data)) (int (length data)) = int (length data)"
    using data(1) by (cases data) (auto simp: outgoing_length_def payload_of_def)
  have r: "r = request_on_wire base frag now \<lparr>hr_Method = meth, hr_URL = base @ target path query,
      hr_Header = (Header, Encode p) # (if meth = ''POST'' then [(''Content-Type'', contentTypeOctetStream)] else []),
      hr_Body = fst (payload_of meth data), hr_Length = int (length data)\<rparr>"
    unfolding r_def signed_request_def len by (simp add: payload_of_def)
  show "arrives meth path query data r" "RequestURI r = target path query" "first_value (rq_Header r) Header = Encode p" "rq_Now r = now"
    using data unfolding r by (auto simp: arrives_def split first_value_def payload_of_def contentTypeOctetStream_def
        ContentTypeOctetStream_def Header_def)
qed

context service
begin

text \<open>What a call without a body leads to, apart from what the method makes of the answer.\<close>

definition answered ::
  "('s wire, 'k, 'g) Client \<Rightarrow> ('k, 'g) wallet_api \<Rightarrow> mux \<Rightarrow> ('s, 'k, 'g) Deps \<Rightarrow> string \<Rightarrow> nat list \<Rightarrow> (time \<Rightarrow> string) \<Rightarrow>
   's wire \<Rightarrow> bytes list \<Rightarrow> ('s wire, 'k, 'g) Client \<times> 's wire \<Rightarrow> bool" where
  "answered c cw mux d key frag fmt w ns cw' \<longleftrightarrow>
     connected (fst cw') cw mux d key at frag fmt \<and> ww_now (snd cw') = ww_now w \<and> ww_nonces (snd cw') = ns \<and>
     ok (fst (ww_state (snd cw')))"

text \<open>
  A client in front of a server that admits its request: whatever the server does with the
  request that arrives, the call gets its answer, unless that is the refusal of a proof.
\<close>

lemma client_call:
  fixes c :: "('s wire, 'k, 'g) Client"
  assumes ready: "ready_call sw cw ck sk c mux d at frag fmt w nb ns" and parts: "Store d = ops" "Nonces d = nops"
    and fresh: "\<And>s. s \<in> {fst (ww_state w), at (fst (ww_state w)) (ww_now w)} \<Longrightarrow> accepts_nonce nops (at s (ww_now w)) (ww_now w) nb"
    and s: "ok (fst (ww_state w))"
    and path: "prefix ''/'' path" "\<forall>x \<in> set path. plain x" "\<forall>x \<in> set query. code_of x < 128 \<and> x \<noteq> CHR '' ''"
    and meth: "meth \<in> {''GET'', ''POST'', ''DELETE''}" "meth = ''POST'' \<and> data \<noteq> [] \<or> meth \<noteq> ''POST'' \<and> data = []"
      "length data < 2 ^ 51"
    and server: "\<And>s (r :: 'k request) p s1 w0. ok s \<Longrightarrow> logs s = logs (fst (ww_state w)) \<Longrightarrow> arrives meth path query data r \<Longrightarrow>
      p_Action p = Action meth (target path query) (snd (payload_of meth data)) \<Longrightarrow> admits sw nops s r p ck s1 \<Longrightarrow>
      unsent w0 \<Longrightarrow> within w0 \<Longrightarrow>
      \<exists>s2 v. app mux d (ToDERHex cw sk) s r w0 = (s2, v, route) \<and> ok s2 \<and> P (logs s2) (base_of v)"
    and code: "\<And>L b. P L b \<Longrightarrow> \<exists>code. map_option fst (bw_Sent b) = Some code \<and> code \<noteq> 401"
  shows "\<exists>b c' w'. Client_do (wire_host parse) c meth (target path query) (snd (payload_of meth data)) (fst (payload_of meth data))
        (int (length data)) w = (outcome_of (response_on_wire fmt b), c', w') \<and>
      P (logs (fst (ww_state w'))) b \<and> answered c cw mux d (ToDERHex cw sk) frag fmt w ns (c', w')"
proof -
  have sdk: "sdk_pair cw sw ck sk" "sdk_client cw" and c: "connected c cw mux d (ToDERHex cw sk) at frag fmt"
    and w: "ww_nonces w = nb # ns" "nb \<noteq> []" "time_zero < ww_now w" "int64_ok (unix_milli (ww_now w + Window))"
    and sign: "may_sign cw sk (ww_now w) nb" using ready by (simp_all add: ready_call_def)
  note uri = target_ok [OF path]
  obtain p where p: "Sign cw (ToDERHex cw sk) (Action meth (target path query) (snd (payload_of meth data))) (ww_now w) (Some nb) = Inr p"
    using sign unfolding may_sign_def by blast
  have "\<exists>s2 tel b c'. Client_do (wire_host parse) c meth (target path query) (snd (payload_of meth data)) (fst (payload_of meth data))
        (int (length data)) w = (outcome_of (response_on_wire fmt b), c', w\<lparr>ww_nonces := ns, ww_state := (s2, tel)\<rparr>) \<and>
      (ok s2 \<and> P (logs s2) b) \<and> connected c' cw mux d (ToDERHex cw sk) at frag fmt"
  proof (rule Client_do_served [OF c w(1) p])
    fix s w0
    assume s': "s \<in> {fst (ww_state w), at (fst (ww_state w)) (ww_now w)}" and w0: "unsent w0" "within w0"
    let ?r = "request_on_wire (c_baseURL c) frag (ww_now w)
        (signed_request (c_baseURL c) meth (target path query) p (fst (payload_of meth data)) (int (length data))) :: 'k request"
    have arr: "arrives meth path query data ?r" "RequestURI ?r = target path query" "first_value (rq_Header ?r) Header = Encode p"
      "rq_Now ?r = ww_now w"
      by (rule signed_request_arrives [OF uri(1,2) meth(2,3)])+
    have s1: "ok (at s (ww_now w))" "logs (at s (ww_now w)) = logs (fst (ww_state w))"
      using s' s(1) w(3) at_ok at_logs by auto
    have m: "rq_Method ?r = meth" using arr(1) by (simp add: arrives_def)
    have "\<exists>s1. admits sw nops (at s (ww_now w)) ?r p ck s1"
      by (rule signed_arrives [OF sdk, where digest = "snd (payload_of meth data)" and now = "ww_now w" and nb = nb and data = data])
        (use p uri(3-5) meth(1) fresh [OF s'] w(2,4) arr(2-4) m in \<open>simp_all add: payload_of_def\<close>)
    then obtain s3 where adm: "admits sw nops (at s (ww_now w)) ?r p ck s3" ..
    from server [OF s1 arr(1) _ adm w0] Sign_nonce [OF p]
    show "\<exists>s2 v. app mux d (ToDERHex cw sk) (at s (ww_now w)) ?r w0 = (s2, v, route) \<and> ok s2 \<and> P (logs s2) (base_of v)" by blast
  qed (use code in blast)
  then show ?thesis unfolding answered_def by fastforce
qed

end

section \<open>Targets of the methods\<close>

lemma append_target: "deviceIDPattern dev \<Longrightarrow> append_uri dev g n prev = target (''/v1/log/'' @ dev) (append_query n g prev)"
  by (simp add: append_uri_split target_def append_query_def)

lemma blob_target:
  "deviceIDPattern dev \<Longrightarrow> blob_uri dev g n = target (''/v1/log/'' @ dev @ ''/'' @ format_int n) (''generation='' @ format_int g)"
  by (simp add: blob_uri_def PathEscape_hex deviceIDPattern_def target_def)

lemma index_target: "deviceIDPattern dev \<Longrightarrow> index_uri dev g from limit = target (''/v1/log/'' @ dev) (index_query g from limit)"
  by (simp add: index_uri_def index_query_def PathEscape_hex deviceIDPattern_def target_def)

lemma prune_target:
  "deviceIDPattern dev \<Longrightarrow> ''/v1/generation/'' @ PathEscape dev @ ''/'' @ format_int g =
     target (''/v1/generation/'' @ dev @ ''/'' @ format_int g) ''''"
  by (simp add: PathEscape_hex deviceIDPattern_def target_def)

lemma path_plain:
  "deviceIDPattern dev \<Longrightarrow> \<forall>x \<in> set (''/v1/log/'' @ dev). plain x"
  "deviceIDPattern dev \<Longrightarrow> \<forall>x \<in> set (''/v1/log/'' @ dev @ ''/'' @ format_int n). plain x"
  "deviceIDPattern dev \<Longrightarrow> \<forall>x \<in> set (''/v1/generation/'' @ dev @ ''/'' @ format_int n). plain x"
  using plain_parts plain_literals(1,2,4) unfolding set_append by (blast, auto)

lemma query_ascii:
  "\<forall>x \<in> set (append_query n g prev). code_of x < 128 \<and> x \<noteq> CHR '' ''"
  "\<forall>x \<in> set (index_query g from limit). code_of x < 128 \<and> x \<noteq> CHR '' ''"
  "\<forall>x \<in> set (''generation='' @ format_int g). code_of x < 128 \<and> x \<noteq> CHR '' ''"
  using query_text_ascii [OF append_query_text(2)] query_text_ascii [OF index_query_text(2)]
    query_text_ascii [of "[(''generation'', format_int g)]"] param_names(2)
  by (simp_all add: append_query_text(1) index_query_text(1))

lemma device_id: "deviceIDPattern dev \<Longrightarrow> dev \<noteq> '''' \<and> list_all is_lower_hex dev"
  by (auto simp: deviceIDPattern_def)

section \<open>Uploads and downloads\<close>

context service
begin

text \<open>What the server does with the upload and the download of a client once they have arrived.\<close>

lemma upload_served:
  fixes c :: "('s wire, 'k, 'g) Client" and r :: "'k request"
  assumes sdk: "sdk_ok sw" and d: "Wallet d = sw" "Store d = ops" "Nonces d = nops"
    and c: "connected c cw mux d key at frag fmt" and s1: "ok s"
    and arr: "arrives ''POST'' (''/v1/log/'' @ dev) (append_query n g prev) data r"
    and p: "p_Action p = Action ''POST'' uri (snd (payload_of ''POST'' data))"
    and adm: "admits sw nops s r p ck s3" and w0: "unsent w0" "within w0"
    and args: "deviceIDPattern dev" "1 \<le> n" "n \<le> 2 ^ 30" "1 \<le> g" "g \<le> 2 ^ 30" "name_ok prev"
      "n = int (length (logs s (ToDERHex sw ck) dev g)) + 1" "data \<noteq> []" "int (length data) \<le> MaxBlobBytes d"
  shows "\<exists>s2 v t. app mux d key s r w0 = (s2, v, ''/v1/log/{deviceId}'') \<and> ok s2 \<and>
     map_option fst (bw_Sent (base_of v)) = Some 201 \<and>
     bw_Body (base_of v) = [PieceJson (stored_payload n (sha256_hex data) (int (length data)))] \<and>
     logs s2 = logs_append (logs s) \<lparr>key_Pseudonym = ToDERHex sw ck, key_DeviceID = dev, key_Generation = g, key_Seq = n\<rparr>
       \<lparr>s_data = data, s_prev = prev, s_created = t\<rparr>"
proof -
  note r = arr [unfolded arrives_def]
  have dig: "sha256_hex data = BodySha256 (p_Action p)"
    using p BodySha256_Action [OF digest_no_space sha256_hex_nonempty] by (simp add: payload_of_def)
  have hit: "mux (map fst (routes d key)) ''POST'' (rq_EscapedPath r) = MuxHit ''/v1/log/{deviceId}'' [(''deviceId'', dev)]"
    using c device_id [OF args(1)] r by (simp add: connected_def routed_def)
  have fv: "first_value [(''deviceId'', dev)] ''deviceId'' = dev" by (simp add: first_value_def)
  have rs: "rq_Method r = ''POST''" "first_value (rq_Header r) ''Content-Type'' = ContentTypeOctetStream"
    "rq_RawQuery r = append_query n g prev" "arriving r" using r by simp_all
  note params = append_params [OF rs(3) args(2-5)]
  from upload_accepted [where mux = mux and key = key and r = r and params = "[(''deviceId'', dev)]" and w = w0,
      OF sdk(1) d rs(1) _ hit adm rs(2) _ params(1,2) _ w0 s1 rs(4)]
  show ?thesis using r args(1,6-9) fv params(3) dig by (auto simp: sent_status_def)
qed

lemma download_served:
  fixes c :: "('s wire, 'k, 'g) Client" and r :: "'k request"
  assumes sdk: "sdk_ok sw" and d: "Wallet d = sw" "Store d = ops" "Nonces d = nops"
    and c: "connected c cw mux d key at frag fmt" and s1: "ok s"
    and arr: "arrives ''GET'' (''/v1/log/'' @ dev @ ''/'' @ format_int n) (''generation='' @ format_int g) [] r"
    and adm: "admits sw nops s r p ck s3" and w0: "unsent w0" "within w0"
    and args: "deviceIDPattern dev" "1 \<le> n" "n \<le> 2 ^ 30" "1 \<le> g" "g \<le> 2 ^ 30"
      "n \<le> int (length (logs s (ToDERHex sw ck) dev g))"
  shows "\<exists>s2 v hdr. app mux d key s r w0 = (s2, v, ''/v1/log/{deviceId}/{seq}'') \<and> ok s2 \<and> logs s2 = logs s \<and>
     bw_Sent (base_of v) = Some (200, hdr) \<and>
     map_of hdr ''Content-Length'' = Some (format_int (int (length (s_data (logs s (ToDERHex sw ck) dev g ! nat (n - 1)))))) \<and>
     bw_Body (base_of v) = [PieceBytes (s_data (logs s (ToDERHex sw ck) dev g ! nat (n - 1)))]"
proof -
  note r = arr [unfolded arrives_def]
  let ?ps = "[(''deviceId'', dev), (''seq'', format_int n)]"
  have rs: "rq_Method r = ''GET''" "rq_RawQuery r = ''generation='' @ format_int g" using r by simp_all
  have hit: "mux (map fst (routes d key)) ''GET'' (rq_EscapedPath r) = MuxHit ''/v1/log/{deviceId}/{seq}'' ?ps"
    using c device_id [OF args(1)] r by (simp add: connected_def routed_def)
  have fv: "first_value ?ps ''deviceId'' = dev" "first_value ?ps ''seq'' = format_int n" by (simp_all add: first_value_def)
  have len: "rq_ContentLength r \<le> MaxBlobBytes d" using c r by (simp add: connected_def)
  from download_handled [where mux = mux and key = key and r = r and w = w0 and params = ?ps,
      OF sdk(1) d rs(1) len hit adm, unfolded fv, OF args(1) parsePathInt_format [OF args(2,3)]
      generation_param [OF rs(2) args(4,5)] w0 s1 refl] args(6)
  show ?thesis by (auto simp: Let_def update_conv')
qed

text \<open>
  A client in front of a server that can take its blob: the call returns what the server
  stored, and the server's log has one more entry.
\<close>

lemma client_upload:
  fixes c :: "('s wire, 'k, 'g) Client"
  assumes ready: "ready_call sw cw ck sk c mux d at frag fmt w nb ns" and parts: "Store d = ops" "Nonces d = nops"
    and fresh: "\<And>s. s \<in> {fst (ww_state w), at (fst (ww_state w)) (ww_now w)} \<Longrightarrow> accepts_nonce nops (at s (ww_now w)) (ww_now w) nb"
    and s: "ok (fst (ww_state w))" "L = logs (fst (ww_state w)) (ToDERHex sw ck) dev g"
    and args: "deviceIDPattern dev" "1 \<le> n" "n \<le> 2 ^ 30" "1 \<le> g" "g \<le> 2 ^ 30" "name_ok prev"
      "n = int (length L) + 1" "data \<noteq> []" "int (length data) \<le> MaxBlobBytes d" "length data < 2 ^ 51"
  shows "\<exists>c' w' t. AppendBytes (wire_host parse) c dev g n prev data w =
       (Inr \<lparr>ar_Seq = n, ar_Sha256 = sha256_hex data, ar_Size = int (length data)\<rparr>, c', w') \<and>
     answered c cw mux d (ToDERHex cw sk) frag fmt w ns (c', w') \<and>
     logs (fst (ww_state w')) = logs_append (logs (fst (ww_state w)))
       \<lparr>key_Pseudonym = ToDERHex sw ck, key_DeviceID = dev, key_Generation = g, key_Seq = n\<rparr>
       \<lparr>s_data = data, s_prev = prev, s_created = t\<rparr>"
proof -
  let ?k = "\<lparr>key_Pseudonym = ToDERHex sw ck, key_DeviceID = dev, key_Generation = g, key_Seq = n\<rparr>"
  let ?path = "''/v1/log/'' @ dev" and ?q = "append_query n g prev"
  have sw: "sdk_ok sw" "Wallet d = sw" and c: "connected c cw mux d (ToDERHex cw sk) at frag fmt" using ready by (simp_all add: ready_call_def)
  define P where "P L2 b \<longleftrightarrow> map_option fst (bw_Sent b) = Some 201 \<and>
      bw_Body b = [PieceJson (stored_payload n (sha256_hex data) (int (length data)))] \<and>
      (\<exists>t. L2 = logs_append (logs (fst (ww_state w))) ?k \<lparr>s_data = data, s_prev = prev, s_created = t\<rparr>)" for L2 and b :: base_writer
  have "\<exists>b c' w'. Client_do (wire_host parse) c ''POST'' (target ?path ?q) (snd (payload_of ''POST'' data))
        (fst (payload_of ''POST'' data)) (int (length data)) w = (outcome_of (response_on_wire fmt b), c', w') \<and>
      P (logs (fst (ww_state w'))) b \<and> answered c cw mux d (ToDERHex cw sk) frag fmt w ns (c', w')"
  proof (rule client_call [OF ready parts fresh s(1) _ path_plain(1) [OF args(1)] query_ascii(1) _ _ args(10)])
    fix s p s3 w0 and r :: "'k request"
    assume s1: "ok s" "logs s = logs (fst (ww_state w))" and arr: "arrives ''POST'' ?path ?q data r"
      and p: "p_Action p = Action ''POST'' (target ?path ?q) (snd (payload_of ''POST'' data))"
      and adm: "admits sw nops s r p ck s3" and w0: "unsent w0" "within w0"
    show "\<exists>s2 v. app mux d (ToDERHex cw sk) s r w0 = (s2, v, ''/v1/log/{deviceId}'') \<and> ok s2 \<and> P (logs s2) (base_of v)"
      using upload_served [OF sw parts c s1(1) arr p adm w0 args(1-6) _ args(8-9)] s(2) s1(2) args(7) by (fastforce simp: P_def)
  qed (use args(8) in \<open>auto simp: P_def\<close>)
  then obtain b c' w' where
    call: "Client_do (wire_host parse) c ''POST'' (append_uri dev g n prev) (sha256_hex data) (Some (BytesReader data)) (int (length data)) w =
      (outcome_of (response_on_wire fmt b), c', w')"
    and P: "P (logs (fst (ww_state w'))) b" and c': "answered c cw mux d (ToDERHex cw sk) frag fmt w ns (c', w')"
    using append_target [OF args(1)] by (auto simp: payload_of_def)
  have "decode_body append_flds zero_result (response_on_wire fmt b) =
      Some \<lparr>ar_Seq = n, ar_Sha256 = sha256_hex data, ar_Size = int (length data)\<rparr>"
    using P args(2,3,10) digest_ascii [of data] by (subst with_body [of b]) (auto simp: P_def decode_stored int64_ok_def)
  then show ?thesis
    using call P c' outcome_success [of b 201] by (auto simp: AppendBytes_def Client_Append_def P_def)
qed

lemma client_download:
  fixes c :: "('s wire, 'k, 'g) Client"
  assumes ready: "ready_call sw cw ck sk c mux d at frag fmt w nb ns" and parts: "Store d = ops" "Nonces d = nops"
    and fresh: "\<And>s. s \<in> {fst (ww_state w), at (fst (ww_state w)) (ww_now w)} \<Longrightarrow> accepts_nonce nops (at s (ww_now w)) (ww_now w) nb"
    and s: "ok (fst (ww_state w))" "L = logs (fst (ww_state w)) (ToDERHex sw ck) dev g"
    and args: "deviceIDPattern dev" "1 \<le> n" "n \<le> 2 ^ 30" "1 \<le> g" "g \<le> 2 ^ 30" "n \<le> int (length L)"
      "length (s_data (L ! nat (n - 1))) < 2 ^ 63"
  shows "\<exists>c' w'. Client_Blob (wire_host parse) c dev g n w =
       (Inr ((s_data (L ! nat (n - 1)), EOF), int (length (s_data (L ! nat (n - 1))))), c', w') \<and>
     answered c cw mux d (ToDERHex cw sk) frag fmt w ns (c', w') \<and> logs (fst (ww_state w')) = logs (fst (ww_state w))"
proof -
  let ?data = "s_data (L ! nat (n - 1))"
  let ?path = "''/v1/log/'' @ dev @ ''/'' @ format_int n" and ?q = "''generation='' @ format_int g"
  have sw: "sdk_ok sw" "Wallet d = sw" and c: "connected c cw mux d (ToDERHex cw sk) at frag fmt" using ready by (simp_all add: ready_call_def)
  define P where "P L2 b \<longleftrightarrow> L2 = logs (fst (ww_state w)) \<and> bw_Body b = [PieceBytes ?data] \<and>
      (\<exists>hdr. bw_Sent b = Some (200, hdr) \<and> map_of hdr ''Content-Length'' = Some (format_int (int (length ?data))))"
    for L2 and b :: base_writer
  have "\<exists>b c' w'. Client_do (wire_host parse) c ''GET'' (target ?path ?q) (snd (payload_of ''GET'' []))
        (fst (payload_of ''GET'' [])) (int (length ([] :: bytes))) w = (outcome_of (response_on_wire fmt b), c', w') \<and>
      P (logs (fst (ww_state w'))) b \<and> answered c cw mux d (ToDERHex cw sk) frag fmt w ns (c', w')"
  proof (rule client_call [OF ready parts fresh s(1) _ path_plain(2) [OF args(1)] query_ascii(3)])
    fix s p s3 w0 and r :: "'k request"
    assume s1: "ok s" "logs s = logs (fst (ww_state w))" and arr: "arrives ''GET'' ?path ?q [] r"
      and adm: "admits sw nops s r p ck s3" and w0: "unsent w0" "within w0"
    show "\<exists>s2 v. app mux d (ToDERHex cw sk) s r w0 = (s2, v, ''/v1/log/{deviceId}/{seq}'') \<and> ok s2 \<and> P (logs s2) (base_of v)"
      using download_served [OF sw parts c s1(1) arr adm w0 args(1-5)] s(2) s1(2) args(6) by (auto simp: P_def)
  qed (auto simp: P_def)
  then obtain b c' w' where
    call: "Client_do (wire_host parse) c ''GET'' (blob_uri dev g n) '''' None 0 w = (outcome_of (response_on_wire fmt b), c', w')"
    and P: "P (logs (fst (ww_state w'))) b" and c': "answered c cw mux d (ToDERHex cw sk) frag fmt w ns (c', w')"
    using blob_target [OF args(1)] by (auto simp: payload_of_def)
  have "rs_Body (response_on_wire fmt b) = ?data" "rs_End (response_on_wire fmt b) = EOF"
    "rs_Length (response_on_wire fmt b) = int (length ?data)"
    using P args(7) atoi_format_int [of "int (length ?data)"]
    by (auto simp: P_def response_on_wire_def int64_ok_def)
  then show ?thesis using call P c' outcome_success [of b 200] by (auto simp: Client_Blob_def P_def)
qed

end

end
