(* ===== verification/Client_Queries.thy ===== *)
theory Client_Queries
  imports Client_Calls
begin

text \<open>
  The methods of the client that ask for what there is and that delete: \<open>Index\<close>, \<open>Manifest\<close>,
  \<open>PruneGeneration\<close> with its two refusals, and \<open>DeleteAccount\<close>, against the server over any
  stores that meet their contracts.
\<close>

section \<open>The texts of the refusals\<close>

lemma format_nat_length: "0 < k \<Longrightarrow> n < 10 ^ k \<Longrightarrow> length (format_nat n) \<le> k"
proof (induction n arbitrary: k rule: format_nat.induct)
  case (1 n)
  show ?case
  proof (cases "n < 10")
    case False
    with 1(3) have k: "1 < k" by (cases "k = 1") (use 1(2) in auto)
    then have "n div 10 < 10 ^ (k - 1)" using 1(3) by (cases k) (auto simp: less_mult_imp_div_less mult.commute)
    with 1(1) [OF False, of "k - 1"] k False show ?thesis by (simp add: format_nat.simps [of n])
  qed (use 1(2) in \<open>simp add: format_nat.simps [of n]\<close>)
qed

lemma format_int_small:
  assumes "1 \<le> n" "n \<le> 2 ^ 30"
  shows "length (format_int n) \<le> 10" "ascii (format_int n)"
proof -
  have "nat n < 10 ^ 10" using assms(2) by simp
  then show "length (format_int n) \<le> 10" using assms(1) format_nat_length [of 10 "nat n"] by (simp add: format_int_def)
  show "ascii (format_int n)" using format_int_plain plain_code by (auto simp: ascii_def)
qed

lemma guard_text_small:
  assumes "1 \<le> g" "g \<le> 2 ^ 30" "1 \<le> n" "n \<le> 2 ^ 30"
  shows "length (store_err_text (ErrRetentionGuard g n)) \<le> 1000" "ascii (store_err_text (ErrRetentionGuard g n))"
  using format_int_small [OF assms(1,2)] format_int_small [OF assms(3,4)] by (auto simp: ascii_def code_of_def)

lemma manifest_plain: "\<forall>x \<in> set ''/v1/manifest''. plain x"
  by (simp add: plain_def code_of_def)

context service
begin

section \<open>Erasing the account\<close>

lemma client_erase:
  fixes c :: "('s wire, 'k, 'g) Client"
  assumes ready: "ready_call sw cw ck sk c mux d at frag fmt w nb ns" and parts: "Store d = ops" "Nonces d = nops"
    and fresh: "\<And>s. s \<in> {fst (ww_state w), at (fst (ww_state w)) (ww_now w)} \<Longrightarrow> accepts_nonce nops (at s (ww_now w)) (ww_now w) nb"
    and s: "ok (fst (ww_state w))" "n = account_rows (logs (fst (ww_state w))) (ToDERHex sw ck)" "int64_ok n"
  shows "\<exists>c' w'. Client_DeleteAccount (wire_host parse) c w = (Inr n, c', w') \<and>
     answered c cw mux d (ToDERHex cw sk) frag fmt w ns (c', w') \<and>
     logs (fst (ww_state w')) = erase_account (logs (fst (ww_state w))) (ToDERHex sw ck)"
proof -
  let ?path = "''/v1/account''"
  have sw: "sdk_ok sw" "Wallet d = sw" and c: "connected c cw mux d (ToDERHex cw sk) at frag fmt" using ready by (simp_all add: ready_call_def)
  define P where "P L2 b \<longleftrightarrow> map_option fst (bw_Sent b) = Some 200 \<and> bw_Body b = [PieceJson (PObj [(''deleted'', PNum n)])] \<and>
      L2 = erase_account (logs (fst (ww_state w))) (ToDERHex sw ck)" for L2 and b :: base_writer
  have "\<exists>b c' w'. Client_do (wire_host parse) c ''DELETE'' (target ?path '''') (snd (payload_of ''DELETE'' []))
        (fst (payload_of ''DELETE'' [])) (int (length ([] :: bytes))) w = (outcome_of (response_on_wire fmt b), c', w') \<and>
      P (logs (fst (ww_state w'))) b \<and> answered c cw mux d (ToDERHex cw sk) frag fmt w ns (c', w')"
  proof (rule client_call [OF ready parts fresh s(1) _ plain_literals(3)])
    fix s p s3 w0 and r :: "'k request"
    assume s1: "ok s" "logs s = logs (fst (ww_state w))" and arr: "arrives ''DELETE'' ?path '''' [] r"
      and adm: "admits sw nops s r p ck s3" and w0: "unsent w0" "within w0"
    note r = arr [unfolded arrives_def]
    have hit: "rq_ContentLength r \<le> MaxBlobBytes d" "mux (map fst (routes d (ToDERHex cw sk))) ''DELETE'' (rq_EscapedPath r) = MuxHit ?path []"
      using c r by (simp_all add: connected_def routed_def)
    show "\<exists>s2 v. app mux d (ToDERHex cw sk) s r w0 = (s2, v, ?path) \<and> ok s2 \<and> P (logs s2) (base_of v)"
      using erase_handled [where mux = mux and key = "ToDERHex cw sk" and r = r, OF sw parts _ hit adm w0 s1(1)] r s1(2) s(2) by (auto simp: P_def sent_status_def)
  qed (auto simp: P_def)
  then obtain b c' w' where
    call: "Client_do (wire_host parse) c ''DELETE'' ?path '''' None 0 w = (outcome_of (response_on_wire fmt b), c', w')"
    and P: "P (logs (fst (ww_state w'))) b" and c': "answered c cw mux d (ToDERHex cw sk) frag fmt w ns (c', w')"
    by (auto simp: payload_of_def target_def)
  have "decode_body [(''DELETED'', int_field (\<lambda>n _. n))] 0 (response_on_wire fmt b) = Some n"
    using P s(3) by (subst with_body [of b]) (auto simp: P_def decode_deleted)
  then show ?thesis using call P c' outcome_success [of b 200] by (auto simp: Client_DeleteAccount_def P_def)
qed

section \<open>Pruning a generation\<close>

lemma prune_served:
  fixes c :: "('s wire, 'k, 'g) Client" and r :: "'k request"
  assumes sdk: "sdk_ok sw" and d: "Wallet d = sw" "Store d = ops" "Nonces d = nops"
    and c: "connected c cw mux d key at frag fmt" and s1: "ok s"
    and arr: "arrives ''DELETE'' (''/v1/generation/'' @ dev @ ''/'' @ format_int g) query [] r"
    and adm: "admits sw nops s r p ck s3" and w0: "unsent w0" "within w0"
    and args: "deviceIDPattern dev" "1 \<le> g" "g \<le> 2 ^ 30" "G = device_gens (logs s) (ToDERHex sw ck) dev"
  shows "\<exists>s2 v. app mux d key s r w0 = (s2, v, ''/v1/generation/{deviceId}/{generation}'') \<and> ok s2 \<and>
     (if G \<noteq> {} \<and> g > Max G - RetainedGenerations
      then sent_status v = Some 409 \<and> logs s2 = logs s \<and>
        bw_Body (base_of v) = [PieceJson (error_payload ''ERR_RETENTION_GUARD'' (store_err_text (ErrRetentionGuard g (Max G))))]
      else if g \<notin> G then sent_status v = Some 404 \<and> logs s2 = logs s \<and>
        bw_Body (base_of v) = [PieceJson (error_payload ''ERR_GENERATION_NOT_FOUND'' ''No such generation.'')]
      else sent_status v = Some 204 \<and> logs s2 = set_log (logs s) (ToDERHex sw ck) dev g [])"
proof -
  note r = arr [unfolded arrives_def]
  let ?ps = "[(''deviceId'', dev), (''generation'', format_int g)]"
  have hit: "rq_ContentLength r \<le> MaxBlobBytes d"
    "mux (map fst (routes d key)) ''DELETE'' (rq_EscapedPath r) = MuxHit ''/v1/generation/{deviceId}/{generation}'' ?ps"
    using c r device_id [OF args(1)] by (simp_all add: connected_def routed_def)
  have fv: "first_value ?ps ''deviceId'' = dev" "first_value ?ps ''generation'' = format_int g" by (simp_all add: first_value_def)
  from prune_handled [where G = G and mux = mux and key = key and r = r, OF sdk d _ hit adm, unfolded fv, OF _ args(1) parsePathInt_format [OF args(2,3)] w0 s1 args(4)] r
  show ?thesis by simp
qed

lemma client_prune:
  fixes c :: "('s wire, 'k, 'g) Client"
  assumes ready: "ready_call sw cw ck sk c mux d at frag fmt w nb ns" and parts: "Store d = ops" "Nonces d = nops"
    and fresh: "\<And>s. s \<in> {fst (ww_state w), at (fst (ww_state w)) (ww_now w)} \<Longrightarrow> accepts_nonce nops (at s (ww_now w)) (ww_now w) nb"
    and s: "ok (fst (ww_state w))" "G = device_gens (logs (fst (ww_state w))) (ToDERHex sw ck) dev"
    and args: "deviceIDPattern dev" "1 \<le> g" "g \<le> 2 ^ 30" "\<forall>x \<in> G. x \<le> 2 ^ 30"
  shows "\<exists>res c' w'. Client_PruneGeneration (wire_host parse) c dev g w = (res, c', w') \<and>
     answered c cw mux d (ToDERHex cw sk) frag fmt w ns (c', w') \<and>
     (if G \<noteq> {} \<and> g > Max G - RetainedGenerations
      then res = Some (APIError 409 ''ERR_RETENTION_GUARD'' (store_err_text (ErrRetentionGuard g (Max G)))) \<and>
        logs (fst (ww_state w')) = logs (fst (ww_state w))
      else if g \<notin> G
      then res = Some (APIError 404 ''ERR_GENERATION_NOT_FOUND'' ''No such generation.'') \<and>
        logs (fst (ww_state w')) = logs (fst (ww_state w))
      else res = None \<and> logs (fst (ww_state w')) = set_log (logs (fst (ww_state w))) (ToDERHex sw ck) dev g [])"
proof -
  let ?path = "''/v1/generation/'' @ dev @ ''/'' @ format_int g" and ?L = "logs (fst (ww_state w))"
  have sw: "sdk_ok sw" "Wallet d = sw" and c: "connected c cw mux d (ToDERHex cw sk) at frag fmt" using ready by (simp_all add: ready_call_def)
  define P where "P L2 b \<longleftrightarrow> (if G \<noteq> {} \<and> g > Max G - RetainedGenerations
      then map_option fst (bw_Sent b) = Some 409 \<and> L2 = ?L \<and>
        bw_Body b = [PieceJson (error_payload ''ERR_RETENTION_GUARD'' (store_err_text (ErrRetentionGuard g (Max G))))]
      else if g \<notin> G then map_option fst (bw_Sent b) = Some 404 \<and> L2 = ?L \<and>
        bw_Body b = [PieceJson (error_payload ''ERR_GENERATION_NOT_FOUND'' ''No such generation.'')]
      else map_option fst (bw_Sent b) = Some 204 \<and> L2 = set_log ?L (ToDERHex sw ck) dev g [])" for L2 and b :: base_writer
  have "\<exists>b c' w'. Client_do (wire_host parse) c ''DELETE'' (target ?path '''') (snd (payload_of ''DELETE'' []))
        (fst (payload_of ''DELETE'' [])) (int (length ([] :: bytes))) w = (outcome_of (response_on_wire fmt b), c', w') \<and>
      P (logs (fst (ww_state w'))) b \<and> answered c cw mux d (ToDERHex cw sk) frag fmt w ns (c', w')"
  proof (rule client_call [OF ready parts fresh s(1) _ path_plain(3) [OF args(1)]])
    fix s p s3 w0 and r :: "'k request"
    assume s1: "ok s" "logs s = ?L" and arr: "arrives ''DELETE'' ?path '''' [] r"
      and adm: "admits sw nops s r p ck s3" and w0: "unsent w0" "within w0"
    have G: "G = device_gens (logs s) (ToDERHex sw ck) dev" by (simp only: s1(2) s(2))
    from prune_served [OF sw parts c s1(1) arr adm w0 args(1-3) G]
    show "\<exists>s2 v. app mux d (ToDERHex cw sk) s r w0 = (s2, v, ''/v1/generation/{deviceId}/{generation}'') \<and> ok s2 \<and>
        P (logs s2) (base_of v)" unfolding P_def sent_status_def s1(2) .
  qed (auto simp: P_def split: if_splits)
  then obtain b c' w' where
    call: "Client_do (wire_host parse) c ''DELETE'' (''/v1/generation/'' @ PathEscape dev @ ''/'' @ format_int g) '''' None 0 w =
      (outcome_of (response_on_wire fmt b), c', w')"
    and P: "P (logs (fst (ww_state w'))) b" and c': "answered c cw mux d (ToDERHex cw sk) frag fmt w ns (c', w')"
    unfolding prune_target [OF args(1)] by (auto simp: payload_of_def)
  have guard: "length (store_err_text (ErrRetentionGuard g (Max G))) \<le> 1000" "ascii (store_err_text (ErrRetentionGuard g (Max G)))"
    if "G \<noteq> {}"
  proof -
    have "Max G \<in> G" using that device_gens_finite [OF ok_finite [OF s(1)]] s(2) by (simp add: Max_in)
    then have "1 \<le> Max G" "Max G \<le> 2 ^ 30" using args(4) ok_gen [OF s(1)] s(2) by (auto simp: device_gens_def)
    then show "length (store_err_text (ErrRetentionGuard g (Max G))) \<le> 1000" "ascii (store_err_text (ErrRetentionGuard g (Max G)))"
      using guard_text_small args(2,3) by blast+
  qed
  have "outcome_of (response_on_wire fmt b) =
      (if G \<noteq> {} \<and> g > Max G - RetainedGenerations
       then Inl (APIError 409 ''ERR_RETENTION_GUARD'' (store_err_text (ErrRetentionGuard g (Max G))))
       else if g \<notin> G then Inl (APIError 404 ''ERR_GENERATION_NOT_FOUND'' ''No such generation.'')
       else Inr (response_on_wire fmt b))"
    using P [unfolded P_def] guard outcome_success [of b 204]
      outcome_error [of b 404 "''ERR_GENERATION_NOT_FOUND''" "''No such generation.''" fmt]
      outcome_error [of b 409 "''ERR_RETENTION_GUARD''" "store_err_text (ErrRetentionGuard g (Max G))" fmt]
    by (auto simp: ascii_def code_of_def simp del: store_err_text.simps split: if_splits)
  then show ?thesis using call P c' by (simp add: Client_PruneGeneration_def P_def)
qed

section \<open>What there is\<close>

lemma client_index:
  fixes c :: "('s wire, 'k, 'g) Client"
  assumes ready: "ready_call sw cw ck sk c mux d at frag fmt w nb ns" and parts: "Store d = ops" "Nonces d = nops"
    and fresh: "\<And>s. s \<in> {fst (ww_state w), at (fst (ww_state w)) (ww_now w)} \<Longrightarrow> accepts_nonce nops (at s (ww_now w)) (ww_now w) nb"
    and s: "ok (fst (ww_state w))" "L = logs (fst (ww_state w)) (ToDERHex sw ck) dev g"
    and args: "deviceIDPattern dev" "1 \<le> g" "g \<le> 2 ^ 30" "int4_ok from" "int64_ok limit"
    and page: "page = index_page L (if from > 0 then from else 1) (if 1 \<le> limit \<and> limit \<le> DefaultIndexLimit then limit else DefaultIndexLimit)"
      "\<forall>e \<in> set page. entry_carried fmt parse e"
  shows "\<exists>c' w'. Client_Index (wire_host parse) c dev g from limit w = (Inr (map entry_seen page), c', w') \<and>
     answered c cw mux d (ToDERHex cw sk) frag fmt w ns (c', w') \<and> logs (fst (ww_state w')) = logs (fst (ww_state w))"
proof -
  let ?path = "''/v1/log/'' @ dev" and ?q = "index_query g from limit" and ?ps = "[(''deviceId'', dev)]"
  let ?answer = "PObj [(''entries'', PList (map payload_of_entry page)), (''status'', PText ''success'')]"
  have sw: "sdk_ok sw" "Wallet d = sw" and c: "connected c cw mux d (ToDERHex cw sk) at frag fmt" using ready by (simp_all add: ready_call_def)
  define P where "P L2 b \<longleftrightarrow> map_option fst (bw_Sent b) = Some 200 \<and> bw_Body b = [PieceJson ?answer] \<and> L2 = logs (fst (ww_state w))"
    for L2 and b :: base_writer
  have "\<exists>b c' w'. Client_do (wire_host parse) c ''GET'' (target ?path ?q) (snd (payload_of ''GET'' []))
        (fst (payload_of ''GET'' [])) (int (length ([] :: bytes))) w = (outcome_of (response_on_wire fmt b), c', w') \<and>
      P (logs (fst (ww_state w'))) b \<and> answered c cw mux d (ToDERHex cw sk) frag fmt w ns (c', w')"
  proof (rule client_call [OF ready parts fresh s(1) _ path_plain(1) [OF args(1)] query_ascii(2)])
    fix s p s3 w0 and r :: "'k request"
    assume s1: "ok s" "logs s = logs (fst (ww_state w))" and arr: "arrives ''GET'' ?path ?q [] r"
      and adm: "admits sw nops s r p ck s3" and w0: "unsent w0" "within w0"
    note r = arr [unfolded arrives_def]
    have hit: "rq_ContentLength r \<le> MaxBlobBytes d"
      "mux (map fst (routes d (ToDERHex cw sk))) ''GET'' (rq_EscapedPath r) = MuxHit ''/v1/log/{deviceId}'' ?ps"
      using c r device_id [OF args(1)] by (simp_all add: connected_def routed_def)
    have q: "rq_Method r = ''GET''" "rq_RawQuery r = ?q" using r by simp_all
    have int64: "int64_ok from" using args(4) by (auto simp: int4_ok_def int64_ok_def)
    note params = index_params [OF q(2) args(2,3) int64 args(5)]
    have int4: "int4_ok (optionalIntParam r ''from'' 1)" using args(4) by (simp add: params(2) int4_ok_def)
    have fv: "first_value ?ps ''deviceId'' = dev" by (simp add: first_value_def)
    from index_handled [where mux = mux and key = "ToDERHex cw sk" and r = r, OF sw parts q(1) hit adm, unfolded fv, OF args(1) params(1) int4 w0 s1(1)]
    show "\<exists>s2 v. app mux d (ToDERHex cw sk) s r w0 = (s2, v, ''/v1/log/{deviceId}'') \<and> ok s2 \<and> P (logs s2) (base_of v)"
      by (auto simp: P_def sent_status_def params(2,3) page(1) s(2) s1(2))
  qed (auto simp: P_def)
  then obtain b c' w' where
    call: "Client_do (wire_host parse) c ''GET'' (index_uri dev g from limit) '''' None 0 w = (outcome_of (response_on_wire fmt b), c', w')"
    and P: "P (logs (fst (ww_state w'))) b" and c': "answered c cw mux d (ToDERHex cw sk) frag fmt w ns (c', w')"
    using index_target [OF args(1)] by (auto simp: payload_of_def)
  have b: "b = \<lparr>bw_Header = bw_Header b, bw_Sent = bw_Sent b, bw_Body = [PieceJson ?answer]\<rparr>" using P by (cases b) (simp add: P_def)
  have "decode_body [(''ENTRIES'', list_field (entry_flds parse) zero_entry)] [] (response_on_wire fmt b) = Some (map entry_seen page)"
    by (subst b, rule decode_list_answer) (use page(2) entry_on_wire fold_answer_names in \<open>auto simp: ascii_def code_of_def simp del: fold_name.simps\<close>)
  then show ?thesis using call P c' outcome_success [of b 200] by (auto simp: Client_Index_def wire_host_def P_def)
qed

lemma client_manifest:
  fixes c :: "('s wire, 'k, 'g) Client"
  assumes ready: "ready_call sw cw ck sk c mux d at frag fmt w nb ns" and parts: "Store d = ops" "Nonces d = nops"
    and fresh: "\<And>s. s \<in> {fst (ww_state w), at (fst (ww_state w)) (ww_now w)} \<Longrightarrow> accepts_nonce nops (at s (ww_now w)) (ww_now w) nb"
    and s: "ok (fst (ww_state w))" "ds = manifest_of (logs (fst (ww_state w))) (ToDERHex sw ck)"
      "\<forall>d \<in> set ds. summary_carried fmt parse d"
  shows "\<exists>c' w'. Client_Manifest (wire_host parse) c w = (Inr (map summary_seen ds), c', w') \<and>
     answered c cw mux d (ToDERHex cw sk) frag fmt w ns (c', w') \<and> logs (fst (ww_state w')) = logs (fst (ww_state w))"
proof -
  let ?path = "''/v1/manifest''" and ?answer = "PObj [(''devices'', PList (map payload_of_summary ds)), (''status'', PText ''success'')]"
  have sw: "sdk_ok sw" "Wallet d = sw" and c: "connected c cw mux d (ToDERHex cw sk) at frag fmt" using ready by (simp_all add: ready_call_def)
  define P where "P L2 b \<longleftrightarrow> map_option fst (bw_Sent b) = Some 200 \<and> bw_Body b = [PieceJson ?answer] \<and> L2 = logs (fst (ww_state w))"
    for L2 and b :: base_writer
  have "\<exists>b c' w'. Client_do (wire_host parse) c ''GET'' (target ?path '''') (snd (payload_of ''GET'' []))
        (fst (payload_of ''GET'' [])) (int (length ([] :: bytes))) w = (outcome_of (response_on_wire fmt b), c', w') \<and>
      P (logs (fst (ww_state w'))) b \<and> answered c cw mux d (ToDERHex cw sk) frag fmt w ns (c', w')"
  proof (rule client_call [OF ready parts fresh s(1) _ manifest_plain])
    fix s p s3 w0 and r :: "'k request"
    assume s1: "ok s" "logs s = logs (fst (ww_state w))" and arr: "arrives ''GET'' ?path '''' [] r"
      and adm: "admits sw nops s r p ck s3" and w0: "unsent w0" "within w0"
    note r = arr [unfolded arrives_def]
    have hit: "rq_ContentLength r \<le> MaxBlobBytes d" "mux (map fst (routes d (ToDERHex cw sk))) ''GET'' (rq_EscapedPath r) = MuxHit ?path []"
      using c r by (simp_all add: connected_def routed_def)
    show "\<exists>s2 v. app mux d (ToDERHex cw sk) s r w0 = (s2, v, ?path) \<and> ok s2 \<and> P (logs s2) (base_of v)"
      using manifest_handled [where mux = mux and key = "ToDERHex cw sk" and r = r, OF sw parts _ hit adm w0 s1(1)] r
      by (auto simp: P_def sent_status_def s(2) s1(2))
  qed (auto simp: P_def)
  then obtain b c' w' where
    call: "Client_do (wire_host parse) c ''GET'' ?path '''' None 0 w = (outcome_of (response_on_wire fmt b), c', w')"
    and P: "P (logs (fst (ww_state w'))) b" and c': "answered c cw mux d (ToDERHex cw sk) frag fmt w ns (c', w')"
    by (auto simp: payload_of_def target_def)
  have b: "b = \<lparr>bw_Header = bw_Header b, bw_Sent = bw_Sent b, bw_Body = [PieceJson ?answer]\<rparr>" using P by (cases b) (simp add: P_def)
  have "decode_body [(''DEVICES'', list_field (summary_flds parse) zero_summary)] [] (response_on_wire fmt b) = Some (map summary_seen ds)"
    by (subst b, rule decode_list_answer) (use s(3) summary_on_wire fold_answer_names in \<open>auto simp: ascii_def code_of_def simp del: fold_name.simps\<close>)
  then show ?thesis using call P c' outcome_success [of b 200] by (auto simp: Client_Manifest_def wire_host_def P_def)
qed

end

end
