(* ===== verification/Schema.thy ===== *)
theory Schema
  imports Postgres_Contract
begin

text \<open>
  Opening the database: \<open>blobstore.NewPostgresStore\<close> and \<open>nonce.NewPostgresStore\<close> with their
  migrations. A server starts with any schema: the tables may be absent, current, or (for
  \<open>blob_log\<close>) the one from before streaming, which the first migration drops. Every statement
  is subject to the server's script of faults, as the operations of the stores are.
\<close>

section \<open>Schemas\<close>

datatype log_table = NoTable | Legacy | Current "log_row list"

record schema =
  sc_log :: log_table
  sc_chunks :: "chunk_row list option"
  sc_nonces :: "nonce_row list option"
  sc_indexes :: "string list"

record pg_server =
  sv_schema :: schema
  sv_now :: time
  sv_faults :: "outcome list"
  sv_coins :: "bool list"

type_synonym migration = "schema \<Rightarrow> pq_error + schema"

text \<open>
  A table takes its index with it. An index on a table that does not exist is refused
  (SQLSTATE 42P01).
\<close>

definition drop_legacy :: migration where
  "drop_legacy sc =
     Inr (case sc_log sc of
            Legacy \<Rightarrow> sc\<lparr>sc_log := NoTable, sc_indexes := removeAll ''blob_log_head'' (sc_indexes sc)\<rparr>
          | _ \<Rightarrow> sc)"

definition create_blob_log :: migration where
  "create_blob_log sc = Inr (case sc_log sc of NoTable \<Rightarrow> sc\<lparr>sc_log := Current []\<rparr> | _ \<Rightarrow> sc)"

definition create_index :: "(schema \<Rightarrow> bool) \<Rightarrow> string \<Rightarrow> migration" where
  "create_index has name sc =
     (if \<not> has sc then Inl (PqError ''42P01'')
      else Inr (if name \<in> set (sc_indexes sc) then sc else sc\<lparr>sc_indexes := name # sc_indexes sc\<rparr>))"

definition create_blob_chunks :: migration where
  "create_blob_chunks sc = Inr (case sc_chunks sc of None \<Rightarrow> sc\<lparr>sc_chunks := Some []\<rparr> | Some _ \<Rightarrow> sc)"

definition create_auth_nonces :: migration where
  "create_auth_nonces sc = Inr (case sc_nonces sc of None \<Rightarrow> sc\<lparr>sc_nonces := Some []\<rparr> | Some _ \<Rightarrow> sc)"

definition Migrations :: "migration list" where
  "Migrations =
     [drop_legacy, create_blob_log, create_index (\<lambda>sc. sc_log sc \<noteq> NoTable) ''blob_log_head'', create_blob_chunks]"

definition nonce_Migrations :: "migration list" where
  "nonce_Migrations = [create_auth_nonces, create_index (\<lambda>sc. sc_nonces sc \<noteq> None) ''auth_nonces_expiry'']"

section \<open>Opening\<close>

datatype open_err =
    OpenDatabase string
  | PingDatabase pq_error
  | MigrationFailed nat pq_error
  | NonceMigrationFailed nat pq_error

text \<open>One statement of a migration commits by itself; a lost reply leaves it performed.\<close>

definition exec_ddl :: "migration \<Rightarrow> pg_server \<Rightarrow> pq_error option \<times> pg_server" where
  "exec_ddl m sv =
     (case m (sv_schema sv) of
        Inl e \<Rightarrow> (Some e, sv\<lparr>sv_faults := tl (sv_faults sv)\<rparr>)
      | Inr sc \<Rightarrow>
          (case sv_faults sv of
             Failed e # fs \<Rightarrow> (Some e, sv\<lparr>sv_faults := fs\<rparr>)
           | Lost e # fs \<Rightarrow> (Some e, sv\<lparr>sv_schema := sc, sv_faults := fs\<rparr>)
           | fs \<Rightarrow> (None, sv\<lparr>sv_schema := sc, sv_faults := tl fs\<rparr>)))"

fun run_migrations :: "nat \<Rightarrow> migration list \<Rightarrow> pg_server \<Rightarrow> (nat \<times> pq_error) option \<times> pg_server" where
  "run_migrations i [] sv = (None, sv)"
| "run_migrations i (m # ms) sv =
     (case exec_ddl m sv of
        (Some e, sv') \<Rightarrow> (Some (i, e), sv')
      | (None, sv') \<Rightarrow> run_migrations (i + 1) ms sv')"

record pg_pool =
  MaxOpenConns :: nat
  MaxIdleConns :: nat
  ConnMaxLifetime :: int

text \<open>\<open>sql_open\<close> is what \<open>sql.Open\<close> says of a data source name: an error, or nothing.\<close>

definition NewPostgresStore ::
  "(string \<Rightarrow> string option) \<Rightarrow> string \<Rightarrow> pg_server \<Rightarrow> (open_err + pg_pool) \<times> pg_server" where
  "NewPostgresStore sql_open dsn sv =
     (case sql_open dsn of
        Some e \<Rightarrow> (Inl (OpenDatabase e), sv)
      | None \<Rightarrow>
    (case exec (sv_faults sv) (Inr ()) of
       (Inl e, fs) \<Rightarrow> (Inl (PingDatabase e), sv\<lparr>sv_faults := fs\<rparr>)
     | (Inr _, fs) \<Rightarrow>
    (case run_migrations 0 Migrations (sv\<lparr>sv_faults := fs\<rparr>) of
       (Some (i, e), sv') \<Rightarrow> (Inl (MigrationFailed i e), sv')
     | (None, sv') \<Rightarrow>
         (Inr \<lparr>MaxOpenConns = 25, MaxIdleConns = 5, ConnMaxLifetime = 5 * 60 * 1000000000\<rparr>, sv'))))"

definition nonce_NewPostgresStore :: "pg_server \<Rightarrow> open_err option \<times> pg_server" where
  "nonce_NewPostgresStore sv =
     (case run_migrations 0 nonce_Migrations sv of
        (Some (i, e), sv') \<Rightarrow> (Some (NonceMigrationFailed i e), sv')
      | (None, sv') \<Rightarrow> (None, sv'))"

text \<open>The database the stores then work on; a table that is not there has no rows.\<close>

definition database_of :: "pg_server \<Rightarrow> database" where
  "database_of sv =
     \<lparr>db_tables =
        \<lparr>blob_log = (case sc_log (sv_schema sv) of Current rows \<Rightarrow> rows | _ \<Rightarrow> []),
         blob_chunks = (case sc_chunks (sv_schema sv) of Some rows \<Rightarrow> rows | None \<Rightarrow> []),
         auth_nonces = (case sc_nonces (sv_schema sv) of Some rows \<Rightarrow> rows | None \<Rightarrow> [])\<rparr>,
      db_now = sv_now sv, db_faults = sv_faults sv, db_coins = sv_coins sv\<rparr>"

section \<open>Migrations keep what is there\<close>

definition keeps_rows :: "schema \<Rightarrow> schema \<Rightarrow> bool" where
  "keeps_rows sc sc' \<longleftrightarrow>
     (\<forall>rows. sc_log sc = Current rows \<longrightarrow> sc_log sc' = Current rows) \<and>
     (\<forall>rows. sc_chunks sc = Some rows \<longrightarrow> sc_chunks sc' = Some rows) \<and>
     (\<forall>rows. sc_nonces sc = Some rows \<longrightarrow> sc_nonces sc' = Some rows)"

lemma keeps_rows_refl [simp]: "keeps_rows sc sc"
  by (simp add: keeps_rows_def)

lemma keeps_rows_trans: "keeps_rows a b \<Longrightarrow> keeps_rows b c \<Longrightarrow> keeps_rows a c"
  by (simp add: keeps_rows_def)

lemma migration_keeps:
  assumes "m \<in> set Migrations \<union> set nonce_Migrations" and "m sc = Inr sc'"
  shows "keeps_rows sc sc'"
  using assms
  by (auto simp: Migrations_def nonce_Migrations_def drop_legacy_def create_blob_log_def create_index_def
      create_blob_chunks_def create_auth_nonces_def keeps_rows_def split: log_table.splits option.splits if_splits)

lemma exec_ddl_cases:
  assumes "exec_ddl m sv = (r, sv')"
  shows "sv_now sv' = sv_now sv \<and> sv_coins sv' = sv_coins sv \<and>
     (r = None \<and> m (sv_schema sv) = Inr (sv_schema sv') \<or>
      r \<noteq> None \<and> (sv_schema sv' = sv_schema sv \<or> m (sv_schema sv) = Inr (sv_schema sv')))"
  using assms by (auto simp: exec_ddl_def split: sum.splits list.splits outcome.splits)

lemma run_migrations_keep:
  assumes "set ms \<subseteq> set Migrations \<union> set nonce_Migrations" and "run_migrations i ms sv = (r, sv')"
  shows "keeps_rows (sv_schema sv) (sv_schema sv') \<and> sv_now sv' = sv_now sv \<and> sv_coins sv' = sv_coins sv"
  using assms
proof (induction i ms sv rule: run_migrations.induct)
  case (2 i m ms sv)
  obtain e sv1 where step: "exec_ddl m sv = (e, sv1)" by force
  note cases = exec_ddl_cases [OF step]
  have "keeps_rows (sv_schema sv) (sv_schema sv1)"
    using cases migration_keeps [of m "sv_schema sv" "sv_schema sv1"] 2(2) by auto
  with 2 step cases show ?case by (auto split: option.splits intro: keeps_rows_trans)
qed simp

lemma run_migrations_done:
  assumes "run_migrations i ms sv = (None, sv')" and "\<And>m sc sc'. m \<in> set ms \<Longrightarrow> m sc = Inr sc' \<Longrightarrow> P sc \<Longrightarrow> P sc'"
  shows "(\<exists>m \<in> set ms. \<forall>sc sc'. m sc = Inr sc' \<longrightarrow> P sc') \<or> P (sv_schema sv) \<Longrightarrow> P (sv_schema sv')"
  using assms
proof (induction i ms sv rule: run_migrations.induct)
  case (2 i m ms sv)
  from 2(3) obtain sv1 where step: "exec_ddl m sv = (None, sv1)" and rest: "run_migrations (i + 1) ms sv1 = (None, sv')"
    by (auto split: prod.splits option.splits)
  have m: "m (sv_schema sv) = Inr (sv_schema sv1)" using exec_ddl_cases [OF step] by auto
  have P1: "(\<exists>m \<in> set ms. \<forall>sc sc'. m sc = Inr sc' \<longrightarrow> P sc') \<or> P (sv_schema sv1)"
    using 2(2) m 2(4) by auto
  show ?case by (rule 2(1) [OF step [symmetric] refl P1 rest]) (use 2(4) in auto)
next
  case (1 i sv)
  have "P (sv_schema sv)" using 1(1) by simp
  moreover have "sv' = sv" using 1(2) by simp
  ultimately show ?case by simp
qed

text \<open>A successful opening leaves the tables the stores use, and no legacy one.\<close>

lemma run_migrations_ready:
  assumes "run_migrations i Migrations sv = (None, sv')"
  shows "(\<exists>rows. sc_log (sv_schema sv') = Current rows) \<and> sc_chunks (sv_schema sv') \<noteq> None"
proof
  from assms obtain sv1 where step: "exec_ddl drop_legacy sv = (None, sv1)"
    and rest: "run_migrations (i + 1) (tl Migrations) sv1 = (None, sv')"
    by (auto simp: Migrations_def split: prod.splits option.splits)
  have "sc_log (sv_schema sv1) \<noteq> Legacy"
    using exec_ddl_cases [OF step]
    by (auto simp: drop_legacy_def split: log_table.splits dest!: sym [of _ "sv_schema sv1"])
  then have "sc_log (sv_schema sv') \<noteq> Legacy"
    by (intro run_migrations_done [OF rest, where P = "\<lambda>sc. sc_log sc \<noteq> Legacy"])
      (auto simp: Migrations_def create_blob_log_def create_index_def create_blob_chunks_def
        split: log_table.splits option.splits if_splits)
  moreover have "sc_log (sv_schema sv') \<noteq> NoTable"
    by (rule run_migrations_done [OF rest, where P = "\<lambda>sc. sc_log sc \<noteq> NoTable"])
      (auto simp: Migrations_def create_blob_log_def create_index_def create_blob_chunks_def
        split: log_table.splits option.splits if_splits)
  ultimately show "\<exists>rows. sc_log (sv_schema sv') = Current rows" by (cases "sc_log (sv_schema sv')") auto
  show "sc_chunks (sv_schema sv') \<noteq> None"
    by (rule run_migrations_done [OF rest, where P = "\<lambda>sc. sc_chunks sc \<noteq> None"])
      (auto simp: Migrations_def create_blob_log_def create_index_def create_blob_chunks_def
        split: log_table.splits option.splits if_splits)
qed

end
