(* ===== verification/Config.thy ===== *)
theory Config
  imports Go_Std
begin

text \<open>
  \<open>internal/config\<close>: the service configuration, read from the environment. The environment
  is a function from names to values, empty when a name is unset, as \<open>os.Getenv\<close> is.
\<close>

type_synonym environ = "string \<Rightarrow> string"

definition DefaultMaxBlobBytes :: int where
  "DefaultMaxBlobBytes = push_bit 20 200"

datatype config_err = ErrMissingServerKey | ErrInvalidServerKey string

record Config =
  cfg_Port :: int
  cfg_ServerPrivateKey :: string
  cfg_DatabaseURL :: string
  cfg_LogLevel :: string
  cfg_LogFormat :: string
  cfg_MaxBlobBytes :: int
  cfg_OTelEndpoint :: string

definition getEnvDefault :: "environ \<Rightarrow> string \<Rightarrow> string \<Rightarrow> string" where
  "getEnvDefault env k d = (if env k \<noteq> '''' then env k else d)"

definition getEnvInt :: "environ \<Rightarrow> string \<Rightarrow> int \<Rightarrow> int" where
  "getEnvInt env k d =
     (if env k \<noteq> '''' then (case atoi (env k) of Some n \<Rightarrow> n | None \<Rightarrow> d) else d)"

definition is_hex :: "char \<Rightarrow> bool" where
  "is_hex c \<longleftrightarrow>
     (let n = code_of c
      in (48 \<le> n \<and> n \<le> 57) \<or> (97 \<le> n \<and> n \<le> 102) \<or> (65 \<le> n \<and> n \<le> 70))"

text \<open>
  The source ranges over runes; a byte that is not ASCII starts none of the runes it
  accepts, so the test is the same byte by byte.
\<close>

definition validateHexKey :: "string \<Rightarrow> config_err option" where
  "validateHexKey key =
     (if length key \<noteq> 64
      then Some (ErrInvalidServerKey (''must be 64 hex characters, got '' @ format_int (int (length key))))
      else if \<not> list_all is_hex key then Some (ErrInvalidServerKey ''must be hexadecimal'')
      else None)"

definition Load :: "environ \<Rightarrow> config_err + Config" where
  "Load env =
     (let key = env ''SERVER_PRIVATE_KEY''
      in if key = '''' then Inl ErrMissingServerKey
         else case validateHexKey key of
                Some e \<Rightarrow> Inl e
              | None \<Rightarrow>
                  Inr \<lparr>cfg_Port = getEnvInt env ''PORT'' 8080,
                       cfg_ServerPrivateKey = key,
                       cfg_DatabaseURL = getEnvDefault env ''DATABASE_URL'' '''',
                       cfg_LogLevel = getEnvDefault env ''LOG_LEVEL'' ''info'',
                       cfg_LogFormat = getEnvDefault env ''LOG_FORMAT'' ''json'',
                       cfg_MaxBlobBytes = getEnvInt env ''MAX_BLOB_BYTES'' DefaultMaxBlobBytes,
                       cfg_OTelEndpoint = getEnvDefault env ''OTEL_EXPORTER_OTLP_ENDPOINT'' ''''\<rparr>)"

lemma getEnvInt_range: "int64_ok d \<Longrightarrow> int64_ok (getEnvInt env k d)"
  by (auto simp: getEnvInt_def split: option.splits dest: atoi_range)

lemma is_hex_lower: "is_lower_hex c \<Longrightarrow> is_hex c"
  by (auto simp: is_lower_hex_def is_digit_def is_hex_def Let_def)

lemma getEnvInt_atoi: "getEnvInt env k d = (case atoi (env k) of Some n \<Rightarrow> n | None \<Rightarrow> d)"
  by (auto simp: getEnvInt_def atoi_def split: option.splits)

definition hex_key :: "string \<Rightarrow> bool" where
  "hex_key key \<longleftrightarrow> length key = 64 \<and> list_all is_hex key"

lemma hex_key_not_empty: "hex_key key \<Longrightarrow> key \<noteq> ''''"
  by (auto simp: hex_key_def)

lemma Load_ok_iff: "(\<exists>cfg. Load env = Inr cfg) \<longleftrightarrow> hex_key (env ''SERVER_PRIVATE_KEY'')"
  by (auto simp: Load_def validateHexKey_def hex_key_def Let_def split: if_splits)

lemma Load_settings:
  assumes "Load env = Inr cfg"
  shows "cfg = \<lparr>cfg_Port = (case atoi (env ''PORT'') of Some n \<Rightarrow> n | None \<Rightarrow> 8080),
     cfg_ServerPrivateKey = env ''SERVER_PRIVATE_KEY'', cfg_DatabaseURL = env ''DATABASE_URL'',
     cfg_LogLevel = (if env ''LOG_LEVEL'' = '''' then ''info'' else env ''LOG_LEVEL''),
     cfg_LogFormat = (if env ''LOG_FORMAT'' = '''' then ''json'' else env ''LOG_FORMAT''),
     cfg_MaxBlobBytes = (case atoi (env ''MAX_BLOB_BYTES'') of Some n \<Rightarrow> n | None \<Rightarrow> 209715200),
     cfg_OTelEndpoint = env ''OTEL_EXPORTER_OTLP_ENDPOINT''\<rparr>"
  using assms
  by (auto simp: Load_def validateHexKey_def Let_def getEnvInt_atoi getEnvDefault_def
    DefaultMaxBlobBytes_def push_bit_eq_mult split: if_splits)

lemma Load_ranges:
  assumes "Load env = Inr cfg"
  shows "int64_ok (cfg_Port cfg)" and "int64_ok (cfg_MaxBlobBytes cfg)"
proof -
  have "int64_ok (getEnvInt env ''PORT'' 8080)" "int64_ok (getEnvInt env ''MAX_BLOB_BYTES'' 209715200)"
    by (rule getEnvInt_range; simp add: int64_ok_def)+
  then show "int64_ok (cfg_Port cfg)" "int64_ok (cfg_MaxBlobBytes cfg)"
    by (simp_all add: Load_settings [OF assms] getEnvInt_atoi)
qed

lemma Load_refused:
  assumes "\<not> hex_key (env ''SERVER_PRIVATE_KEY'')"
  shows "Load env = Inl (if env ''SERVER_PRIVATE_KEY'' = '''' then ErrMissingServerKey else ErrInvalidServerKey
     (if length (env ''SERVER_PRIVATE_KEY'') = 64 then ''must be hexadecimal''
      else ''must be 64 hex characters, got '' @ format_int (int (length (env ''SERVER_PRIVATE_KEY'')))))"
  using assms by (auto simp: Load_def validateHexKey_def hex_key_def Let_def)

text \<open>
  C40: A configuration is loaded exactly when the server key is 64 hexadecimal characters. Each
  of its seven settings is then the environment's, or its default where the variable is empty
  or, for the two numbers, not a 64-bit decimal. An empty key is one error; any other key
  that is not 64 hexadecimal characters is the other, whose text says if the length is wrong.
\<close>

theorem Load_cases:
  "((\<exists>cfg. Load env = Inr cfg) \<longleftrightarrow> hex_key (env ''SERVER_PRIVATE_KEY'')) \<and>
   (case Load env of
      Inr cfg \<Rightarrow>
        cfg_ServerPrivateKey cfg = env ''SERVER_PRIVATE_KEY'' \<and>
        cfg_Port cfg = (case atoi (env ''PORT'') of Some n \<Rightarrow> n | None \<Rightarrow> 8080) \<and> int64_ok (cfg_Port cfg) \<and>
        cfg_MaxBlobBytes cfg = (case atoi (env ''MAX_BLOB_BYTES'') of Some n \<Rightarrow> n | None \<Rightarrow> 209715200) \<and>
        int64_ok (cfg_MaxBlobBytes cfg) \<and>
        cfg_DatabaseURL cfg = env ''DATABASE_URL'' \<and>
        cfg_LogLevel cfg = (if env ''LOG_LEVEL'' = '''' then ''info'' else env ''LOG_LEVEL'') \<and>
        cfg_LogFormat cfg = (if env ''LOG_FORMAT'' = '''' then ''json'' else env ''LOG_FORMAT'') \<and>
        cfg_OTelEndpoint cfg = env ''OTEL_EXPORTER_OTLP_ENDPOINT''
    | Inl ErrMissingServerKey \<Rightarrow> env ''SERVER_PRIVATE_KEY'' = ''''
    | Inl (ErrInvalidServerKey why) \<Rightarrow> env ''SERVER_PRIVATE_KEY'' \<noteq> '''' \<and>
        why = (if length (env ''SERVER_PRIVATE_KEY'') = 64 then ''must be hexadecimal''
               else ''must be 64 hex characters, got '' @ format_int (int (length (env ''SERVER_PRIVATE_KEY'')))))"
proof (cases "Load env")
  case (Inl e)
  then have "\<not> hex_key (env ''SERVER_PRIVATE_KEY'')" by (metis Load_ok_iff Inl_Inr_False)
  with Load_refused [of env, OF this] show ?thesis by simp
next
  case (Inr cfg)
  then have "hex_key (env ''SERVER_PRIVATE_KEY'')" by (metis Load_ok_iff)
  with Inr Load_ranges [OF Inr] show ?thesis by (simp add: Load_settings [OF Inr])
qed

end
