(* ===== verification/Telemetry_Setup.thy ===== *)
theory Telemetry_Setup
  imports Prelude
begin

text \<open>
  \<open>internal/otel/otel.go\<close>: installing the tracer and meter providers of the process, and the
  function that flushes them at exit. The OpenTelemetry SDK (merging the resource, building an
  exporter, shutting a provider down) is a parameter; a provider is what it was built from.
\<close>

section \<open>Providers\<close>

record otel_resource =
  res_ServiceName :: string
  res_ServiceVersion :: string

datatype otel_signal = Traces | Metrics

record otel_provider =
  prov_Signal :: otel_signal
  prov_EndpointURL :: string
  prov_Resource :: otel_resource

text \<open>An error of the SDK is its text.\<close>

record otel_sdk =
  ot_Merge :: "otel_resource \<Rightarrow> string option"
  ot_NewExporter :: "otel_signal \<Rightarrow> string \<Rightarrow> string option"
  ot_Shutdown :: "otel_provider \<Rightarrow> string option"
  ot_BuildVersion :: "string option"

record otel_globals =
  gl_Propagators :: "string list"
  gl_TracerProvider :: "otel_provider option"
  gl_MeterProvider :: "otel_provider option"
  gl_Stopped :: "otel_provider list"

definition fresh_globals :: otel_globals where
  "fresh_globals = \<lparr>gl_Propagators = [], gl_TracerProvider = None, gl_MeterProvider = None, gl_Stopped = []\<rparr>"

definition serviceVersion :: "otel_sdk \<Rightarrow> string" where
  "serviceVersion sdk =
     (case ot_BuildVersion sdk of
        Some v \<Rightarrow> if v \<noteq> '''' \<and> v \<noteq> ''(devel)'' then v else ''dev''
      | None \<Rightarrow> ''dev'')"

definition provider_Shutdown :: "otel_sdk \<Rightarrow> otel_provider \<Rightarrow> otel_globals \<Rightarrow> string option \<times> otel_globals" where
  "provider_Shutdown sdk p g = (ot_Shutdown sdk p, g\<lparr>gl_Stopped := gl_Stopped g @ [p]\<rparr>)"

section \<open>Set-up and shutdown\<close>

text \<open>The shutdown function \<open>Setup\<close> returns: nothing to do, or both providers.\<close>

datatype otel_shutdown = NoShutdown | ShutdownBoth otel_provider otel_provider

definition Setup :: "otel_sdk \<Rightarrow> string \<Rightarrow> string \<Rightarrow> otel_globals \<Rightarrow> (string + otel_shutdown) \<times> otel_globals" where
  "Setup sdk endpoint serviceName g =
     (let g = g\<lparr>gl_Propagators := [''tracecontext'', ''baggage'']\<rparr>
      in if endpoint = '''' then (Inr NoShutdown, g)
         else
    (let res = \<lparr>res_ServiceName = serviceName, res_ServiceVersion = serviceVersion sdk\<rparr>
     in case ot_Merge sdk res of
          Some e \<Rightarrow> (Inl e, g)
        | None \<Rightarrow>
    (case ot_NewExporter sdk Traces (endpoint @ ''/v1/traces'') of
        Some e \<Rightarrow> (Inl e, g)
      | None \<Rightarrow>
    (let tp = \<lparr>prov_Signal = Traces, prov_EndpointURL = endpoint @ ''/v1/traces'', prov_Resource = res\<rparr>;
         g = g\<lparr>gl_TracerProvider := Some tp\<rparr>
     in case ot_NewExporter sdk Metrics (endpoint @ ''/v1/metrics'') of
          Some e \<Rightarrow> (case provider_Shutdown sdk tp g of (_, g) \<Rightarrow> (Inl e, g))
        | None \<Rightarrow>
    (let mp = \<lparr>prov_Signal = Metrics, prov_EndpointURL = endpoint @ ''/v1/metrics'', prov_Resource = res\<rparr>
     in (Inr (ShutdownBoth tp mp), g\<lparr>gl_MeterProvider := Some mp\<rparr>))))))"

text \<open>\<open>errors.Join\<close> of the two results: the errors there are.\<close>

definition otelShutdown :: "otel_sdk \<Rightarrow> otel_shutdown \<Rightarrow> otel_globals \<Rightarrow> string list \<times> otel_globals" where
  "otelShutdown sdk sh g =
     (case sh of
        NoShutdown \<Rightarrow> ([], g)
      | ShutdownBoth tp mp \<Rightarrow>
          (case provider_Shutdown sdk tp g of
             (e1, g) \<Rightarrow>
               (case provider_Shutdown sdk mp g of
                  (e2, g) \<Rightarrow> (List.map_filter (\<lambda>e. e) [e1, e2], g))))"

section \<open>No provider is left running\<close>

text \<open>The providers installed and not shut down.\<close>

definition running :: "otel_globals \<Rightarrow> otel_provider set" where
  "running g = (set_option (gl_TracerProvider g) \<union> set_option (gl_MeterProvider g)) - set (gl_Stopped g)"

text \<open>A set-up that fails leaves nothing running; one that succeeds leaves what its shutdown stops.\<close>

lemma Setup_failed: "Setup sdk endpoint name fresh_globals = (Inl e, g) \<Longrightarrow> running g = {}"
  by (auto simp: Setup_def Let_def running_def provider_Shutdown_def fresh_globals_def split: if_splits option.splits)

lemma Setup_done:
  assumes "Setup sdk endpoint name fresh_globals = (Inr sh, g)"
  shows "running (snd (otelShutdown sdk sh g)) = {}"
    and "sh = NoShutdown \<longleftrightarrow> endpoint = ''''" and "gl_Propagators g = [''tracecontext'', ''baggage'']"
  using assms
  by (auto simp: Setup_def Let_def running_def provider_Shutdown_def otelShutdown_def fresh_globals_def
      split: if_splits option.splits)

text \<open>Both providers are shut down, whatever the first one reports.\<close>

lemma otelShutdown_both:
  "otelShutdown sdk (ShutdownBoth tp mp) g =
     (List.map_filter (ot_Shutdown sdk) [tp, mp], g\<lparr>gl_Stopped := gl_Stopped g @ [tp, mp]\<rparr>)"
  by (simp add: otelShutdown_def provider_Shutdown_def List.map_filter_def split: option.splits)

end
