(* ===== verification/Deployment.thy ===== *)
theory Deployment
  imports Tracing_Store Client_Queries Service_Queries Schema Config Telemetry_Setup
begin

text \<open>
  \<open>cmd/server/main.go\<close> and \<open>internal/wallet\<close>: how the parts are put together. The process
  state is the traced in-memory stores, or the database and the spans; \<open>openStore\<close> chooses.
  Each choice interprets the locale \<open>service\<close>, so what is proved of the service holds of the
  two programs that can run.
\<close>

section \<open>Operations on a part of a state\<close>

definition on_part :: "('w \<Rightarrow> 's) \<Rightarrow> ('s \<Rightarrow> 'w \<Rightarrow> 'w) \<Rightarrow> 's BlobStore \<Rightarrow> 'w BlobStore" where
  "on_part get put ops =
     \<lparr>bs_Append = (\<lambda>w k prev body. case bs_Append ops (get w) k prev body of (r, s, b) \<Rightarrow> (r, put s w, b)),
      bs_Get = (\<lambda>w k. case bs_Get ops (get w) k of (r, s) \<Rightarrow> (r, put s w)),
      bs_Index = (\<lambda>w p d g from limit. case bs_Index ops (get w) p d g from limit of (r, s) \<Rightarrow> (r, put s w)),
      bs_Manifest = (\<lambda>w p. case bs_Manifest ops (get w) p of (r, s) \<Rightarrow> (r, put s w)),
      bs_DeleteGeneration = (\<lambda>w p d g. case bs_DeleteGeneration ops (get w) p d g of (r, s) \<Rightarrow> (r, put s w)),
      bs_DeleteAccount = (\<lambda>w p. case bs_DeleteAccount ops (get w) p of (r, s) \<Rightarrow> (r, put s w)),
      bs_Ping = (\<lambda>w. case bs_Ping ops (get w) of (r, s) \<Rightarrow> (r, put s w))\<rparr>"

definition nonces_on_part :: "('w \<Rightarrow> 'n) \<Rightarrow> ('n \<Rightarrow> 'w \<Rightarrow> 'w) \<Rightarrow> 'n NonceStore \<Rightarrow> 'w NonceStore" where
  "nonces_on_part get put ops =
     \<lparr>ns_Consume = (\<lambda>w n e. case ns_Consume ops (get w) n e of (r, s) \<Rightarrow> (r, put s w))\<rparr>"

text \<open>A part that can be replaced, and a second one the replacement does not touch.\<close>

locale state_part =
  fixes get :: "'w \<Rightarrow> 's" and put :: "'s \<Rightarrow> 'w \<Rightarrow> 'w" and rest :: "'w \<Rightarrow> 'r"
  assumes get_put: "get (put s w) = s" and rest_put: "rest (put s w) = rest w"
begin

lemma views_on_part: "views get (on_part get put ops) ops"
  by (auto simp: views_def on_part_def get_put split: prod.splits)

lemma nonce_views_on_part: "nonce_views get (nonces_on_part get put nops) nops"
  by (auto simp: nonce_views_def nonces_on_part_def get_put split: prod.splits)

lemma on_part_rest: "apply_op (on_part get put ops) w op = (r, w') \<Longrightarrow> rest w' = rest w"
  by (cases op) (auto simp: on_part_def rest_put split: prod.splits sum.splits)

lemma ping_rest: "bs_Ping (on_part get put ops) w = (r, w') \<Longrightarrow> rest w' = rest w"
  by (auto simp: on_part_def rest_put split: prod.splits)

lemma nonces_rest: "ns_Consume (nonces_on_part get put nops) w n e = (r, w') \<Longrightarrow> rest w' = rest w"
  by (auto simp: nonces_on_part_def rest_put split: prod.splits)

end

interpretation left: state_part fst "\<lambda>s w. (s, snd w)" snd
  by unfold_locales simp_all

interpretation right: state_part snd "\<lambda>s w. (fst w, s)" fst
  by unfold_locales simp_all

section \<open>The process without a database\<close>

type_synonym mem_process = "(MemoryStore \<times> span list) \<times> NonceMemory"

definition mem_store :: "mem_process BlobStore" where
  "mem_store = on_part fst (\<lambda>s w. (s, snd w)) (WithTracing memory_ops)"

definition mem_nonces :: "mem_process NonceStore" where
  "mem_nonces = nonces_on_part snd (\<lambda>s w. (fst w, s)) nonce_memory_ops"

definition mem_process_at :: "mem_process \<Rightarrow> time \<Rightarrow> mem_process" where
  "mem_process_at w now = ((mem_at (fst (fst w)) now, snd (fst w)), nm_at (snd w) now)"

definition mem_process_logs :: "mem_process \<Rightarrow> logs" where
  "mem_process_logs w = mem_logs (fst (fst w))"

definition mem_process_ok :: "mem_process \<Rightarrow> bool" where
  "mem_process_ok w = mem_ok (fst (fst w))"

lemma mem_service_blob:
  "blob_store mem_store mem_process_logs mem_process_ok (\<lambda>w. ms_now (fst (fst w)))"
  using mem_tr.viewed [OF left.views_on_part]
  by (simp add: mem_store_def mem_process_logs_def [abs_def] mem_process_ok_def [abs_def])

lemma mem_service_nonces:
  "nonce_store mem_nonces (\<lambda>w. mem_spent (snd w)) (\<lambda>w. nm_now (snd w)) mem_process_at"
  unfolding mem_nonces_def by (rule nm.nonce_viewed [OF right.nonce_views_on_part]) (simp add: mem_process_at_def)

interpretation mem_service: service mem_store mem_process_logs mem_process_ok "\<lambda>w. ms_now (fst (fst w))"
  mem_process_at mem_nonces "\<lambda>w. mem_spent (snd w)" "\<lambda>w. nm_now (snd w)"
proof (intro service.intro timed_blob_store.intro mem_service_blob mem_service_nonces)
  show "timed_blob_store_axioms mem_process_logs mem_process_ok (\<lambda>w. ms_now (fst (fst w))) mem_process_at"
    using mem_timed.at_clock mem_timed.at_logs mem_timed.at_ok
    by unfold_locales (simp_all add: mem_process_at_def mem_process_logs_def mem_process_ok_def)
  show "service_axioms mem_store mem_process_logs mem_process_ok mem_nonces (\<lambda>w. mem_spent (snd w))"
  proof
    fix s n e res s'
    assume "ns_Consume mem_nonces s n e = (res, s')"
    then have "fst s' = fst s" unfolding mem_nonces_def by (rule right.nonces_rest)
    then show "mem_process_logs s' = mem_process_logs s" and "mem_process_ok s \<Longrightarrow> mem_process_ok s'"
      by (simp_all add: mem_process_logs_def mem_process_ok_def)
  next
    show "apply_op mem_store s op = (rep, s') \<Longrightarrow> mem_spent (snd s') = mem_spent (snd s)" for s op rep s'
      unfolding mem_store_def using left.on_part_rest by metis
    show "bs_Ping mem_store s = (err, s') \<Longrightarrow> mem_spent (snd s') = mem_spent (snd s)" for s err s'
      unfolding mem_store_def using left.ping_rest by metis
  qed
qed

section \<open>The process on a database\<close>

type_synonym pg_process = "database \<times> span list"

definition pg_store :: "pg_process BlobStore" where
  "pg_store = WithTracing postgres_ops"

definition pg_nonces :: "pg_process NonceStore" where
  "pg_nonces = nonces_on_part fst (\<lambda>s w. (s, snd w)) nonce_postgres_ops"

definition pg_process_at :: "pg_process \<Rightarrow> time \<Rightarrow> pg_process" where
  "pg_process_at w now = (pg_at (fst w) now, snd w)"

definition pg_process_logs :: "pg_process \<Rightarrow> logs" where
  "pg_process_logs w = pg_logs (fst w)"

definition pg_process_ok :: "pg_process \<Rightarrow> bool" where
  "pg_process_ok w = pg_ok (fst w)"

abbreviation pg_spent :: "pg_process \<Rightarrow> string \<Rightarrow> time option" where
  "pg_spent w \<equiv> spent_in (db_tables (fst w))"

text \<open>The blob store never touches the nonces, under any faults, and the nonce store never the blobs.\<close>

lemma postgres_ops_nonces:
  assumes "apply_op postgres_ops db op = (r, db')" and "op_body_wf op"
  shows "auth_nonces (db_tables db') = auth_nonces (db_tables db)"
proof (cases op)
  case (OpAppend k prev body)
  with assms obtain ra body' where "PostgresStore_Append db k prev body = (ra, db', body')" "reader_wf body"
    by (auto simp: postgres_ops_def op_body_wf_def split: prod.splits)
  from PostgresStore_Append_outcomes(2) [OF this] show ?thesis
    by (auto simp: append_tables_def add_chunks_def)
next
  case (OpDeleteGeneration p d g)
  with assms obtain rd where "PostgresStore_DeleteGeneration db p d g = (rd, db')"
    by (auto simp: postgres_ops_def split: prod.splits)
  from PostgresStore_DeleteGeneration_outcomes [OF this] show ?thesis by (auto simp: spare_def)
next
  case (OpDeleteAccount p)
  with assms obtain rd where "PostgresStore_DeleteAccount db p = (rd, db')"
    by (auto simp: postgres_ops_def split: prod.splits)
  from PostgresStore_DeleteAccount_outcomes(2) [OF this] show ?thesis by (auto simp: spare_def)
qed (use assms in \<open>auto simp: postgres_ops_def split: prod.splits sum.splits dest!: reads_keep_tables\<close>)

lemma nonce_statements_blobs:
  "delete_expired t now = Inr (t', n) \<Longrightarrow> blob_log t' = blob_log t \<and> blob_chunks t' = blob_chunks t"
  "insert_nonce t nonce e = Inr (t', n) \<Longrightarrow> blob_log t' = blob_log t \<and> blob_chunks t' = blob_chunks t"
  by (auto simp: delete_expired_def insert_nonce_def dest!: checked_Inr split: if_splits)

lemma NoncePostgres_Consume_blobs:
  assumes "NoncePostgres_Consume db n e = (r, db')"
  shows "blob_log (db_tables db') = blob_log (db_tables db) \<and> blob_chunks (db_tables db') = blob_chunks (db_tables db)"
  using assms by (rule NoncePostgres_Consume_cases) (metis nonce_statements_blobs)

lemma tbl_cong:
  assumes "blob_log t' = blob_log t" "blob_chunks t' = blob_chunks t"
  shows "tbl_logs t' = tbl_logs t" "tbl_ok t' \<longleftrightarrow> tbl_ok t"
proof -
  have rows: "rows_of t' = rows_of t" and data: "data_of t' = data_of t"
    using assms by (auto simp: fun_eq_iff rows_of_def data_of_def chunks_for_def)
  then show "tbl_logs t' = tbl_logs t"
    by (simp add: fun_eq_iff tbl_logs_def stored_of_log_def)
  show "tbl_ok t' \<longleftrightarrow> tbl_ok t"
    using assms rows data by (simp add: tbl_ok_def log_row_ok_def chunk_row_ok_def chunks_for_def)
qed

lemma NoncePostgres_Consume_faultless:
  "NoncePostgres_Consume db n e = (r, db') \<Longrightarrow> db_faults db = [] \<Longrightarrow> db_faults db' = []"
  by (auto simp: NoncePostgres_Consume_def autocommit_def Let_def split: prod.splits sum.splits if_splits option.splits)

lemma pg_service_blob:
  "blob_store pg_store pg_process_logs pg_process_ok (\<lambda>w. db_now (fst w))"
  using pg_tr.blob_store_axioms by (simp add: pg_store_def pg_process_logs_def [abs_def] pg_process_ok_def [abs_def])

lemma pg_service_nonces: "nonce_store pg_nonces pg_spent (\<lambda>w. db_now (fst w)) pg_process_at"
  unfolding pg_nonces_def
  by (rule npg.nonce_viewed [OF left.nonce_views_on_part]) (simp add: pg_process_at_def pg_at_def pg_nonce_at_def)

interpretation pg_service: service pg_store pg_process_logs pg_process_ok "\<lambda>w. db_now (fst w)"
  pg_process_at pg_nonces pg_spent "\<lambda>w. db_now (fst w)"
proof (intro service.intro timed_blob_store.intro pg_service_blob pg_service_nonces)
  show "timed_blob_store_axioms pg_process_logs pg_process_ok (\<lambda>w. db_now (fst w)) pg_process_at"
    using pg_timed.at_clock pg_timed.at_logs pg_timed.at_ok
    by unfold_locales (simp_all add: pg_process_at_def pg_process_logs_def pg_process_ok_def)
  show "service_axioms pg_store pg_process_logs pg_process_ok pg_nonces pg_spent"
  proof
    fix s n e res s'
    assume "ns_Consume pg_nonces s n e = (res, s')"
    then have c: "NoncePostgres_Consume (fst s) n e = (res, fst s')"
      by (auto simp: pg_nonces_def nonces_on_part_def nonce_postgres_ops_def split: prod.splits)
    note b = tbl_cong [of "db_tables (fst s')" "db_tables (fst s)"] NoncePostgres_Consume_blobs [OF c]
    show "pg_process_logs s' = pg_process_logs s"
      using b by (simp add: pg_process_logs_def pg_logs_def)
    show "pg_process_ok s \<Longrightarrow> pg_process_ok s'"
      using b NoncePostgres_Consume_faultless [OF c]
      by (simp add: pg_process_ok_def pg_ok_def)
  next
    fix s op rep s'
    assume "apply_op pg_store s op = (rep, s')" "op_body_wf op"
    then have "auth_nonces (db_tables (fst s')) = auth_nonces (db_tables (fst s))"
      using postgres_ops_nonces [OF views_apply_op [OF views_tracing]] by (simp add: pg_store_def)
    then show "pg_spent s' = pg_spent s" by (simp add: spent_in_def fun_eq_iff)
  next
    fix s err s'
    assume "bs_Ping pg_store s = (err, s')"
    then show "pg_spent s' = pg_spent s"
      by (auto simp: pg_store_def tracing_defs postgres_ops_def PostgresStore_Ping_def split: prod.splits sum.splits)
  qed
qed

text \<open>
  Uploads with a database that fails, loses replies or breaks off: of the state only the tables'
  invariant is asked. It is sure of what happened unless a reply can be lost.
\<close>

definition pg_tables_ok :: "pg_process \<Rightarrow> bool" where
  "pg_tables_ok w \<longleftrightarrow> tbl_ok (db_tables (fst w))"

definition pg_loses_reply :: "pg_process \<Rightarrow> bool" where
  "pg_loses_reply w \<longleftrightarrow> (\<exists>e. Lost e \<in> set (db_faults (fst w)))"

lemma autocommit_faults: "autocommit fs t r = (x, t', fs') \<Longrightarrow> set fs' \<subseteq> set fs"
proof -
  have "exec fs r = (y, fs1) \<Longrightarrow> set fs1 \<subseteq> set fs" for y fs1
    by (cases fs) (auto simp: exec_def split: outcome.splits)
  then show "autocommit fs t r = (x, t', fs') \<Longrightarrow> set fs' \<subseteq> set fs"
    by (auto simp: autocommit_def split: prod.splits sum.splits)
qed

lemma NoncePostgres_Consume_faults:
  assumes "NoncePostgres_Consume db n e = (r, db')"
  shows "set (db_faults db') \<subseteq> set (db_faults db)"
proof -
  obtain r1 t1 fs1 where del: "autocommit (db_faults db) (db_tables db) (delete_expired (db_tables db) (db_now db)) = (r1, t1, fs1)"
    by (metis prod_cases3)
  obtain r2 t2 fs2 where one: "autocommit (db_faults db) (db_tables db) (insert_nonce (db_tables db) n e) = (r2, t2, fs2)"
    by (metis prod_cases3)
  obtain r3 t3 fs3 where two: "autocommit fs1 t1 (insert_nonce t1 n e) = (r3, t3, fs3)" by (metis prod_cases3)
  have "db_faults db' \<in> {fs1, fs2, fs3}"
    using assms del one two by (auto simp: NoncePostgres_Consume_def Let_def split: sum.splits if_splits)
  with autocommit_faults [OF del] autocommit_faults [OF one] autocommit_faults [OF two] show ?thesis by auto
qed

lemma append_status_lost: "append_status (Inl (asSeqConflict e)) \<in> {409, 500}"
  by (auto simp: append_status_def asSeqConflict_def split: pq_error.splits)

interpretation pg_uploads: upload_service pg_store pg_process_logs pg_tables_ok "\<lambda>w. db_now (fst w)"
  "\<lambda>w. \<not> pg_loses_reply w" pg_nonces
proof
  fix s n e res s'
  assume "ns_Consume pg_nonces s n e = (res, s')"
  then have c: "NoncePostgres_Consume (fst s) n e = (res, fst s')"
    by (auto simp: pg_nonces_def nonces_on_part_def nonce_postgres_ops_def split: prod.splits)
  note b = tbl_cong [of "db_tables (fst s')" "db_tables (fst s)"] NoncePostgres_Consume_blobs [OF c]
  assume "pg_tables_ok s"
  then show "pg_tables_ok s' \<and> pg_process_logs s' = pg_process_logs s \<and> (\<not> pg_loses_reply s \<longrightarrow> \<not> pg_loses_reply s')"
    using b NoncePostgres_Consume_faults [OF c] by (auto simp: pg_tables_ok_def pg_process_logs_def pg_logs_def pg_loses_reply_def)
next
  fix s k body prev r s' body'
  assume ok: "pg_tables_ok s" "key_ok k" "reader_wf body" and run: "bs_Append pg_store s k prev body = (r, s', body')"
  from run have app: "PostgresStore_Append (fst s) k prev body = (r, fst s', body')"
    by (auto simp: pg_store_def tracing_defs postgres_ops_def split: prod.splits)
  have "1 \<le> key_Generation k" using ok(2) by (simp add: key_ok_def)
  from PostgresStore_Append_whole [OF _ this ok(3) app] PostgresStore_Append_over [OF app ok(3)] ok(1)
  show "pg_tables_ok s' \<and> (reader_over body' \<longrightarrow> reader_over body \<or> ending body = ErrBodyTooLarge) \<and>
       ((\<exists>e. r = Inl e) \<and> pg_process_logs s' = pg_process_logs s \<or>
        content body \<noteq> [] \<and> (ending body = EOF \<or> ending body = ErrUnexpectedEOF) \<and>
        key_Seq k = int (length (log_of (pg_process_logs s) k)) + 1 \<and>
        pg_process_logs s' = logs_append (pg_process_logs s) k \<lparr>s_data = content body, s_prev = prev, s_created = db_now (fst s)\<rparr> \<and>
        (r = Inr (sha256_hex (content body), int (length (content body))) \<or> \<not> \<not> pg_loses_reply s \<and> append_status r \<in> {409, 500}))"
    using append_status_lost unfolding pg_tables_ok_def pg_process_logs_def pg_loses_reply_def pg_logs_def by metis
qed

section \<open>Start-up (main.go, wallet.go)\<close>

datatype identity_err = ParseServerKey | BuildServerWallet

definition NewServerIdentity ::
  "(string \<Rightarrow> 'p option) \<Rightarrow> ('p \<Rightarrow> ('k, 'g) wallet_api option) \<Rightarrow> string \<Rightarrow> identity_err + ('k, 'g) wallet_api" where
  "NewServerIdentity PrivateKeyFromHex NewCompletedProtoWallet hexKey =
     (case PrivateKeyFromHex hexKey of
        None \<Rightarrow> Inl ParseServerKey
      | Some priv \<Rightarrow>
          (case NewCompletedProtoWallet priv of None \<Rightarrow> Inl BuildServerWallet | Some w \<Rightarrow> Inr w))"

datatype opened = OpenedMemory mem_process | OpenedPostgres pg_process

definition openStore ::
  "(string \<Rightarrow> string option) \<Rightarrow> Config \<Rightarrow> time \<Rightarrow> pg_server \<Rightarrow> (open_err + opened) \<times> pg_server" where
  "openStore sql_open cfg now sv =
     (if cfg_DatabaseURL cfg = ''''
      then (Inr (OpenedMemory ((NewMemoryStore now, []), NewNonceMemory now)), sv)
      else
    (case NewPostgresStore sql_open (cfg_DatabaseURL cfg) sv of
       (Inl e, sv) \<Rightarrow> (Inl e, sv)
     | (Inr _, sv) \<Rightarrow>
    (case nonce_NewPostgresStore sv of
       (Some e, sv) \<Rightarrow> (Inl e, sv)
     | (None, sv) \<Rightarrow> (Inr (OpenedPostgres (database_of sv, [])), sv))))"

text \<open>
  What the process finds around it: the environment, the telemetry SDK, the wallet SDK's
  constructors, the database server, the clock and the router library.
\<close>

record ('p, 'k, 'g) platform =
  pf_environ :: environ
  pf_otel :: otel_sdk
  pf_PrivateKeyFromHex :: "string \<Rightarrow> 'p option"
  pf_NewCompletedProtoWallet :: "'p \<Rightarrow> ('k, 'g) wallet_api option"
  pf_sql_open :: "string \<Rightarrow> string option"
  pf_server :: pg_server
  pf_now :: time
  pf_mux :: mux

datatype start_err =
    LoadConfig config_err
  | SetUpTelemetry string
  | BuildIdentity identity_err
  | OpenStoreFailed open_err
  | BuildServer string

datatype 'k running =
    ServingMemory "(mem_process, 'k) http_server" mem_process
  | ServingPostgres "(pg_process, 'k) http_server" pg_process

definition mem_deps :: "('k, 'g) wallet_api \<Rightarrow> int \<Rightarrow> int \<Rightarrow> (mem_process, 'k, 'g) Deps" where
  "mem_deps sdk cap port =
     \<lparr>Wallet = sdk, Store = mem_store, Nonces = mem_nonces, MaxBlobBytes = cap, Port = port\<rparr>"

definition pg_deps :: "('k, 'g) wallet_api \<Rightarrow> int \<Rightarrow> int \<Rightarrow> (pg_process, 'k, 'g) Deps" where
  "pg_deps sdk cap port =
     \<lparr>Wallet = sdk, Store = pg_store, Nonces = pg_nonces, MaxBlobBytes = cap, Port = port\<rparr>"

lemma mem_deps_sel [simp]:
  "Wallet (mem_deps sdk cap port) = sdk" "Store (mem_deps sdk cap port) = mem_store"
  "Nonces (mem_deps sdk cap port) = mem_nonces" "MaxBlobBytes (mem_deps sdk cap port) = cap"
  by (simp_all add: mem_deps_def)

lemma pg_deps_sel [simp]:
  "Wallet (pg_deps sdk cap port) = sdk" "Store (pg_deps sdk cap port) = pg_store"
  "Nonces (pg_deps sdk cap port) = pg_nonces" "MaxBlobBytes (pg_deps sdk cap port) = cap"
  by (simp_all add: pg_deps_def)

text \<open>
  \<open>main\<close> up to the point where the server listens: the server and its stores, and the function
  that flushes the telemetry.
\<close>

definition main_start :: "('p, 'k, 'g) platform \<Rightarrow> (start_err + 'k running \<times> otel_shutdown) \<times> otel_globals" where
  "main_start pf =
     (case Load (pf_environ pf) of
        Inl e \<Rightarrow> (Inl (LoadConfig e), fresh_globals)
      | Inr cfg \<Rightarrow>
    (case Setup (pf_otel pf) (cfg_OTelEndpoint cfg) ''private-backup-cache'' fresh_globals of
        (Inl e, g) \<Rightarrow> (Inl (SetUpTelemetry e), g)
      | (Inr sh, g) \<Rightarrow>
    (case NewServerIdentity (pf_PrivateKeyFromHex pf) (pf_NewCompletedProtoWallet pf) (cfg_ServerPrivateKey cfg) of
        Inl e \<Rightarrow> (Inl (BuildIdentity e), g)
      | Inr srvWallet \<Rightarrow>
    (case openStore (pf_sql_open pf) cfg (pf_now pf) (pf_server pf) of
        (Inl e, _) \<Rightarrow> (Inl (OpenStoreFailed e), g)
      | (Inr (OpenedMemory w), _) \<Rightarrow>
          (case New (pf_mux pf) (mem_deps srvWallet (cfg_MaxBlobBytes cfg) (cfg_Port cfg)) of
             Inl e \<Rightarrow> (Inl (BuildServer e), g)
           | Inr srv \<Rightarrow> (Inr (ServingMemory srv w, sh), g))
      | (Inr (OpenedPostgres w), _) \<Rightarrow>
          (case New (pf_mux pf) (pg_deps srvWallet (cfg_MaxBlobBytes cfg) (cfg_Port cfg)) of
             Inl e \<Rightarrow> (Inl (BuildServer e), g)
           | Inr srv \<Rightarrow> (Inr (ServingPostgres srv w, sh), g))))))"

text \<open>
  How a serving process ends: the listener fails, or a signal stops it, with the error of the
  HTTP server's graceful shutdown. The result is the exit status and the errors logged.
\<close>

datatype stop_event = ListenFailed string | StopSignal "string option"

datatype stop_log = ServerFailed string | ShutdownFailed string | FlushFailed "string list"

definition main_stop :: "otel_sdk \<Rightarrow> otel_shutdown \<Rightarrow> stop_event \<Rightarrow> otel_globals \<Rightarrow> int \<times> stop_log list \<times> otel_globals" where
  "main_stop sdk sh ev g =
     (case ev of
        ListenFailed e \<Rightarrow> (1, [ServerFailed e], g)
      | StopSignal err \<Rightarrow>
          (case otelShutdown sdk sh g of
             (errs, g) \<Rightarrow>
               (0, (case err of None \<Rightarrow> [] | Some e \<Rightarrow> [ShutdownFailed e]) @
                   (if errs = [] then [] else [FlushFailed errs]), g)))"

text \<open>A signal always ends in flushing every provider the start installed.\<close>

lemma main_flushes:
  assumes "main_start pf = (Inr (srv, sh), g)" and "main_stop (pf_otel pf) sh (StopSignal err) g = (status, log, g')"
  shows "status = 0" and "running g' = {}"
proof -
  from assms(1) obtain endpoint where "Setup (pf_otel pf) endpoint ''private-backup-cache'' fresh_globals = (Inr sh, g)"
    by (auto simp: main_start_def split: sum.splits option.splits prod.splits opened.splits)
  from Setup_done(1) [OF this] assms(2) show "status = 0" "running g' = {}"
    by (auto simp: main_stop_def split: prod.splits)
qed

lemma openStore_postgres:
  assumes "openStore sql_open cfg now sv = (Inr (OpenedPostgres w), sv')"
  shows "w = (database_of sv', [])" and "keeps_rows (sv_schema sv) (sv_schema sv')"
    and "\<exists>rows. sc_log (sv_schema sv') = Current rows" and "sc_chunks (sv_schema sv') \<noteq> None"
proof -
  from assms obtain pool sv1 fs where
    pg: "run_migrations 0 Migrations (sv\<lparr>sv_faults := fs\<rparr>) = (None, sv1)"
    and nm: "run_migrations 0 nonce_Migrations sv1 = (None, sv')" and w: "w = (database_of sv', [])"
    by (auto simp: openStore_def NewPostgresStore_def nonce_NewPostgresStore_def
        split: if_splits prod.splits sum.splits option.splits)
  show "w = (database_of sv', [])" by (rule w)
  note k1 = run_migrations_keep [OF _ pg] and k2 = run_migrations_keep [OF _ nm]
  have keep: "keeps_rows (sv_schema sv) (sv_schema sv1)" "keeps_rows (sv_schema sv1) (sv_schema sv')"
    using k1 k2 by simp_all
  then show "keeps_rows (sv_schema sv) (sv_schema sv')" by (rule keeps_rows_trans)
  show "\<exists>rows. sc_log (sv_schema sv') = Current rows" "sc_chunks (sv_schema sv') \<noteq> None"
    using run_migrations_ready [OF pg] keep(2) by (auto simp: keeps_rows_def)
qed

lemma main_start_postgres:
  assumes "main_start pf = (Inr (ServingPostgres srv w, sh), g)"
  obtains cfg sv' where "Load (pf_environ pf) = Inr cfg"
    "openStore (pf_sql_open pf) cfg (pf_now pf) (pf_server pf) = (Inr (OpenedPostgres w), sv')"
  using assms by (auto simp: main_start_def split: sum.splits option.splits prod.splits opened.splits)

section \<open>Restarts\<close>

lemma openStore_keeps_rows:
  assumes "openStore sql_open cfg now sv = (res, sv')"
  shows "keeps_rows (sv_schema sv) (sv_schema sv')"
proof -
  have mig: "keeps_rows (sv_schema a) (sv_schema b)"
    if "run_migrations 0 ms a = (r, b)" "ms = Migrations \<or> ms = nonce_Migrations" for ms a r b
    using run_migrations_keep [OF _ that(1)] that(2) by blast
  show ?thesis
    using assms
    by (auto simp: openStore_def NewPostgresStore_def nonce_NewPostgresStore_def
        split: if_splits prod.splits sum.splits option.splits dest!: mig intro: keeps_rows_trans)
qed

lemma faultless_migrations:
  assumes "sv_faults sv = []"
  shows "\<exists>sv'. run_migrations 0 Migrations sv = (None, sv') \<and> sv_faults sv' = []"
    and "\<exists>sv'. run_migrations 0 nonce_Migrations sv = (None, sv') \<and> sv_faults sv' = []"
  using assms
  by (auto simp: Migrations_def nonce_Migrations_def exec_ddl_def drop_legacy_def create_blob_log_def create_index_def
      create_blob_chunks_def create_auth_nonces_def split: log_table.splits option.splits)

text \<open>
  C31: Starting the service never loses a backup. Whatever statements of the migrations fail or lose
  their replies, whether the start succeeds or not, the rows of the current tables stay as
  they were; and a database that answers is opened, with the logs and the used nonces it had.
\<close>

theorem start_keeps_data:
  assumes "openStore sql_open cfg now sv = (res, sv')"
  shows "keeps_rows (sv_schema sv) (sv_schema sv') \<and>
     (cfg_DatabaseURL cfg \<noteq> '''' \<and> sql_open (cfg_DatabaseURL cfg) = None \<and> sv_faults sv = [] \<longrightarrow>
        (\<exists>w. res = Inr (OpenedPostgres w) \<and>
           (\<forall>rows cs. sc_log (sv_schema sv) = Current rows \<and> sc_chunks (sv_schema sv) = Some cs \<longrightarrow>
              pg_process_logs w = pg_logs (database_of sv) \<and>
              (\<forall>ns. sc_nonces (sv_schema sv) = Some ns \<longrightarrow> pg_spent w = spent_in (db_tables (database_of sv))))))"
proof -
  have keep: "keeps_rows (sv_schema sv) (sv_schema sv')" using assms by (rule openStore_keeps_rows)
  have opened: "\<exists>w. res = Inr (OpenedPostgres w)"
    if db: "cfg_DatabaseURL cfg \<noteq> ''''" "sql_open (cfg_DatabaseURL cfg) = None" "sv_faults sv = []"
  proof -
    obtain sv1 where one: "run_migrations 0 Migrations sv = (None, sv1)" "sv_faults sv1 = []"
      using faultless_migrations(1) [OF db(3)] by blast
    obtain sv2 where two: "run_migrations 0 nonce_Migrations sv1 = (None, sv2)"
      using faultless_migrations(2) [OF one(2)] by blast
    have same: "sv\<lparr>sv_faults := []\<rparr> = sv" using db(3) by (cases sv) simp
    show ?thesis
      using assms db one two
      by (auto simp: openStore_def NewPostgresStore_def nonce_NewPostgresStore_def exec_nil same split: prod.splits)
  qed
  have logs: "pg_process_logs w = pg_logs (database_of sv)"
    if "res = Inr (OpenedPostgres w)" "sc_log (sv_schema sv) = Current rows" "sc_chunks (sv_schema sv) = Some cs" for w rows cs
    using openStore_postgres(1) [OF assms [unfolded that(1)]] that(2,3) keep
      tbl_cong(1) [of "db_tables (database_of sv')" "db_tables (database_of sv)"]
    by (simp add: pg_process_logs_def pg_logs_def database_of_def keeps_rows_def)
  have spent: "pg_spent w = spent_in (db_tables (database_of sv))"
    if "res = Inr (OpenedPostgres w)" "sc_nonces (sv_schema sv) = Some ns" for w ns
    using openStore_postgres(1) [OF assms [unfolded that(1)]] that(2) keep
    by (simp add: database_of_def keeps_rows_def spent_in_def fun_eq_iff)
  show ?thesis using keep opened logs spent by blast
qed

definition sample_config :: Config where
  "sample_config =
     \<lparr>cfg_Port = 8080, cfg_ServerPrivateKey = replicate 64 (CHR ''1''), cfg_DatabaseURL = ''postgres://db'',
      cfg_LogLevel = ''info'', cfg_LogFormat = ''json'', cfg_MaxBlobBytes = DefaultMaxBlobBytes, cfg_OTelEndpoint = ''''\<rparr>"

definition sample_server :: pg_server where
  "sample_server =
     \<lparr>sv_schema = \<lparr>sc_log = Current [], sc_chunks = Some [],
        sc_nonces = Some [\<lparr>n_nonce = ''n'', n_expires_at = 9\<rparr>], sc_indexes = []\<rparr>,
      sv_now = 1, sv_faults = [], sv_coins = []\<rparr>"

theorem start_keeps_data_witness:
  "\<exists>w sv'. openStore (\<lambda>_. None) sample_config 1 sample_server = (Inr (OpenedPostgres w), sv') \<and> pg_spent w ''n'' = Some 9"
proof -
  obtain res sv' where run: "openStore (\<lambda>_. None) sample_config 1 sample_server = (res, sv')" by force
  from start_keeps_data [OF run] obtain w where w: "res = Inr (OpenedPostgres w)"
    "pg_spent w = spent_in (db_tables (database_of sample_server))"
    by (auto simp: sample_config_def sample_server_def)
  have "spent_in (db_tables (database_of sample_server)) ''n'' = Some 9"
    by (simp add: spent_in_def sample_server_def database_of_def)
  with w run show ?thesis by auto
qed

end
