(* ===== verification/Samples.thy ===== *)
theory Samples
  imports Deployment
begin

text \<open>
  Concrete inputs at which the properties are applied: an SDK with two keys, whose
  signature of a message is the message, a signed upload of three bytes, a download, and the
  fresh states of the two processes.
\<close>

definition demo_wallet :: "bool \<Rightarrow> (bool, bytes) wallet_api" where
  "demo_wallet own =
     \<lparr>PublicKeyFromString = (\<lambda>s. if s = ''02'' then Some False else if s = ''03'' then Some True else None),
      ToDERHex = (\<lambda>k. if k then ''03'' else ''02''),
      ParseDERSignature = Some,
      ToDER = (\<lambda>sig. if sig = [] then None else Some sig),
      GetPublicKey = Some own,
      CreateSignature = (\<lambda>p n k m. Some m),
      VerifySignature = (\<lambda>p n k m sig. Some (sig = m))\<rparr>"

lemma demo_pair: "sdk_pair (demo_wallet True) (demo_wallet False) True False"
  by (auto simp: sdk_pair_def demo_wallet_def)

lemma demo_client: "sdk_client (demo_wallet own)"
  by (auto simp: sdk_client_def demo_wallet_def ascii_def code_of_def split: if_splits)

lemma demo_ok: "sdk_ok (demo_wallet own)"
  by (auto simp: sdk_ok_def demo_wallet_def name_ok_def code_of_def)

lemma demo_hex [simp]: "ToDERHex (demo_wallet own) k = (if k then ''03'' else ''02'')"
  by (simp add: demo_wallet_def)

definition demo_device :: string where
  "demo_device = ''0123456789abcdef0123456789abcdef''"

definition demo_data :: bytes where
  "demo_data = [1, 2, 3]"

definition demo_proof :: "string \<Rightarrow> bytes \<Rightarrow> Proof" where
  "demo_proof action nb =
     \<lparr>p_Action = action, p_IdentityKey = ''03'', p_ExpiresAt = 120000, p_Nonce = b64_encode nb,
      p_Signature = b64_encode (Canonical action ''03'' 120000 (b64_encode nb))\<rparr>"

lemma demo_sign:
  "Sign (demo_wallet True) (ToDERHex (demo_wallet True) False) action 0 (Some nb) = Inr (demo_proof action nb)"
  by (simp add: Sign_def demo_wallet_def demo_proof_def Let_def Canonical_def unix_milli_def Window_def bytes_of_string_def)

definition demo_request :: "string \<Rightarrow> string \<Rightarrow> string \<Rightarrow> string \<Rightarrow> bytes \<Rightarrow> reader \<Rightarrow> bool request" where
  "demo_request meth path query digest nb body =
     \<lparr>rq_Method = meth, rq_Path = path, rq_EscapedPath = path, rq_ForceQuery = False, rq_RawQuery = query,
      rq_Header = [(Header, Encode (demo_proof (Action meth (path @ ''?'' @ query) digest) nb)),
                   (''Content-Type'', ContentTypeOctetStream)],
      rq_ContentLength = -1, rq_Body = body, rq_Params = [], rq_Identity = None, rq_Now = 0\<rparr>"

definition demo_upload :: "bytes \<Rightarrow> bool request" where
  "demo_upload data =
     demo_request ''POST'' (''/v1/log/'' @ demo_device) ''seq=1&generation=1'' (sha256_hex demo_data) [7]
       (ConnBody \<lparr>c_data = data, c_frag = [2, 0, 1], c_final = EOF, c_joined = False\<rparr>)"

definition demo_download :: "bool request" where
  "demo_download =
     demo_request ''GET'' (''/v1/log/'' @ demo_device @ ''/1'') ''generation=1'' '''' [8]
       (ConnBody \<lparr>c_data = [], c_frag = [], c_final = EOF, c_joined = False\<rparr>)"

text \<open>A router that knows where the two samples go.\<close>

definition demo_mux :: mux where
  "demo_mux table meth path =
     (if meth = ''POST'' then MuxHit ''/v1/log/{deviceId}'' [(''deviceId'', demo_device)]
      else MuxHit ''/v1/log/{deviceId}/{seq}'' [(''deviceId'', demo_device), (''seq'', ''1'')])"

definition demo_mem :: mem_process where
  "demo_mem = ((NewMemoryStore 1, []), NewNonceMemory 1)"

definition demo_pg :: pg_process where
  "demo_pg = (fresh_database 1, [])"

lemma demo_states: "mem_process_ok demo_mem" "mem_process_logs demo_mem = (\<lambda>_ _ _. [])"
  "pg_process_ok demo_pg" "pg_process_logs demo_pg = (\<lambda>_ _ _. [])"
  using mem_ok_new [of 1] mem_logs_new fresh_database_ok
  by (simp_all add: mem_process_ok_def mem_process_logs_def pg_process_ok_def pg_process_logs_def demo_mem_def
      demo_pg_def time_zero_def)

lemma demo_params:
  "positiveIntParam (demo_upload data) ''seq'' = Some 1" "positiveIntParam (demo_upload data) ''generation'' = Some 1"
  "positiveIntParam demo_download ''generation'' = Some 1" "parsePathInt ''1'' = Some 1"
  "first_value (Query (demo_upload data)) ''prevSha256'' = ''''"
  by (simp_all add: positiveIntParam_def demo_upload_def demo_download_def demo_request_def Query_def query_pair_def
      cut_def first_value_def atoi_def parsePathInt_def is_digit_def digit_val_def code_of_def Let_def int64_ok_def)

lemma demo_device_ok: "deviceIDPattern demo_device"
  by (simp add: deviceIDPattern_def demo_device_def is_lower_hex_def is_digit_def code_of_def)

lemma hex_pattern_digest: "sha256HexPattern (sha256_hex bs)"
  by (auto simp: sha256HexPattern_def list_all_iff dest: sha256_hex_lower)

lemma demo_admitted:
  assumes "digest = '''' \<or> sha256HexPattern digest" "meth = ''POST'' \<longrightarrow> digest \<noteq> ''''"
    and "ascii meth" "ascii (path @ ''?'' @ query)" "CHR '' '' \<notin> set meth" "CHR '' '' \<notin> set (path @ ''?'' @ query)"
    and "path \<noteq> ''''" "query \<noteq> ''''" "\<not> prefix ''sha256='' path" "prefix ''/'' path" "nb \<noteq> []"
    and "ns_Consume nonces s (b64_encode nb) 120000000000 = (Inr True, s1)"
  shows "admits (demo_wallet False) nonces s (demo_request meth path query digest nb body)
     (demo_proof (Action meth (path @ ''?'' @ query) digest) nb) True s1"
proof -
  let ?r = "demo_request meth path query digest nb body"
  have r: "rq_Method ?r = meth" "RequestURI ?r = path @ ''?'' @ query" "rq_Now ?r = 0"
    using assms(7,8) by (simp_all add: demo_request_def RequestURI_def)
  have "\<not> prefix ''sha256='' (path @ ''?'' @ query)"
    using assms(7,10) by (cases path) auto
  then show ?thesis
    using assms demo_sign [of "Action meth (path @ ''?'' @ query) digest" nb]
    by (intro signed_admitted [where cw = "demo_wallet True" and sk = False and now = 0 and nb = nb and digest = digest])
      (simp_all add: demo_pair demo_client r first_value_def demo_proof_def unix_milli_def Window_def int64_ok_def,
        simp_all add: demo_request_def demo_proof_def Header_def)
qed

definition upload_proof :: Proof where
  "upload_proof =
     demo_proof (Action ''POST'' (''/v1/log/'' @ demo_device @ ''?seq=1&generation=1'') (sha256_hex demo_data)) [7]"

definition download_proof :: Proof where
  "download_proof = demo_proof (Action ''GET'' (''/v1/log/'' @ demo_device @ ''/1?generation=1'') '''') [8]"

lemma upload_admitted:
  assumes "ns_Consume nonces s (b64_encode [7]) 120000000000 = (Inr True, s1)"
  shows "admits (demo_wallet False) nonces s (demo_upload data) upload_proof True s1"
proof -
  have "admits (demo_wallet False) nonces s (demo_upload data)
     (demo_proof (Action ''POST'' ((''/v1/log/'' @ demo_device) @ ''?'' @ ''seq=1&generation=1'') (sha256_hex demo_data)) [7]) True s1"
    unfolding demo_upload_def
    using assms hex_pattern_digest by (intro demo_admitted) (simp_all add: ascii_def code_of_def demo_device_def)
  then show ?thesis by (simp add: upload_proof_def)
qed

lemma download_admitted:
  assumes "ns_Consume nonces s (b64_encode [8]) 120000000000 = (Inr True, s1)"
  shows "admits (demo_wallet False) nonces s demo_download download_proof True s1"
proof -
  have "admits (demo_wallet False) nonces s demo_download
     (demo_proof (Action ''GET'' ((''/v1/log/'' @ demo_device @ ''/1'') @ ''?'' @ ''generation=1'') '''') [8]) True s1"
    unfolding demo_download_def
    using assms by (intro demo_admitted) (simp_all add: ascii_def code_of_def demo_device_def)
  then show ?thesis by (simp add: download_proof_def)
qed

lemma mem_consume_fresh:
  "nm_seen (snd w) = [] \<Longrightarrow> \<exists>s1. ns_Consume mem_nonces w n e = (Inr True, s1)"
  by (cases w) (simp add: mem_nonces_def nonces_on_part_def nonce_memory_ops_def NonceMemory_Consume_def)

lemma pg_consume_fresh:
  assumes "auth_nonces (db_tables (fst w)) = []" "db_faults (fst w) = []" "text_ok n"
  shows "\<exists>s1. ns_Consume pg_nonces w n e = (Inr True, s1)"
  using assms
  by (cases w) (auto simp: pg_nonces_def nonces_on_part_def nonce_postgres_ops_def NoncePostgres_Consume_def
      autocommit_def exec_nil insert_nonce_def delete_expired_def checked_def params_err_def Let_def split: list.splits)

lemma demo_nonces: "text_ok (b64_encode nb)"
  using b64_encode_chars [of _ nb] by (fastforce simp: text_ok_def intro!: valid_utf8_ascii)

lemma demo_arriving [simp]: "arriving (demo_upload data) \<longleftrightarrow> length data < 2 ^ 51" "arriving demo_download"
  by (simp_all add: arriving_def demo_upload_def demo_download_def demo_request_def chunkable_def)

lemma demo_mem_upload: "\<exists>s1. admits (demo_wallet False) mem_nonces demo_mem (demo_upload data) upload_proof True s1"
proof -
  have "nm_seen (snd demo_mem) = []" by (simp add: demo_mem_def NewNonceMemory_def)
  then obtain s1 where "ns_Consume mem_nonces demo_mem (b64_encode [7]) 120000000000 = (Inr True, s1)"
    using mem_consume_fresh by blast
  from upload_admitted [OF this] show ?thesis by (rule exI)
qed

lemma demo_pg_consume: "\<exists>s1. ns_Consume pg_nonces demo_pg (b64_encode nb) e = (Inr True, s1)"
  by (rule pg_consume_fresh) (simp_all add: demo_pg_def fresh_database_def empty_tables_def demo_nonces)

lemma demo_pg_upload: "\<exists>s1. admits (demo_wallet False) pg_nonces demo_pg (demo_upload data) upload_proof True s1"
proof -
  obtain s1 where "ns_Consume pg_nonces demo_pg (b64_encode [7]) 120000000000 = (Inr True, s1)"
    using demo_pg_consume by blast
  from upload_admitted [OF this] show ?thesis by (rule exI)
qed

lemma demo_speaks: "speaks_for (demo_wallet False) (demo_upload data) q \<longleftrightarrow> q = ''03''"
proof -
  obtain s1 where "admits (demo_wallet False) pg_nonces demo_pg (demo_upload data) upload_proof True s1"
    using demo_pg_upload by metis
  then show ?thesis
    by (auto simp: speaks_for_def admits_def Verify_def Let_def split: if_splits)
qed

lemma demo_simps [simp]:
  "first_value [(''deviceId'', demo_device)] ''deviceId'' = demo_device"
  "first_value [(''deviceId'', demo_device), (''seq'', ''1'')] ''deviceId'' = demo_device"
  "first_value [(''deviceId'', demo_device), (''seq'', ''1'')] ''seq'' = ''1''"
  "demo_mux table ''POST'' path = MuxHit ''/v1/log/{deviceId}'' [(''deviceId'', demo_device)]"
  "demo_mux table ''GET'' path = MuxHit ''/v1/log/{deviceId}/{seq}'' [(''deviceId'', demo_device), (''seq'', ''1'')]"
  "demo_data \<noteq> []" "length demo_data = 3" "name_ok ''''"
  by (simp_all add: first_value_def demo_mux_def demo_data_def name_ok_def)

lemma demo_upload_facts:
  "content (rq_Body (demo_upload data)) = data" "ending (rq_Body (demo_upload data)) = EOF"
  "rq_Method (demo_upload data) = ''POST''" "rq_ContentLength (demo_upload data) = -1"
  "first_value (rq_Header (demo_upload data)) ''Content-Type'' = ContentTypeOctetStream"
  "unsent (Base new_response)" "within (Base new_response)"
  by (simp_all add: demo_upload_def demo_request_def new_response_def first_value_def Header_def)

lemma demo_digest: "BodySha256 (p_Action upload_proof) = sha256_hex demo_data"
  using sha256_hex_lower [of "CHR '' ''" demo_data]
  by (auto simp: upload_proof_def demo_proof_def intro!: BodySha256_Action)
    (simp add: is_lower_hex_def is_digit_def code_of_def)

text \<open>The sample upload is stored by the process on the database.\<close>

lemma demo_pg_stores:
  "\<exists>s1 w1. app demo_mux (pg_deps (demo_wallet False) 10 80) ''02'' demo_pg (demo_upload demo_data) (Base new_response) =
       (s1, w1, ''/v1/log/{deviceId}'') \<and> sent_status w1 = Some 201 \<and> pg_process_ok s1 \<and>
     map s_data (pg_process_logs s1 ''03'' demo_device 1) = [demo_data]"
proof -
  obtain s1 where adm: "admits (demo_wallet False) pg_nonces demo_pg (demo_upload demo_data) upload_proof True s1"
    using demo_pg_upload by metis
  note r = demo_upload_facts
  obtain s2 w' where
    "app demo_mux (pg_deps (demo_wallet False) 10 80) ''02'' demo_pg (demo_upload demo_data) (Base new_response) =
       (s2, w', ''/v1/log/{deviceId}'')" "sent_status w' = Some 201" "pg_process_ok s2"
    "pg_process_logs s2 = logs_append (pg_process_logs demo_pg)
       \<lparr>key_Pseudonym = ToDERHex (demo_wallet False) True,
        key_DeviceID = first_value [(''deviceId'', demo_device)] ''deviceId'', key_Generation = 1, key_Seq = 1\<rparr>
       \<lparr>s_data = demo_data, s_prev = '''', s_created = db_now (fst s1)\<rparr>"
    using pg_service.upload_accepted [OF demo_ok _ _ _ r(3) _ _ adm r(5) _ demo_params(1,2) _ r(6,7) demo_states(3),
        where d = "pg_deps (demo_wallet False) 10 80" and mux = demo_mux and key = "''02''"
          and params = "[(''deviceId'', demo_device)]"] r(1,2,4) demo_digest
    by (simp add: demo_params demo_device_ok demo_states) blast
  then show ?thesis by (simp add: demo_states logs_append_def set_log_def log_of_def)
qed

text \<open>A database on which the sample bytes are stored and no nonce is spent.\<close>

lemma demo_stored:
  "\<exists>db. pg_process_ok (db, []) \<and> auth_nonces (db_tables db) = [] \<and> pg_process_logs (db, []) =
     logs_append (\<lambda>_ _ _. []) \<lparr>key_Pseudonym = ''03'', key_DeviceID = demo_device, key_Generation = 1, key_Seq = 1\<rparr>
       \<lparr>s_data = demo_data, s_prev = '''', s_created = 1\<rparr>"
proof -
  let ?k = "\<lparr>key_Pseudonym = ''03'', key_DeviceID = demo_device, key_Generation = 1, key_Seq = 1\<rparr>"
  have name: "name_ok demo_device" using demo_device_ok by (rule device_name)
  have k: "key_ok ?k" using name by (simp add: key_ok_def name_ok_def code_of_def int4_ok_def)
  have e: "ending (BytesReader demo_data) = EOF" by simp
  have len: "key_Seq ?k = int (length (log_of (pg_logs (fresh_database 1)) ?k)) + 1"
    by (simp add: log_of_def fresh_database_ok)
  have c: "chunkable (BytesReader demo_data)" by (simp add: chunkable_def)
  have wf: "reader_wf (BytesReader demo_data)" by simp
  have ne: "content (BytesReader demo_data) \<noteq> []" by simp
  have nm: "name_ok ''''" by (simp add: name_ok_def)
  have now: "db_now (fresh_database 1) = 1" by (simp add: fresh_database_def)
  from pg.Append_stored [OF fresh_database_ok(1) [of 1] k nm wf c len e ne]
  obtain db body' where app: "bs_Append postgres_ops (fresh_database 1) ?k '''' (BytesReader demo_data) =
      (Inr (sha256_hex (content (BytesReader demo_data)), int (length (content (BytesReader demo_data)))), db, body')" "pg_ok db"
    "pg_logs db = logs_append (pg_logs (fresh_database 1)) ?k
       \<lparr>s_data = content (BytesReader demo_data), s_prev = '''', s_created = db_now (fresh_database 1)\<rparr>"
    by blast
  have "auth_nonces (db_tables db) = auth_nonces (db_tables (fresh_database 1))"
    by (rule postgres_ops_nonces [of _ "OpAppend ?k '''' (BytesReader demo_data)"]) (simp_all add: app(1) op_body_wf_def)
  then have "auth_nonces (db_tables db) = []" by (simp add: fresh_database_def empty_tables_def)
  with app(2,3) show ?thesis
    by (intro exI [of _ db]) (simp add: pg_process_ok_def pg_process_logs_def spent_in_def logs_append_def set_log_def log_of_def
        fresh_database_ok now)
qed

end
