(* ===== verification/Client_Properties.thy ===== *)
theory Client_Properties
  imports Client_Wire Samples
begin

text \<open>
  What the client and the server promise together, on the PostgreSQL stores: an upload through
  the client is what a download through the client returns, and a request with a body is handed
  to the HTTP client once.
\<close>

lemma find_filter_None: "find P xs = None \<Longrightarrow> find P (filter Q xs) = None"
  by (auto simp: find_None_iff)

lemma pg_accepts_nonce:
  assumes "pg_process_ok s" and "pg_spent s (b64_encode nb) = None"
  shows "accepts_nonce pg_nonces s now nb"
proof -
  obtain db spans where s: "s = (db, spans)" by (cases s)
  have db: "db_faults db = []" "find (\<lambda>r. n_nonce r = b64_encode nb) (auth_nonces (db_tables db)) = None"
    using assms by (simp_all add: s pg_process_ok_def pg_ok_def spent_in_def)
  show ?thesis
    using db demo_nonces [of nb]
    by (auto simp: s accepts_nonce_def pg_nonces_def nonces_on_part_def nonce_postgres_ops_def NoncePostgres_Consume_def
        autocommit_def exec_nil insert_nonce_def delete_expired_def checked_def params_err_def Let_def find_None_iff
        split: list.splits)
qed

section \<open>What a call sends\<close>

text \<open>A transport that keeps a list of the requests it was given.\<close>

definition logged :: "'w doer \<Rightarrow> ('w \<times> http_request list) doer" where
  "logged Do st req = (case Do (fst st) req of (res, w') \<Rightarrow> (res, (w', snd st @ [req])))"

definition limits_request :: "string \<Rightarrow> http_request \<Rightarrow> bool" where
  "limits_request base req \<longleftrightarrow> hr_Method req = ''GET'' \<and> hr_URL req = base @ ''/v1/limits'' \<and> hr_Header req = [] \<and>
     hr_Body req = None"

definition call_request :: "string \<Rightarrow> string \<Rightarrow> string \<Rightarrow> string \<Rightarrow> reader option \<Rightarrow> http_request \<Rightarrow> bool" where
  "call_request base meth uri digest body req \<longleftrightarrow> hr_Method req = meth \<and> hr_URL req = base @ uri \<and> hr_Body req = body \<and>
     (\<exists>p. map_of (hr_Header req) Header = Some (Encode p) \<and> p_Action p = Action meth uri digest)"

lemma Sign_action: "Sign cw k a now nb = Inr p \<Longrightarrow> p_Action p = a"
  by (auto simp: Sign_def Let_def split: option.splits)

lemma Client_Limits_sends:
  assumes "c_http c = logged Do" and "Client_Limits host c st = (res, c', st')"
  shows "\<exists>lims. snd st' = snd st @ lims \<and> length lims \<le> 1 \<and> (c_limits c \<noteq> None \<longrightarrow> lims = []) \<and>
     (\<forall>req \<in> set lims. limits_request (c_baseURL c) req) \<and> c_http c' = c_http c \<and> c_baseURL c' = c_baseURL c"
  using assms
  by (auto simp: Client_Limits_def logged_def limits_request_def Let_def
      split: option.splits prod.splits sum.splits if_splits)

lemma roundTrip_sends:
  assumes "c_http c = logged Do" and "\<And>st. snd (snd (ch_Now host st)) = snd st" "\<And>st. snd (snd (ch_Rand host st)) = snd st"
    and "roundTrip host c cw key meth uri digest body sz st = (res, st')"
  shows "\<exists>reqs. snd st' = snd st @ reqs \<and> length reqs \<le> 1 \<and>
     (\<forall>req \<in> set reqs. call_request (c_baseURL c) meth uri digest body req)"
proof -
  obtain now st1 nb st2 where clk: "ch_Now host st = (now, st1)" "ch_Rand host st1 = (nb, st2)" by (meson surj_pair)
  have s: "snd st1 = snd st" "snd st2 = snd st" using assms(2) [of st] assms(3) [of st1] clk by simp_all
  show ?thesis
    using assms(1,4) clk s
    by (auto simp: roundTrip_def logged_def call_request_def Let_def dest!: Sign_action
        split: option.splits prod.splits sum.splits if_splits)
qed

text \<open>
  C27: What a call hands to its HTTP client, \<open>Do\<close>: the limits request, without a proof, if it has
  not got the limits yet, and then nothing but requests of its own method, target and body, each
  with a proof signed for them; one such request when there is a body, and at most two when
  there is none. How often the package \<open>net/http\<close> puts one of them on the wire is below the
  parameter: it may send a request without a body again by itself, as the comment in
  \<open>Client.do\<close> says, and the refusal that this can bring about is what the second one is for.
\<close>

theorem client_sends:
  assumes "c_http c = logged Do"
    and "\<forall>st. snd (snd (ch_Now host st)) = snd st" and "\<forall>st. snd (snd (ch_Rand host st)) = snd st"
    and "Client_do host c meth uri digest body sz (w, sent) = (res, c', (w', sent'))"
  shows "\<exists>lims reqs. sent' = sent @ lims @ reqs \<and> length lims \<le> 1 \<and> (c_limits c \<noteq> None \<longrightarrow> lims = []) \<and>
     (\<forall>req \<in> set lims. limits_request (c_baseURL c) req) \<and> length reqs \<le> (if body = None then 2 else 1) \<and>
     (\<forall>req \<in> set reqs. call_request (c_baseURL c) meth uri digest body req)"
proof (cases "c_wallet c")
  case None
  then show ?thesis using assms(4) by (auto simp: Client_do_def)
next
  case (Some cw)
  obtain res1 c1 st1 where lim: "Client_Limits host c (w, sent) = (res1, c1, st1)" by (metis prod_cases3)
  from Client_Limits_sends [OF assms(1) this] obtain lims where
    L: "snd st1 = sent @ lims" "length lims \<le> 1" "c_limits c \<noteq> None \<longrightarrow> lims = []"
      "\<forall>req \<in> set lims. limits_request (c_baseURL c) req" and c1: "c_http c1 = logged Do" "c_baseURL c1 = c_baseURL c"
    using assms(1) by auto
  show ?thesis
  proof (cases res1)
    case (Inl e)
    then have "sent' = sent @ lims" using Some lim assms(4) L(1) by (auto simp: Client_do_def)
    then show ?thesis using L by (intro exI [of _ lims] exI [of _ "[]"]) simp
  next
    case (Inr lm)
    note sends = roundTrip_sends [where host = host, OF c1(1) assms(2,3) [rule_format]]
    obtain res2 st2 where one: "roundTrip host c1 cw (lim_ServerIdentityKey lm) meth uri digest body sz st1 = (res2, st2)" by (meson surj_pair)
    from sends [OF one] obtain reqs where R: "snd st2 = snd st1 @ reqs" "length reqs \<le> 1"
      "\<forall>req \<in> set reqs. call_request (c_baseURL c) meth uri digest body req" using c1(2) by auto
    show ?thesis
    proof (cases "body = None \<and> isSpentProofRefusal res2")
      case False
      then have "st2 = (w', sent')" using Some lim Inr one assms(4) by (auto simp: Client_do_def)
      then show ?thesis using L R by (intro exI [of _ lims] exI [of _ reqs]) auto
    next
      case True
      obtain res3 st3 where two: "roundTrip host c1 cw (lim_ServerIdentityKey lm) meth uri digest None 0 st2 = (res3, st3)" by (meson surj_pair)
      from sends [OF two] obtain reqs2 where R2: "snd st3 = snd st2 @ reqs2" "length reqs2 \<le> 1"
        "\<forall>req \<in> set reqs2. call_request (c_baseURL c) meth uri digest None req" using c1(2) by auto
      have "st3 = (w', sent')" using True Some lim Inr one two assms(4) by (auto simp: Client_do_def)
      then show ?thesis using L R R2 True by (intro exI [of _ lims] exI [of _ "reqs @ reqs2"]) auto
    qed
  qed
qed

definition idle_host :: "unit \<times> http_request list \<Rightarrow> (time \<times> unit \<times> http_request list) \<times> bytes option \<times> unit \<times> http_request list" where
  "idle_host st = ((0, st), (Some [7], st))"

definition down_client :: "(unit \<times> http_request list, bool, bytes) Client" where
  "down_client =
     \<lparr>c_baseURL = ''http://b'', c_http = logged (\<lambda>w _. (Inl ''refused'', w)), c_wallet = Some (demo_wallet True), c_limits = None\<rparr>"

theorem client_sends_witness:
  "\<exists>res c' sent'. Client_do \<lparr>ch_NewRequest = \<lambda>_ _. None, ch_Now = fst \<circ> idle_host, ch_Rand = snd \<circ> idle_host,
       ch_parse_time = \<lambda>_. None\<rparr> down_client ''GET'' ''/v1/manifest'' '''' None 0 ((), []) = (res, c', ((), sent')) \<and>
     length sent' \<le> 3"
proof -
  let ?host = "\<lparr>ch_NewRequest = \<lambda>_ _. None, ch_Now = fst \<circ> idle_host, ch_Rand = snd \<circ> idle_host, ch_parse_time = \<lambda>_. None\<rparr>"
  obtain res c' sent' where run: "Client_do ?host down_client ''GET'' ''/v1/manifest'' '''' None 0 ((), []) = (res, c', ((), sent'))"
    by (cases "Client_do ?host down_client ''GET'' ''/v1/manifest'' '''' None 0 ((), [])") auto
  have "length sent' \<le> 3"
    using client_sends [OF _ _ _ run, of "\<lambda>w _. (Inl ''refused'', w)"]
    by (auto simp: down_client_def idle_host_def)
  with run show ?thesis by blast
qed

section \<open>Through the client and back\<close>

lemma pg_nonces_ready:
  assumes "pg_process_ok s" and "pg_spent s (b64_encode nb) = None" and "time_zero < now"
    and "s' \<in> {s, pg_process_at s now}"
  shows "accepts_nonce pg_nonces (pg_process_at s' now) now nb"
proof (rule pg_accepts_nonce)
  have "pg_process_ok s'" using assms(1,4) pg_service.at_ok [OF assms(1,3)] by auto
  then show "pg_process_ok (pg_process_at s' now)" by (rule pg_service.at_ok) (rule assms(3))
  show "pg_spent (pg_process_at s' now) (b64_encode nb) = None"
    using assms(2,4) by (auto simp: pg_service.nonces.at_spent)
qed

text \<open>
  C2: Uploading through the client works end to end: on a database that answers, a client of the
  account, with or without cached limits, gets back the place, the digest and the size of what
  the server stored, and the server's log of that device and generation has exactly the
  client's bytes as its new last entry.
\<close>

theorem client_upload_stored:
  assumes "ready_call sw cw ck sk c mux (pg_deps sw cap port) pg_process_at frag fmt w nb ns" and "pg_spent (fst (ww_state w)) (b64_encode nb) = None"
    and "pg_process_ok (fst (ww_state w))" and "L = pg_process_logs (fst (ww_state w)) (ToDERHex sw ck) dev g"
    and "deviceIDPattern dev" and "1 \<le> n" and "n \<le> 2 ^ 30" and "1 \<le> g" and "g \<le> 2 ^ 30" and "name_ok prev"
    and "n = int (length L) + 1" and "data \<noteq> []" and "int (length data) \<le> cap" and "length data < 2 ^ 51"
  shows "\<exists>c' w' t. AppendBytes (wire_host parse) c dev g n prev data w =
       (Inr \<lparr>ar_Seq = n, ar_Sha256 = sha256_hex data, ar_Size = int (length data)\<rparr>, c', w') \<and>
     connected c' cw mux (pg_deps sw cap port) (ToDERHex cw sk) pg_process_at frag fmt \<and> pg_process_ok (fst (ww_state w')) \<and>
     pg_process_logs (fst (ww_state w')) (ToDERHex sw ck) dev g = L @ [\<lparr>s_data = data, s_prev = prev, s_created = t\<rparr>]"
proof -
  have now: "time_zero < ww_now w" using assms(1) by (simp add: ready_call_def)
  have cap: "int (length data) \<le> MaxBlobBytes (pg_deps sw cap port)" using assms(13) by simp
  from pg_service.client_upload [OF assms(1) pg_deps_sel(2,3) pg_nonces_ready [OF assms(3,2) now] assms(3-12) cap assms(14),
      where parse = parse]
  show ?thesis unfolding assms(4) by (auto simp: pg_service.answered_def logs_append_def set_log_def log_of_def)
qed

text \<open>
  C19: Downloading through the client gives back exactly the bytes stored at that place of the
  account's log, complete, with their length announced.
\<close>

theorem client_download_exact:
  assumes "ready_call sw cw ck sk c mux (pg_deps sw cap port) pg_process_at frag fmt w nb ns" and "pg_spent (fst (ww_state w)) (b64_encode nb) = None"
    and "pg_process_ok (fst (ww_state w))" and "L = pg_process_logs (fst (ww_state w)) (ToDERHex sw ck) dev g"
    and "deviceIDPattern dev" and "1 \<le> n" and "n \<le> 2 ^ 30" and "1 \<le> g" and "g \<le> 2 ^ 30" and "n \<le> int (length L)"
    and "length (s_data (L ! nat (n - 1))) < 2 ^ 63"
  shows "\<exists>c' w'. Client_Blob (wire_host parse) c dev g n w =
       (Inr ((s_data (L ! nat (n - 1)), EOF), int (length (s_data (L ! nat (n - 1))))), c', w') \<and>
     pg_process_logs (fst (ww_state w')) = pg_process_logs (fst (ww_state w))"
proof -
  have now: "time_zero < ww_now w" using assms(1) by (simp add: ready_call_def)
  from pg_service.client_download [OF assms(1) pg_deps_sel(2,3) pg_nonces_ready [OF assms(3,2) now] assms(3-11), where parse = parse]
  show ?thesis by blast
qed

section \<open>Listing, pruning and erasing through the client\<close>

text \<open>
  C20: What the client lists is what the server holds: \<open>Index\<close> returns the page of the account's
  log that it asks for, entry by entry, and \<open>Manifest\<close> one line for every generation of a device
  that holds entries, each with the numbers, digests and times of the server; neither changes the
  logs. The texts and times have to survive the wire, the numbers to fit 64 bits.
\<close>

theorem client_lists:
  assumes "ready_call sw cw ck sk c mux (pg_deps sw cap port) pg_process_at frag fmt w nb ns" and "pg_spent (fst (ww_state w)) (b64_encode nb) = None"
    and "pg_process_ok (fst (ww_state w))" and "L = pg_process_logs (fst (ww_state w)) (ToDERHex sw ck) dev g"
    and "deviceIDPattern dev" and "1 \<le> g" and "g \<le> 2 ^ 30" and "int4_ok start" and "int64_ok limit"
    and "page = index_page L (if start > 0 then start else 1) (if 1 \<le> limit \<and> limit \<le> 500 then limit else 500)"
    and "\<forall>e \<in> set page. entry_carried fmt parse e"
    and "ds = manifest_of (pg_process_logs (fst (ww_state w))) (ToDERHex sw ck)" and "\<forall>d \<in> set ds. summary_carried fmt parse d"
  shows "(\<exists>c' w'. Client_Index (wire_host parse) c dev g start limit w = (Inr (map entry_seen page), c', w') \<and>
       pg_process_logs (fst (ww_state w')) = pg_process_logs (fst (ww_state w))) \<and>
     (\<exists>c' w'. Client_Manifest (wire_host parse) c w = (Inr (map summary_seen ds), c', w') \<and>
       pg_process_logs (fst (ww_state w')) = pg_process_logs (fst (ww_state w)))"
proof -
  have now: "time_zero < ww_now w" using assms(1) by (simp add: ready_call_def)
  note common = assms(1) pg_deps_sel(2,3) pg_nonces_ready [OF assms(3,2) now]
  show ?thesis
    using pg_service.client_index [OF common assms(3-9) assms(10) [folded DefaultIndexLimit_def] assms(11)]
      pg_service.client_manifest [OF common assms(3,12,13)] by blast
qed

text \<open>
  C21: Pruning through the client obeys the retention rule end to end: a generation inside the
  window is refused with 409 and the reason, one without entries with 404, and any other is
  emptied, alone; a refusal leaves the logs as they are.
\<close>

theorem client_prunes:
  assumes "ready_call sw cw ck sk c mux (pg_deps sw cap port) pg_process_at frag fmt w nb ns" and "pg_spent (fst (ww_state w)) (b64_encode nb) = None"
    and "pg_process_ok (fst (ww_state w))" and "G = device_gens (pg_process_logs (fst (ww_state w))) (ToDERHex sw ck) dev"
    and "deviceIDPattern dev" and "1 \<le> g" and "g \<le> 2 ^ 30" and "\<forall>x \<in> G. x \<le> 2 ^ 30"
  shows "\<exists>res c' w'. Client_PruneGeneration (wire_host parse) c dev g w = (res, c', w') \<and> pg_process_ok (fst (ww_state w')) \<and>
     (if G \<noteq> {} \<and> g > Max G - RetainedGenerations
      then res = Some (APIError 409 ''ERR_RETENTION_GUARD'' (store_err_text (ErrRetentionGuard g (Max G)))) \<and>
        pg_process_logs (fst (ww_state w')) = pg_process_logs (fst (ww_state w))
      else if g \<notin> G
      then res = Some (APIError 404 ''ERR_GENERATION_NOT_FOUND'' ''No such generation.'') \<and>
        pg_process_logs (fst (ww_state w')) = pg_process_logs (fst (ww_state w))
      else res = None \<and>
        pg_process_logs (fst (ww_state w')) = set_log (pg_process_logs (fst (ww_state w))) (ToDERHex sw ck) dev g [])"
proof -
  have now: "time_zero < ww_now w" using assms(1) by (simp add: ready_call_def)
  from pg_service.client_prune [OF assms(1) pg_deps_sel(2,3) pg_nonces_ready [OF assms(3,2) now] assms(3-8), where parse = parse]
  show ?thesis unfolding pg_service.answered_def snd_conv by blast
qed

text \<open>
  C22: Deleting the account through the client returns the number of entries it held, and the
  account holds nothing afterwards, while every other account is as it was.
\<close>

theorem client_erases:
  assumes "ready_call sw cw ck sk c mux (pg_deps sw cap port) pg_process_at frag fmt w nb ns" and "pg_spent (fst (ww_state w)) (b64_encode nb) = None"
    and "pg_process_ok (fst (ww_state w))" and "n = account_rows (pg_process_logs (fst (ww_state w))) (ToDERHex sw ck)" and "int64_ok n"
  shows "\<exists>c' w'. Client_DeleteAccount (wire_host parse) c w = (Inr n, c', w') \<and> pg_process_ok (fst (ww_state w')) \<and>
     (\<forall>p d g. pg_process_logs (fst (ww_state w')) p d g =
       (if p = ToDERHex sw ck then [] else pg_process_logs (fst (ww_state w)) p d g))"
proof -
  have now: "time_zero < ww_now w" using assms(1) by (simp add: ready_call_def)
  from pg_service.client_erase [OF assms(1) pg_deps_sel(2,3) pg_nonces_ready [OF assms(3,2) now] assms(3-5), where parse = parse]
  show ?thesis by (auto simp: pg_service.answered_def erase_account_def)
qed

section \<open>A sample client\<close>

definition demo_router :: mux where
  "demo_router table meth path =
     (if path \<in> {''/v1/limits'', ''/v1/manifest'', ''/v1/account''} then MuxHit path []
      else if meth = ''DELETE''
      then case cut (CHR ''/'') (drop 15 path) of
             (dev, n) \<Rightarrow> MuxHit ''/v1/generation/{deviceId}/{generation}'' [(''deviceId'', dev), (''generation'', n)]
      else if meth = ''POST'' \<or> snd (cut (CHR ''/'') (drop 8 path)) = ''''
      then MuxHit ''/v1/log/{deviceId}'' [(''deviceId'', drop 8 path)]
      else case cut (CHR ''/'') (drop 8 path) of
             (dev, n) \<Rightarrow> MuxHit ''/v1/log/{deviceId}/{seq}'' [(''deviceId'', dev), (''seq'', n)])"

lemma demo_routed: "routed demo_router table"
proof -
  have "CHR ''/'' \<notin> set dev" if "list_all is_lower_hex dev" for dev
    using that by (auto simp: list_all_iff is_lower_hex_def is_digit_def code_of_def)
  moreover have "format_int n \<noteq> ''''" for n by (simp add: format_int_def)
  ultimately show ?thesis by (auto simp: routed_def demo_router_def cut_sep cut_none)
qed

definition demo_caller :: "(pg_process wire, bool, bytes) Client" where
  "demo_caller =
     Client_New (wire_Do demo_router (pg_deps (demo_wallet False) 10 80) ''02'' pg_process_at ''http://b'' [2, 0, 1] (\<lambda>_. ''''))
       (\<lambda>own. Some (demo_wallet own)) ''http://b/'' True []"

definition demo_wire :: "pg_process \<Rightarrow> pg_process wire" where
  "demo_wire s = \<lparr>ww_state = (s, []), ww_now = 0, ww_nonces = [[7]]\<rparr>"

lemma demo_connected:
  "connected demo_caller (demo_wallet True) demo_router (pg_deps (demo_wallet False) 10 80) ''02'' pg_process_at [2, 0, 1] (\<lambda>_. '''')"
proof -
  have "TrimRight ''http://b/'' (CHR ''/'') = ''http://b''" by (simp add: TrimRight_def)
  then show ?thesis
    using demo_routed by (simp add: connected_def demo_caller_def Client_New_def int64_ok_def ascii_def code_of_def)
qed

lemma demo_may_sign: "may_sign (demo_wallet True) False 0 [7]"
  using demo_sign by (auto simp: may_sign_def)

lemma demo_wire_sel [simp]: "ww_state (demo_wire s) = (s, [])" "ww_now (demo_wire s) = 0" "ww_nonces (demo_wire s) = [[7]]"
  by (simp_all add: demo_wire_def)

lemma demo_clock: "int64_ok (unix_milli (0 + Window))" "time_zero < 0"
  by (simp_all add: int64_ok_def unix_milli_def Window_def time_zero_def)

lemma demo_ready:
  "ready_call (demo_wallet False) (demo_wallet True) True False demo_caller demo_router (pg_deps (demo_wallet False) 10 80)
     pg_process_at [2, 0, 1] (\<lambda>_. '''') (demo_wire s) [7] []"
  using demo_ok demo_pair demo_client demo_connected demo_clock demo_may_sign by (simp add: ready_call_def)

lemma demo_pg_unspent: "pg_spent demo_pg n = None"
  by (simp add: demo_pg_def fresh_database_def empty_tables_def spent_in_def)

theorem client_upload_stored_witness:
  "\<exists>c' w' t. AppendBytes (wire_host (\<lambda>_. None)) demo_caller demo_device 1 1 '''' demo_data (demo_wire demo_pg) =
       (Inr \<lparr>ar_Seq = 1, ar_Sha256 = sha256_hex demo_data, ar_Size = 3\<rparr>, c', w') \<and>
     pg_process_logs (fst (ww_state w')) ''03'' demo_device 1 = [\<lparr>s_data = demo_data, s_prev = '''', s_created = t\<rparr>]"
proof -
  from client_upload_stored [where L = "[]" and dev = demo_device and n = 1 and g = 1 and prev = "''''" and data = demo_data
      and parse = "\<lambda>_. None", OF demo_ready [of demo_pg]]
  show ?thesis
    using demo_pg_unspent demo_states demo_device_ok by auto
qed

theorem client_download_exact_witness:
  "\<exists>db c' w'. pg_process_logs (db, []) ''03'' demo_device 1 = [\<lparr>s_data = demo_data, s_prev = '''', s_created = 1\<rparr>] \<and>
     Client_Blob (wire_host (\<lambda>_. None)) demo_caller demo_device 1 1 (demo_wire (db, [])) = (Inr ((demo_data, EOF), 3), c', w')"
proof -
  obtain db where db: "pg_process_ok (db, [])" "pg_spent (db, []) (b64_encode [7]) = None"
    "pg_process_logs (db, []) ''03'' demo_device 1 = [\<lparr>s_data = demo_data, s_prev = '''', s_created = 1\<rparr>]"
    using demo_stored by (auto simp: spent_in_def logs_append_def set_log_def log_of_def)
  from client_download_exact [where L = "[\<lparr>s_data = demo_data, s_prev = '''', s_created = 1\<rparr>]" and dev = demo_device and n = 1
      and g = 1 and parse = "\<lambda>_. None", OF demo_ready [of "(db, [])"]]
  show ?thesis using db demo_device_ok by auto
qed

text \<open>A server that holds the sample entry of the client's account and nothing else.\<close>

definition demo_logs :: "logs \<Rightarrow> bool" where
  "demo_logs L \<longleftrightarrow> L ''03'' = (\<lambda>d g. if d = demo_device \<and> g = 1 then [\<lparr>s_data = demo_data, s_prev = '''', s_created = 1\<rparr>] else [])"

lemma demo_stored_at:
  obtains db where "pg_process_ok (db, [])" "pg_spent (db, []) (b64_encode [7]) = None" "demo_logs (pg_process_logs (db, []))"
proof -
  from demo_stored obtain db where db: "pg_process_ok (db, [])" "auth_nonces (db_tables db) = []"
    "pg_process_logs (db, []) = logs_append (\<lambda>_ _ _. []) \<lparr>key_Pseudonym = ''03'', key_DeviceID = demo_device, key_Generation = 1, key_Seq = 1\<rparr>
       \<lparr>s_data = demo_data, s_prev = '''', s_created = 1\<rparr>" by blast
  have "demo_logs (pg_process_logs (db, []))"
    unfolding db(3) by (auto simp: demo_logs_def logs_append_def set_log_def log_of_def fun_eq_iff)
  with db(1,2) show ?thesis by (intro that) (auto simp: spent_in_def)
qed

lemma demo_live: "demo_logs L \<Longrightarrow> live_gens L ''03'' = {(demo_device, 1)}"
  by (auto simp: live_gens_def demo_logs_def)

lemma demo_manifest:
  "demo_logs L \<Longrightarrow> manifest_of L ''03'' = [summary_of demo_device 1 [\<lparr>s_data = demo_data, s_prev = '''', s_created = 1\<rparr>]]"
  by (simp add: manifest_of_def demo_live) (simp add: demo_logs_def)

theorem client_lists_witness:
  "\<exists>db c' w' c2 w2. Client_Index (wire_host (\<lambda>_. Some 1)) demo_caller demo_device 1 0 0 (demo_wire (db, [])) =
       (Inr [\<lparr>ce_Seq = 1, ce_Sha256 = sha256_hex demo_data, ce_PrevSha256 = '''', ce_Size = 3, ce_CreatedAt = 1\<rparr>], c', w') \<and>
     Client_Manifest (wire_host (\<lambda>_. Some 1)) demo_caller (demo_wire (db, [])) =
       (Inr [\<lparr>cd_DeviceID = demo_device, cd_Generation = 1, cd_HeadSeq = 1, cd_HeadSha256 = sha256_hex demo_data,
              cd_TotalBytes = 3, cd_UpdatedAt = 1\<rparr>], c2, w2)"
proof -
  let ?st = "\<lparr>s_data = demo_data, s_prev = '''', s_created = 1\<rparr>"
  obtain db where db: "pg_process_ok (db, [])" "pg_spent (db, []) (b64_encode [7]) = None" "demo_logs (pg_process_logs (db, []))"
    by (rule demo_stored_at)
  have page: "index_page [?st] 1 500 = [entry_at 0 ?st]" by (simp add: index_page_def log_entries_def entry_at_def)
  have lines: "manifest_of (pg_process_logs (db, [])) ''03'' = [summary_of demo_device 1 [?st]]"
    using db(3) by (rule demo_manifest)
  have seen: "entry_carried (\<lambda>_. '''') (\<lambda>_. Some 1) (entry_at 0 ?st)" "summary_carried (\<lambda>_. '''') (\<lambda>_. Some 1) (summary_of demo_device 1 [?st])"
    using digest_ascii [of demo_data]
    by (auto simp: entry_carried_def summary_carried_def carried_def entry_at_def summary_of_def int64_ok_def ascii_def
        demo_data_def demo_device_def code_of_def)
  from client_lists [where L = "[?st]" and dev = demo_device and g = 1 and start = 0 and limit = 0 and page = "[entry_at 0 ?st]"
      and ds = "[summary_of demo_device 1 [?st]]" and parse = "\<lambda>_. Some 1", OF demo_ready [of "(db, [])"]]
  have "(\<exists>c' w'. Client_Index (wire_host (\<lambda>_. Some 1)) demo_caller demo_device 1 0 0 (demo_wire (db, [])) =
        (Inr [entry_seen (entry_at 0 ?st)], c', w')) \<and>
      (\<exists>c' w'. Client_Manifest (wire_host (\<lambda>_. Some 1)) demo_caller (demo_wire (db, [])) =
        (Inr [summary_seen (summary_of demo_device 1 [?st])], c', w'))"
    using db page lines seen demo_device_ok by (auto simp: demo_logs_def int4_ok_def int64_ok_def)
  then show ?thesis
    by (auto simp: entry_seen_def entry_at_def summary_seen_def summary_of_def demo_data_def)
qed

theorem client_prunes_witness:
  "\<exists>db c' w'. Client_PruneGeneration (wire_host (\<lambda>_. None)) demo_caller demo_device 1 (demo_wire (db, [])) =
       (Some (APIError 409 ''ERR_RETENTION_GUARD'' ''generation is within the retained window: generation 1, newest 1''), c', w') \<and>
     pg_process_logs (fst (ww_state w')) ''03'' demo_device 1 \<noteq> []"
proof -
  obtain db where db: "pg_process_ok (db, [])" "pg_spent (db, []) (b64_encode [7]) = None" "demo_logs (pg_process_logs (db, []))"
    by (rule demo_stored_at)
  have G: "device_gens (pg_process_logs (db, [])) ''03'' demo_device = {1}" using db(3) by (auto simp: device_gens_def demo_logs_def)
  have reason: "store_err_text (ErrRetentionGuard 1 1) = ''generation is within the retained window: generation 1, newest 1''" by code_simp
  from client_prunes [where G = "{1}" and dev = demo_device and g = 1 and parse = "\<lambda>_. None", OF demo_ready [of "(db, [])"]]
  have "\<exists>res c' w'. Client_PruneGeneration (wire_host (\<lambda>_. None)) demo_caller demo_device 1 (demo_wire (db, [])) = (res, c', w') \<and>
      res = Some (APIError 409 ''ERR_RETENTION_GUARD'' (store_err_text (ErrRetentionGuard 1 1))) \<and>
      pg_process_logs (fst (ww_state w')) = pg_process_logs (db, [])"
    using db G demo_device_ok by (auto simp: RetainedGenerations_def simp del: store_err_text.simps)
  then show ?thesis using db(3) unfolding reason by (intro exI [of _ db]) (auto simp: demo_logs_def)
qed

theorem client_erases_witness:
  "\<exists>db c' w'. pg_process_logs (db, []) ''03'' demo_device 1 \<noteq> [] \<and>
     Client_DeleteAccount (wire_host (\<lambda>_. None)) demo_caller (demo_wire (db, [])) = (Inr 1, c', w') \<and>
     pg_process_logs (fst (ww_state w')) ''03'' demo_device 1 = []"
proof -
  obtain db where db: "pg_process_ok (db, [])" "pg_spent (db, []) (b64_encode [7]) = None" "demo_logs (pg_process_logs (db, []))"
    by (rule demo_stored_at)
  have rows: "account_rows (pg_process_logs (db, [])) ''03'' = 1" using demo_live [OF db(3)] db(3) by (simp add: account_rows_def demo_logs_def)
  from client_erases [where n = 1 and parse = "\<lambda>_. None", OF demo_ready [of "(db, [])"]] db rows
  have "\<exists>c' w'. Client_DeleteAccount (wire_host (\<lambda>_. None)) demo_caller (demo_wire (db, [])) = (Inr 1, c', w') \<and>
      pg_process_logs (fst (ww_state w')) ''03'' demo_device 1 = []" by (auto simp: int64_ok_def)
  then show ?thesis using db(3) by (intro exI [of _ db]) (auto simp: demo_logs_def)
qed

end
