(* ===== verification/Concurrent_Memory.thy ===== *)
theory Concurrent_Memory
  imports Memory_Store
begin

text \<open>
  Calls of the in-memory store that overlap (memory.go). \<open>Append\<close> holds the lock twice, for an
  advisory check before it drains the body and for the authoritative one with the write, and
  not in between; every other operation holds it throughout. A call is a state machine with one
  step per section of the code that no other call can interleave with, and the system is
  any number of calls on one store, advanced in any order.

  What is proved is linearizability: the replies are those of the same calls executed one after
  another, each at a point between its invocation and its return.
\<close>

section \<open>The system\<close>

text \<open>
  Where a call is: made, past the advisory check, with its body drained, or returned (at a
  step of the system). Only \<open>Append\<close> is ever between the first and the last.
\<close>

datatype progress =
    Called
  | Checked
  | Drained bytes
  | Returned store_reply nat

fun advance :: "nat \<Rightarrow> MemoryStore \<Rightarrow> store_op \<Rightarrow> progress \<Rightarrow> progress \<times> MemoryStore" where
  "advance t m (OpAppend k prev body) Called =
     (case MemoryStore_check m k of
        Some e \<Rightarrow> (Returned (RAppend (Inl e)) t, m)
      | None \<Rightarrow> (Checked, m))"
| "advance t m (OpAppend k prev body) Checked =
     (case ReadAll body of
        (Inl e, _) \<Rightarrow> (Returned (RAppend (Inl (ErrReadBody e))) t, m)
      | (Inr data, _) \<Rightarrow>
          if data = [] then (Returned (RAppend (Inl ErrEmptyBlob)) t, m) else (Drained data, m))"
| "advance t m (OpAppend k prev body) (Drained data) =
     (case MemoryStore_commit m k prev data of (res, m') \<Rightarrow> (Returned (RAppend res) t, m'))"
| "advance t m op Called = (case apply_op memory_ops m op of (reply, m') \<Rightarrow> (Returned reply t, m'))"
| "advance t m op p = (p, m)"

record call =
  call_op :: store_op
  call_invoked :: nat
  call_progress :: progress

record memory_system =
  sys_store :: MemoryStore
  sys_calls :: "nat \<rightharpoonup> call"
  sys_steps :: nat

definition idle_system :: "MemoryStore \<Rightarrow> memory_system" where
  "idle_system m = \<lparr>sys_store = m, sys_calls = Map.empty, sys_steps = 0\<rparr>"

inductive sys_step :: "memory_system \<Rightarrow> memory_system \<Rightarrow> bool" where
  invoke: "sys_calls s i = None \<Longrightarrow>
    sys_step s \<lparr>sys_store = sys_store s,
      sys_calls = (sys_calls s)(i \<mapsto> \<lparr>call_op = op, call_invoked = sys_steps s, call_progress = Called\<rparr>),
      sys_steps = Suc (sys_steps s)\<rparr>"
| clock: "sys_step s (s\<lparr>sys_store := mem_at (sys_store s) now\<rparr>)"
| run: "sys_calls s i = Some c \<Longrightarrow>
    advance (sys_steps s) (sys_store s) (call_op c) (call_progress c) = (p, m) \<Longrightarrow>
    sys_step s \<lparr>sys_store = m, sys_calls = (sys_calls s)(i \<mapsto> c\<lparr>call_progress := p\<rparr>),
      sys_steps = Suc (sys_steps s)\<rparr>"

inductive sys_reaches :: "memory_system \<Rightarrow> memory_system \<Rightarrow> bool" for s where
  start: "sys_reaches s s"
| more: "sys_reaches s s' \<Longrightarrow> sys_step s' s'' \<Longrightarrow> sys_reaches s s''"

section \<open>Sequential histories\<close>

text \<open>A linearization point: the step at which a call takes effect, and its reply there.\<close>

record point =
  pt_step :: nat
  pt_call :: nat
  pt_now :: time
  pt_op :: store_op
  pt_reply :: store_reply

definition requests :: "point list \<Rightarrow> (time \<times> store_op) list" where
  "requests h = map (\<lambda>p. (pt_now p, pt_op p)) h"

lemma requests_append [simp]: "requests (h @ [p]) = requests h @ [(pt_now p, pt_op p)]"
  by (simp add: requests_def)

lemma run_ops_snoc:
  "run_ops ops at s (reqs @ [(now, op)]) =
     (case run_ops ops at s reqs of (rs, s') \<Rightarrow> (case apply_op ops (at s' now) op of (r, s'') \<Rightarrow> (rs @ [r], s'')))"
  by (induction reqs arbitrary: s) (auto simp: split: prod.splits)

lemma mem_at_at [simp]: "mem_at (mem_at m a) b = mem_at m b" "mem_at m (ms_now m) = m" "ms_now (mem_at m a) = a"
  by (simp_all add: mem_at_def)

text \<open>What draining a body ends in when nothing is to be committed.\<close>

definition body_failure :: "reader \<Rightarrow> store_err option" where
  "body_failure body =
     (case ReadAll body of
        (Inl e, _) \<Rightarrow> Some (ErrReadBody e)
      | (Inr data, _) \<Rightarrow> if data = [] then Some ErrEmptyBlob else None)"

lemma append_atomically:
  "MemoryStore_check m k = Some e \<Longrightarrow> apply_op memory_ops m (OpAppend k prev body) = (RAppend (Inl e), m)"
  "MemoryStore_check m k = None \<Longrightarrow> body_failure body = Some e \<Longrightarrow>
     apply_op memory_ops m (OpAppend k prev body) = (RAppend (Inl e), m)"
  "body_failure body = None \<Longrightarrow> fst (ReadAll body) = Inr data \<Longrightarrow> MemoryStore_commit m k prev data = (res, m') \<Longrightarrow>
     apply_op memory_ops m (OpAppend k prev body) = (RAppend res, m')"
  by (auto simp: memory_ops_def MemoryStore_Append_def MemoryStore_commit_def body_failure_def Let_def
      split: prod.splits option.splits sum.splits if_splits)

section \<open>The simulation\<close>

text \<open>A call that has taken effect, and one that has not.\<close>

definition fits :: "point \<Rightarrow> call \<Rightarrow> bool" where
  "fits p c \<longleftrightarrow> call_op c = pt_op p \<and> call_invoked c \<le> pt_step p \<and>
     (case call_progress c of
        Returned r t \<Rightarrow> r = pt_reply p \<and> pt_step p \<le> t
      | Checked \<Rightarrow> (\<exists>k prev body e. call_op c = OpAppend k prev body \<and> body_failure body = Some e \<and>
          pt_reply p = RAppend (Inl e))
      | _ \<Rightarrow> False)"

definition waits :: "call \<Rightarrow> bool" where
  "waits c \<longleftrightarrow>
     (case call_progress c of
        Called \<Rightarrow> True
      | Checked \<Rightarrow> (\<exists>k prev body. call_op c = OpAppend k prev body \<and> body_failure body = None)
      | Drained data \<Rightarrow> (\<exists>k prev body. call_op c = OpAppend k prev body \<and> body_failure body = None \<and>
          fst (ReadAll body) = Inr data)
      | Returned r t \<Rightarrow> False)"

definition linearizes :: "MemoryStore \<Rightarrow> point list \<Rightarrow> memory_system \<Rightarrow> bool" where
  "linearizes m0 h s \<longleftrightarrow>
     (\<exists>m1. run_ops memory_ops mem_at m0 (requests h) = (map pt_reply h, m1) \<and>
        mem_at m1 (ms_now (sys_store s)) = sys_store s) \<and>
     distinct (map pt_call h) \<and> sorted (map pt_step h) \<and>
     (\<forall>p \<in> set h. pt_step p < sys_steps s \<and> (\<exists>c. sys_calls s (pt_call p) = Some c \<and> fits p c)) \<and>
     (\<forall>i c. sys_calls s i = Some c \<longrightarrow> call_invoked c < sys_steps s \<and> (i \<in> pt_call ` set h \<or> waits c))"

lemma linearizes_idle: "linearizes m [] (idle_system m)"
  by (simp add: linearizes_def idle_system_def requests_def)

lemma linearizes_call:
  assumes "linearizes m0 h s" and "sys_calls s i = Some c" and "i \<notin> pt_call ` set h"
  shows "waits c" and "call_invoked c < sys_steps s"
  using assms by (auto simp: linearizes_def)

lemma linearizes_point:
  assumes "linearizes m0 h s" and "p \<in> set h" and "sys_calls s (pt_call p) = Some c"
  shows "fits p c"
  using assms by (auto simp: linearizes_def)

text \<open>A step that takes effect, a step that does not, and a step after the effect.\<close>

lemma linearizes_effect:
  assumes lin: "linearizes m0 h s" and i: "i \<notin> pt_call ` set h"
    and eff: "apply_op memory_ops (sys_store s) op = (reply, m)"
    and fit: "fits \<lparr>pt_step = sys_steps s, pt_call = i, pt_now = ms_now (sys_store s), pt_op = op, pt_reply = reply\<rparr> c"
  shows "linearizes m0 (h @ [\<lparr>pt_step = sys_steps s, pt_call = i, pt_now = ms_now (sys_store s), pt_op = op, pt_reply = reply\<rparr>])
     \<lparr>sys_store = m, sys_calls = (sys_calls s)(i \<mapsto> c), sys_steps = Suc (sys_steps s)\<rparr>"
proof -
  from lin obtain m1 where m1: "run_ops memory_ops mem_at m0 (requests h) = (map pt_reply h, m1)"
    "mem_at m1 (ms_now (sys_store s)) = sys_store s" by (auto simp: linearizes_def)
  have "call_invoked c \<le> sys_steps s" using fit by (simp add: fits_def)
  moreover have "\<forall>p \<in> set h. pt_call p \<noteq> i" using i by auto
  ultimately show ?thesis
    using lin m1 eff fit
    by (auto simp: linearizes_def run_ops_snoc sorted_append less_imp_le intro: less_SucI)
qed

lemma linearizes_silent:
  assumes "linearizes m0 h s" and "i \<notin> pt_call ` set h" and "waits c" and "call_invoked c \<le> sys_steps s"
  shows "linearizes m0 h \<lparr>sys_store = sys_store s, sys_calls = (sys_calls s)(i \<mapsto> c), sys_steps = Suc (sys_steps s)\<rparr>"
  using assms by (auto simp: linearizes_def intro: less_SucI)

lemma linearizes_after:
  assumes "linearizes m0 h s" and "p \<in> set h" and "fits p c" and "call_invoked c \<le> sys_steps s"
  shows "linearizes m0 h
     \<lparr>sys_store = sys_store s, sys_calls = (sys_calls s)(pt_call p \<mapsto> c), sys_steps = Suc (sys_steps s)\<rparr>"
proof -
  have "q = p" if "q \<in> set h" "pt_call q = pt_call p" for q
    using assms(1,2) that by (auto simp: linearizes_def distinct_map dest: inj_onD)
  with assms show ?thesis by (auto simp: linearizes_def intro: less_SucI)
qed

text \<open>One step of a call that has not taken effect.\<close>

lemma advance_waiting:
  assumes "waits c" and adv: "advance t m (call_op c) (call_progress c) = (p, m')"
    and inv: "call_invoked c \<le> t"
  obtains (effect) reply where "apply_op memory_ops m (call_op c) = (reply, m')"
      "\<And>i now. fits \<lparr>pt_step = t, pt_call = i, pt_now = now, pt_op = call_op c, pt_reply = reply\<rparr> (c\<lparr>call_progress := p\<rparr>)"
    | (silent) "m' = m" "waits (c\<lparr>call_progress := p\<rparr>)"
proof (cases "call_progress c")
  case Called
  show thesis
  proof (cases "\<exists>k prev body. call_op c = OpAppend k prev body")
    case True
    then obtain k prev body where op: "call_op c = OpAppend k prev body" by blast
    show thesis
    proof (cases "MemoryStore_check m k")
      case (Some e)
      with adv op Called have "p = Returned (RAppend (Inl e)) t" "m' = m" by simp_all
      with append_atomically(1) [OF Some] op inv show thesis by (intro effect) (auto simp: fits_def)
    next
      case None
      with adv op Called have p: "p = Checked" "m' = m" by simp_all
      show thesis
      proof (cases "body_failure body")
        case fail: (Some e)
        from append_atomically(2) [OF None this] op p inv fail show thesis by (intro effect) (auto simp: fits_def)
      qed (use p op in \<open>auto intro!: silent simp: waits_def\<close>)
    qed
  next
    case False
    obtain reply m1 where "apply_op memory_ops m (call_op c) = (reply, m1)" by force
    moreover have "advance t m (call_op c) Called = (Returned (fst (apply_op memory_ops m (call_op c))) t,
        snd (apply_op memory_ops m (call_op c)))"
      using False by (cases "call_op c") (simp_all add: case_prod_unfold del: apply_op.simps)
    ultimately show thesis using adv Called inv by (intro effect) (auto simp: fits_def)
  qed
next
  case Checked
  with assms(1) obtain k prev body where op: "call_op c = OpAppend k prev body" "body_failure body = None"
    by (auto simp: waits_def)
  then obtain data where "fst (ReadAll body) = Inr data" "data \<noteq> []"
    by (auto simp: body_failure_def split: prod.splits sum.splits if_splits)
  with adv op Checked have "p = Drained data" "m' = m" by (auto split: prod.splits)
  with op \<open>fst (ReadAll body) = Inr data\<close> show thesis by (intro silent) (auto simp: waits_def)
next
  case (Drained data)
  with assms(1) obtain k prev body where op: "call_op c = OpAppend k prev body" "body_failure body = None"
    "fst (ReadAll body) = Inr data" by (auto simp: waits_def)
  obtain res m1 where com: "MemoryStore_commit m k prev data = (res, m1)" by force
  with adv op Drained have "p = Returned (RAppend res) t" "m' = m1" by simp_all
  with append_atomically(3) [OF op(2,3) com] op(1) inv show thesis by (intro effect) (auto simp: fits_def)
qed (use assms(1) in \<open>simp add: waits_def\<close>)

text \<open>And one that has: its reply does not change, and it touches nothing.\<close>

lemma advance_returned: "advance t m op (Returned r t') = (Returned r t', m)"
  by (cases op) simp_all

lemma advance_effected:
  assumes "fits q c" and adv: "advance t m (call_op c) (call_progress c) = (p, m')" and "pt_step q \<le> t"
  shows "m' = m \<and> fits q (c\<lparr>call_progress := p\<rparr>)"
proof (cases "call_progress c")
  case (Returned r t')
  then have "p = call_progress c" "m' = m" using adv by (simp_all add: advance_returned)
  with assms(1) show ?thesis by simp
next
  case Checked
  with assms(1) obtain k prev body e where op: "call_op c = OpAppend k prev body" "body_failure body = Some e"
    "pt_reply q = RAppend (Inl e)" unfolding fits_def by (simp only: progress.case) metis
  with adv Checked have "p = Returned (RAppend (Inl e)) t \<and> m' = m"
    by (auto simp: body_failure_def split: prod.splits sum.splits if_splits)
  with assms(1,3) op show ?thesis by (auto simp: fits_def)
qed (use assms(1) in \<open>simp_all add: fits_def\<close>)

lemma linearizes_step:
  assumes lin: "linearizes m0 h s" and step: "sys_step s s'"
  shows "\<exists>h'. linearizes m0 (h @ h') s'"
  using step
proof (cases rule: sys_step.cases)
  case (invoke i op)
  have "i \<notin> pt_call ` set h" using lin invoke(2) by (auto simp: linearizes_def)
  then have "linearizes m0 h s'" unfolding invoke(1) by (intro linearizes_silent [OF lin]) (simp_all add: waits_def)
  then show ?thesis by (intro exI [of _ "[]"]) simp
next
  case (clock now)
  have "linearizes m0 h s'"
    using lin unfolding clock linearizes_def by (auto, metis mem_at_at(1))
  then show ?thesis by (intro exI [of _ "[]"]) simp
next
  case (run i c p m)
  show ?thesis
  proof (cases "i \<in> pt_call ` set h")
    case True
    then obtain q where q: "q \<in> set h" "i = pt_call q" by blast
    have fit: "fits q c" using linearizes_point [OF lin q(1)] run(2) q(2) by simp
    have le: "pt_step q \<le> sys_steps s" "call_invoked c \<le> sys_steps s"
      using lin run(2) q(1) by (auto simp: linearizes_def intro!: less_imp_le)
    from advance_effected [OF fit run(3) le(1)] linearizes_after [OF lin q(1), of "c\<lparr>call_progress := p\<rparr>"] le(2)
    have "linearizes m0 h s'" unfolding run(1) q(2) by simp
    then show ?thesis by (intro exI [of _ "[]"]) simp
  next
    case False
    note w = linearizes_call [OF lin run(2) False]
    from w(1) run(3) less_imp_le [OF w(2)] show ?thesis
    proof (cases rule: advance_waiting)
      case (effect reply)
      from linearizes_effect [OF lin False effect(1) effect(2)] show ?thesis unfolding run(1) by blast
    next
      case silent
      from linearizes_silent [OF lin False silent(2)] w(2) have "linearizes m0 h s'" unfolding run(1) silent(1) by simp
      then show ?thesis by (intro exI [of _ "[]"]) simp
    qed
  qed
qed

lemma linearizes_reaches:
  assumes "sys_reaches (idle_system m0) s"
  shows "\<exists>h. linearizes m0 h s"
  using assms by (induction rule: sys_reaches.induct) (use linearizes_idle linearizes_step in blast)+

section \<open>Linearizability\<close>

text \<open>A schedule: the calls that take the next steps.\<close>

fun schedule :: "memory_system \<Rightarrow> nat list \<Rightarrow> memory_system" where
  "schedule s [] = s"
| "schedule s (i # is) =
     (case sys_calls s i of
        None \<Rightarrow> schedule s is
      | Some c \<Rightarrow>
          (case advance (sys_steps s) (sys_store s) (call_op c) (call_progress c) of
             (p, m) \<Rightarrow>
               schedule \<lparr>sys_store = m, sys_calls = (sys_calls s)(i \<mapsto> c\<lparr>call_progress := p\<rparr>),
                 sys_steps = Suc (sys_steps s)\<rparr> is))"

lemma schedule_reaches: "sys_reaches s0 s \<Longrightarrow> sys_reaches s0 (schedule s is)"
proof (induction "is" arbitrary: s)
  case (Cons i "is")
  then show ?case
    using sys_reaches.more [OF Cons.prems sys_step.run] by (auto split: option.splits prod.splits)
qed simp

text \<open>
  C5: The in-memory store is linearizable: whatever calls overlap, with bodies drained while
  others write, the replies are those of the same operations executed one at a time on the
  store, in an order in which each call that returned has its place at a step between its
  invocation and its return, and the store ends as that sequential run leaves it (up to the
  clock, which goes on).
\<close>

theorem memory_linearizable:
  assumes "sys_reaches (idle_system m0) s"
  shows "\<exists>h m1. run_ops memory_ops mem_at m0 (requests h) = (map pt_reply h, m1) \<and>
     mem_at m1 (ms_now (sys_store s)) = sys_store s \<and> distinct (map pt_call h) \<and> sorted (map pt_step h) \<and>
     (\<forall>p \<in> set h. \<exists>c. sys_calls s (pt_call p) = Some c \<and> call_op c = pt_op p \<and> call_invoked c \<le> pt_step p) \<and>
     (\<forall>i c r t. sys_calls s i = Some c \<and> call_progress c = Returned r t \<longrightarrow>
        (\<exists>p \<in> set h. pt_call p = i \<and> pt_reply p = r \<and> pt_step p \<le> t))"
proof -
  obtain h where lin: "linearizes m0 h s" using linearizes_reaches [OF assms] by blast
  have returned: "\<exists>p \<in> set h. pt_call p = i \<and> pt_reply p = r \<and> pt_step p \<le> t"
    if "sys_calls s i = Some c" "call_progress c = Returned r t" for i c r t
  proof -
    have "i \<in> pt_call ` set h" using linearizes_call(1) [OF lin that(1)] that(2) by (auto simp: waits_def)
    then obtain p where p: "p \<in> set h" "i = pt_call p" by blast
    with linearizes_point [OF lin p(1)] that show ?thesis by (auto simp: fits_def)
  qed
  from lin obtain m1 where m1: "run_ops memory_ops mem_at m0 (requests h) = (map pt_reply h, m1)"
    "mem_at m1 (ms_now (sys_store s)) = sys_store s" "distinct (map pt_call h)" "sorted (map pt_step h)"
    by (auto simp: linearizes_def)
  have "\<forall>p \<in> set h. \<exists>c. sys_calls s (pt_call p) = Some c \<and> call_op c = pt_op p \<and> call_invoked c \<le> pt_step p"
    using lin unfolding linearizes_def fits_def by blast
  with m1 returned show ?thesis by (intro exI [of _ h] exI [of _ m1]) blast
qed

text \<open>Two uploads of one place, both past the advisory check before either is written.\<close>

definition race_key :: BlobKey where
  "race_key = \<lparr>key_Pseudonym = ''03'', key_DeviceID = ''d'', key_Generation = 1, key_Seq = 1\<rparr>"

definition race :: memory_system where
  "race = \<lparr>sys_store = NewMemoryStore 1,
     sys_calls = [0 \<mapsto> \<lparr>call_op = OpAppend race_key '''' (BytesReader [1]), call_invoked = 0, call_progress = Called\<rparr>,
                  1 \<mapsto> \<lparr>call_op = OpAppend race_key '''' (BytesReader [2]), call_invoked = 1, call_progress = Called\<rparr>],
     sys_steps = 2\<rparr>"

lemma race_reached: "sys_reaches (idle_system (NewMemoryStore 1)) race"
proof -
  let ?s = "\<lparr>sys_store = NewMemoryStore 1,
     sys_calls = [0 \<mapsto> \<lparr>call_op = OpAppend race_key '''' (BytesReader [1]), call_invoked = 0, call_progress = Called\<rparr>],
     sys_steps = 1\<rparr>"
  have one: "sys_step (idle_system (NewMemoryStore 1)) ?s"
    using sys_step.invoke [of "idle_system (NewMemoryStore 1)" 0] by (simp add: idle_system_def)
  have two: "sys_step ?s race"
    using sys_step.invoke [of ?s 1] by (simp add: race_def numeral_2_eq_2)
  show ?thesis using sys_reaches.more [OF sys_reaches.more [OF sys_reaches.start one] two] .
qed

lemma race_run:
  "map_option call_progress (sys_calls (schedule race [0, 1, 0, 1, 0, 1]) 0) =
     Some (Returned (RAppend (Inr (sha256_hex [1], 1))) 6)"
  "map_option call_progress (sys_calls (schedule race [0, 1, 0, 1, 0, 1]) 1) =
     Some (Returned (RAppend (Inl (ErrSeqConflict (ExpectedSeq 2 1)))) 7)"
proof -
  obtain r1 r2 where read: "ReadAll (BytesReader [1]) = (Inr [1], r1)" "ReadAll (BytesReader [2]) = (Inr [2], r2)"
    using ReadAll_stream [of "BytesReader [1]"] ReadAll_stream [of "BytesReader [2]"]
    by (cases "ReadAll (BytesReader [1])", cases "ReadAll (BytesReader [2])") simp
  note compute = race_def race_key_def NewMemoryStore_def MemoryStore_check_def MemoryStore_commit_def headSeqLocked_def
    in_gen_def Let_def read
  show "map_option call_progress (sys_calls (schedule race [0, 1, 0, 1, 0, 1]) 0) =
     Some (Returned (RAppend (Inr (sha256_hex [1], 1))) 6)"
    by (simp add: compute)
  show "map_option call_progress (sys_calls (schedule race [0, 1, 0, 1, 0, 1]) 1) =
     Some (Returned (RAppend (Inl (ErrSeqConflict (ExpectedSeq 2 1)))) 7)"
    by (simp add: compute)
qed

theorem memory_linearizable_witness:
  "\<exists>s h m1. sys_reaches (idle_system (NewMemoryStore 1)) s \<and>
     run_ops memory_ops mem_at (NewMemoryStore 1) (requests h) = (map pt_reply h, m1) \<and>
     RAppend (Inr (sha256_hex [1], 1)) \<in> pt_reply ` set h \<and>
     RAppend (Inl (ErrSeqConflict (ExpectedSeq 2 1))) \<in> pt_reply ` set h"
proof -
  let ?s = "schedule race [0, 1, 0, 1, 0, 1]"
  have reached: "sys_reaches (idle_system (NewMemoryStore 1)) ?s" by (rule schedule_reaches [OF race_reached])
  obtain c0 c1 where c: "sys_calls ?s 0 = Some c0" "call_progress c0 = Returned (RAppend (Inr (sha256_hex [1], 1))) 6"
    "sys_calls ?s 1 = Some c1" "call_progress c1 = Returned (RAppend (Inl (ErrSeqConflict (ExpectedSeq 2 1)))) 7"
    using race_run by (auto simp del: schedule.simps)
  obtain h m1 where h: "run_ops memory_ops mem_at (NewMemoryStore 1) (requests h) = (map pt_reply h, m1)"
    "\<And>i c r t. sys_calls ?s i = Some c \<Longrightarrow> call_progress c = Returned r t \<Longrightarrow> \<exists>p \<in> set h. pt_reply p = r"
    using memory_linearizable [OF reached] by (auto simp del: schedule.simps) blast
  from h(2) [OF c(1,2)] h(2) [OF c(3,4)]
  have "RAppend (Inr (sha256_hex [1], 1)) \<in> pt_reply ` set h"
    "RAppend (Inl (ErrSeqConflict (ExpectedSeq 2 1))) \<in> pt_reply ` set h" by force+
  with reached h(1) show ?thesis by blast
qed

end
