(* ===== verification/Proof_Properties.thy ===== *)
theory Proof_Properties
  imports Samples
begin

text \<open>
  What the auth proof protocol promises: the header form loses nothing, the signed bytes pin
  down the request, what \<open>Verify\<close> accepts is what it says, and a proof made by \<open>Sign\<close> for a
  request is admitted with it.
\<close>

text \<open>
  C34: A proof survives its header form: what \<open>Encode\<close> writes, \<open>Decode\<close> reads back, for every proof of
  ASCII texts with no field empty and an expiry of 64 bits.
\<close>

theorem proof_header_roundtrip:
  assumes "proof_ascii p" and "int64_ok (p_ExpiresAt p)"
    and "p_Action p \<noteq> ''''" and "p_IdentityKey p \<noteq> ''''" and "p_Nonce p \<noteq> ''''" and "p_Signature p \<noteq> ''''"
  shows "Decode (Encode p) = Inr p"
  using assms by (rule Decode_Encode)

lemma upload_proof_fields:
  "proof_ascii upload_proof" "p_ExpiresAt upload_proof = 120000" "p_Action upload_proof \<noteq> ''''"
  "p_IdentityKey upload_proof = ''03''" "p_Nonce upload_proof \<noteq> ''''" "p_Signature upload_proof \<noteq> ''''"
proof -
  let ?a = "Action ''POST'' (''/v1/log/'' @ demo_device @ ''?seq=1&generation=1'') (sha256_hex demo_data)"
  have ne: "?a \<noteq> ''''" by (simp add: Action_def)
  have "c \<in> set (sha256_hex demo_data) \<Longrightarrow> code_of c < 128" for c
    using sha256_hex_lower [of c demo_data] by (auto simp: is_lower_hex_def is_digit_def)
  then have "ascii ?a" by (auto simp: Action_def ascii_def demo_device_def sha_sep_def code_of_def)
  from Sign_fields [OF demo_sign demo_client this _ ne, of "[7]"]
  show "proof_ascii upload_proof" "p_ExpiresAt upload_proof = 120000" "p_Action upload_proof \<noteq> ''''"
    "p_IdentityKey upload_proof = ''03''" "p_Nonce upload_proof \<noteq> ''''" "p_Signature upload_proof \<noteq> ''''"
    using ne by (simp_all add: upload_proof_def, simp_all add: demo_proof_def)
qed

theorem proof_header_roundtrip_witness: "Decode (Encode upload_proof) = Inr upload_proof"
  using upload_proof_fields by (intro proof_header_roundtrip) (simp_all add: int64_ok_def)

text \<open>
  C33: The signature covers everything the server acts on: two requests with the same signed bytes
  have the same method, target, body digest, identity key, expiry and nonce. Methods, targets
  and digests hold no space or line break, and a target does not begin with \<open>sha256=\<close>.
\<close>

theorem signed_bytes_determine:
  assumes "Canonical (Action m u d) k e n = Canonical (Action m' u' d') k' e' n'"
    and "set (m @ u @ d @ m' @ u' @ d') \<inter> {CHR '' '', CHR 0x0A} = {}" and "CHR 0x0A \<notin> set (k @ k')"
    and "\<not> prefix ''sha256='' u" and "\<not> prefix ''sha256='' u'"
  shows "m = m' \<and> u = u' \<and> d = d' \<and> k = k' \<and> e = e' \<and> n = n'"
proof -
  have nl: "CHR 0x0A \<notin> set (Action m u d)" "CHR 0x0A \<notin> set (Action m' u' d')"
    using assms(2) by (auto simp: Action_def sha_sep_def)
  from Canonical_inject [OF assms(1) nl(1) _ nl(2)] assms(3)
  have eq: "Action m u d = Action m' u' d'" "k = k' \<and> e = e' \<and> n = n'" by auto
  moreover have "m = m' \<and> u = u' \<and> d = d'"
    by (rule Action_inject [OF eq(1)]) (use assms(2,4,5) in auto)
  ultimately show ?thesis by blast
qed

theorem signed_bytes_determine_witness:
  "\<exists>m u d. Canonical (Action m u d) ''03'' 5 ''n'' = Canonical (Action ''GET'' ''/v1/log'' '''') ''03'' 5 ''n'' \<and>
     m = ''GET'' \<and> u = ''/v1/log'' \<and> d = ''''"
proof (intro exI conjI)
  let ?same = "Canonical (Action ''GET'' ''/v1/log'' '''') ''03'' 5 ''n'' = Canonical (Action ''GET'' ''/v1/log'' '''') ''03'' 5 ''n''"
  show ?same by simp
  from signed_bytes_determine [OF this]
  show "''GET'' = ''GET''" "''/v1/log'' = ''/v1/log''" "'''' = ''''" by simp_all
qed

text \<open>
  C32: A proof that verifies describes the request it came with, has not expired, expires within the
  window and the allowed skew, and carries a signature that the SDK accepts, for the identity
  returned, of exactly the bytes that fix the request.
\<close>

theorem verify_sound:
  assumes "Verify sdk p expected now = Inr identity" and "0 \<le> now" and "int64_ok (p_ExpiresAt p)"
  shows "p_Action p = expected \<and> unix_milli now < p_ExpiresAt p \<and> p_ExpiresAt p \<le> unix_milli now + 150000 \<and>
     PublicKeyFromString sdk (p_IdentityKey p) = Some identity \<and>
     (\<exists>der sig. b64_decode (p_Signature p) = Some der \<and> ParseDERSignature sdk der = Some sig \<and>
        VerifySignature sdk ProtocolName (p_Nonce p) identity
          (Canonical expected (p_IdentityKey p) (p_ExpiresAt p) (p_Nonce p)) sig = Some True)"
  using Verify_sound [OF assms] by blast

theorem verify_sound_witness:
  "Verify (demo_wallet False) upload_proof (p_Action upload_proof) 0 = Inr True \<and>
   unix_milli 0 < p_ExpiresAt upload_proof"
proof
  show ok: "Verify (demo_wallet False) upload_proof (p_Action upload_proof) 0 = Inr True"
    unfolding upload_proof_def
    by (rule Verify_Sign [OF demo_pair, where now = 0 and nb = "[7]"])
      (use demo_sign in \<open>simp_all add: demo_proof_def unix_milli_def Window_def\<close>)
  from verify_sound [OF this] upload_proof_fields(2)
  show "unix_milli 0 < p_ExpiresAt upload_proof" by (simp add: int64_ok_def)
qed

text \<open>
  A proof made by \<open>Sign\<close> for a request is admitted with it: on the server of the key it was made
  for, within the window, when the nonce is new, the middleware hands the request to its
  handler for the signer's account and no other.
\<close>

theorem signed_request_admitted:
  assumes "sdk_pair cw sw ck sk" and "sdk_client cw"
    and "Sign cw (ToDERHex cw sk) (Action (rq_Method r) (RequestURI r) digest) now (Some nb) = Inr p"
    and "ascii (rq_Method r)" and "ascii (RequestURI r)" and "CHR '' '' \<notin> set (rq_Method r @ RequestURI r)"
    and "\<not> prefix ''sha256='' (RequestURI r)"
    and "digest = '''' \<or> sha256HexPattern digest" and "rq_Method r = ''POST'' \<longrightarrow> digest \<noteq> ''''"
    and "first_value (rq_Header r) Header = Encode p" and "nb \<noteq> []"
    and "unix_milli now \<le> unix_milli (rq_Now r)" and "unix_milli (rq_Now r) < unix_milli (now + Window)"
    and "int64_ok (unix_milli (now + Window))"
    and "ns_Consume nonces s (p_Nonce p) (p_ExpiresAt p * 1000000) = (Inr True, s1)"
  shows "AuthProof sw nonces next s r w = next s1 (authed r p ck) w"
  by (rule AuthProof_admits [OF signed_admitted [OF assms(1-5) _ _ assms(7-15)]]) (use assms(6) in simp_all)

theorem signed_request_admitted_witness:
  "\<exists>s1. AuthProof (demo_wallet False) pg_nonces 
       (\<lambda>s r w. (s, set_header ''who'' (ToDERHex (demo_wallet False) (the (rq_Identity r))) w)) demo_pg
       (demo_upload demo_data) (Base new_response) =
     (s1, set_header ''who'' ''03'' (Base new_response))"
proof -
  obtain s1 where c: "ns_Consume pg_nonces demo_pg (b64_encode [7]) 120000000000 = (Inr True, s1)"
    using demo_pg_consume by blast
  let ?r = "demo_upload demo_data"
  have uri: "rq_Method ?r = ''POST''" "RequestURI ?r = ''/v1/log/'' @ demo_device @ ''?seq=1&generation=1''"
    "first_value (rq_Header ?r) Header = Encode upload_proof" "rq_Now ?r = 0"
    by (simp_all add: demo_upload_def demo_request_def RequestURI_def first_value_def upload_proof_def)
  have p: "p_Nonce upload_proof = b64_encode [7]" "p_ExpiresAt upload_proof = 120000"
    by (simp_all add: upload_proof_def demo_proof_def)
  have sign: "Sign (demo_wallet True) (ToDERHex (demo_wallet True) False)
      (Action (rq_Method ?r) (RequestURI ?r) (sha256_hex demo_data)) 0 (Some [7]) = Inr upload_proof"
    unfolding uri upload_proof_def by (rule demo_sign)
  have "AuthProof (demo_wallet False) pg_nonces nxt demo_pg ?r w = nxt s1 (authed ?r upload_proof True) w"
    for nxt :: "(pg_process, bool) handler" and w
    by (rule signed_request_admitted [OF demo_pair demo_client sign])
      (use uri p c hex_pattern_digest [of demo_data] in \<open>simp_all add: ascii_def demo_device_def code_of_def
        unix_milli_def Window_def int64_ok_def\<close>)
  then show ?thesis by (auto simp: authed_def WithIdentityKey_def)
qed

end
