(* ===== verification/Query_Properties.thy ===== *)
theory Query_Properties
  imports Samples
begin

text \<open>
  The properties of the deletes and of the index on the database, as the service answers them
  to an admitted request.
\<close>

section \<open>Samples\<close>

text \<open>A request without a body, and the database with one entry that admits it.\<close>

definition demo_query :: "string \<Rightarrow> string \<Rightarrow> bool request" where
  "demo_query meth path =
     demo_request meth path ''generation=1'' '''' [9]
       (ConnBody \<lparr>c_data = [], c_frag = [], c_final = EOF, c_joined = False\<rparr>)"

definition query_proof :: "string \<Rightarrow> string \<Rightarrow> Proof" where
  "query_proof meth path = demo_proof (Action meth (path @ ''?'' @ ''generation=1'') '''') [9]"

lemma demo_query_sel [simp]: "rq_Method (demo_query meth path) = meth" "rq_ContentLength (demo_query meth path) = -1"
  by (simp_all add: demo_query_def demo_request_def)

lemma demo_query_index:
  "positiveIntParam (demo_query meth path) ''generation'' = Some 1" "optionalIntParam (demo_query meth path) ''from'' 1 = 1"
  by (simp_all add: positiveIntParam_def optionalIntParam_def demo_query_def demo_request_def Query_def query_pair_def cut_def
      first_value_def atoi_def is_digit_def digit_val_def code_of_def Let_def int64_ok_def)

lemma demo_one:
  assumes "meth \<noteq> ''POST''" "ascii meth" "CHR '' '' \<notin> set meth" "ascii path" "CHR '' '' \<notin> set path"
    "path \<noteq> ''''" "\<not> prefix ''sha256='' path" "prefix ''/'' path"
  obtains s s1 where "pg_process_ok s" "admits (demo_wallet False) pg_nonces s (demo_query meth path) (query_proof meth path) True s1"
    "pg_process_logs s ''03'' = (\<lambda>d g. if d = demo_device \<and> g = 1 then [\<lparr>s_data = demo_data, s_prev = '''', s_created = 1\<rparr>] else [])"
proof -
  obtain db where db: "pg_process_ok (db, [])" "auth_nonces (db_tables db) = []"
    "pg_process_logs (db, []) = logs_append (\<lambda>_ _ _. [])
       \<lparr>key_Pseudonym = ''03'', key_DeviceID = demo_device, key_Generation = 1, key_Seq = 1\<rparr>
       \<lparr>s_data = demo_data, s_prev = '''', s_created = 1\<rparr>"
    using demo_stored by blast
  then have "db_faults db = []" by (simp add: pg_process_ok_def pg_ok_def)
  with db(2) obtain s1 where "ns_Consume pg_nonces (db, []) (b64_encode [9]) 120000000000 = (Inr True, s1)"
    using pg_consume_fresh [of "(db, [])" "b64_encode [9]"] demo_nonces by (metis fst_conv)
  with assms have "admits (demo_wallet False) pg_nonces (db, []) (demo_query meth path) (query_proof meth path) True s1"
    unfolding demo_query_def query_proof_def by (intro demo_admitted) (auto simp: ascii_def code_of_def)
  with db show thesis by (intro that) (auto simp: logs_append_def set_log_def log_of_def fun_eq_iff)
qed

section \<open>Deletes\<close>

text \<open>
  C23: An admitted request to prune a generation is answered 409 inside the retained window, 404 when
  the device has no such generation, and otherwise 204; only the last changes a log, and it
  empties exactly the generation the request names.
\<close>

theorem pg_prune:
  assumes "sdk_ok sdk" and "rq_Method r = ''DELETE''" and "rq_ContentLength r \<le> cap"
    and "mux (map fst (routes (pg_deps sdk cap port) key)) ''DELETE'' (rq_EscapedPath r) =
      MuxHit ''/v1/generation/{deviceId}/{generation}'' params"
    and "admits sdk pg_nonces s r pf i s1"
    and "deviceIDPattern (first_value params ''deviceId'')"
    and "parsePathInt (first_value params ''generation'') = Some g"
    and "unsent w" and "within w" and "pg_process_ok s"
    and "G = device_gens (pg_process_logs s) (ToDERHex sdk i) (first_value params ''deviceId'')"
  shows "\<exists>s2 w'. app mux (pg_deps sdk cap port) key s r w = (s2, w', ''/v1/generation/{deviceId}/{generation}'') \<and>
     pg_process_ok s2 \<and>
     (if G \<noteq> {} \<and> g > Max G - RetainedGenerations
      then sent_status w' = Some 409 \<and> pg_process_logs s2 = pg_process_logs s \<and>
        bw_Body (base_of w') = [PieceJson (error_payload ''ERR_RETENTION_GUARD'' (store_err_text (ErrRetentionGuard g (Max G))))]
      else if g \<notin> G then sent_status w' = Some 404 \<and> pg_process_logs s2 = pg_process_logs s \<and>
        bw_Body (base_of w') = [PieceJson (error_payload ''ERR_GENERATION_NOT_FOUND'' ''No such generation.'')]
      else sent_status w' = Some 204 \<and>
        pg_process_logs s2 = set_log (pg_process_logs s) (ToDERHex sdk i) (first_value params ''deviceId'') g [])"
  by (rule pg_service.prune_handled [where d = "pg_deps sdk cap port" and mux = mux and key = key and params = params,
      OF assms(1) _ _ _ assms(2) _ assms(4-11)])
    (use assms(3) in simp_all)

theorem pg_prune_witness:
  "\<exists>s s2 w'. pg_process_logs s ''03'' demo_device 1 \<noteq> [] \<and>
     app (\<lambda>_ _ _. MuxHit ''/v1/generation/{deviceId}/{generation}'' [(''deviceId'', demo_device), (''generation'', ''1'')])
       (pg_deps (demo_wallet False) 10 80) ''02'' s (demo_query ''DELETE'' ''/g'') (Base new_response) =
       (s2, w', ''/v1/generation/{deviceId}/{generation}'') \<and>
     sent_status w' = Some 409 \<and> pg_process_logs s2 = pg_process_logs s"
proof -
  obtain s s1 where s: "pg_process_ok s"
    "admits (demo_wallet False) pg_nonces s (demo_query ''DELETE'' ''/g'') (query_proof ''DELETE'' ''/g'') True s1"
    "pg_process_logs s ''03'' = (\<lambda>d g. if d = demo_device \<and> g = 1 then [\<lparr>s_data = demo_data, s_prev = '''', s_created = 1\<rparr>] else [])"
    by (rule demo_one [of "''DELETE''" "''/g''"]) (auto simp: ascii_def code_of_def)
  have G: "device_gens (pg_process_logs s) ''03'' demo_device = {1}" using s(3) by (auto simp: device_gens_def)
  have p: "first_value [(''deviceId'', demo_device), (''generation'', ''1'')] ''deviceId'' = demo_device"
    "first_value [(''deviceId'', demo_device), (''generation'', ''1'')] ''generation'' = ''1''"
    by (simp_all add: first_value_def)
  have q: "rq_Method (demo_query ''DELETE'' ''/g'') = ''DELETE''" "rq_ContentLength (demo_query ''DELETE'' ''/g'') \<le> 10"
    by simp_all
  obtain s2 w' where "app (\<lambda>_ _ _. MuxHit ''/v1/generation/{deviceId}/{generation}'' [(''deviceId'', demo_device), (''generation'', ''1'')])
       (pg_deps (demo_wallet False) 10 80) ''02'' s (demo_query ''DELETE'' ''/g'') (Base new_response) =
       (s2, w', ''/v1/generation/{deviceId}/{generation}'')" "sent_status w' = Some 409" "pg_process_logs s2 = pg_process_logs s"
    using pg_prune [OF demo_ok q _ s(2) _ _ demo_upload_facts(6,7) s(1) refl, where g = 1
      and mux = "\<lambda>_ _ _. MuxHit ''/v1/generation/{deviceId}/{generation}'' [(''deviceId'', demo_device), (''generation'', ''1'')]"
      and params = "[(''deviceId'', demo_device), (''generation'', ''1'')]" and key = "''02''" and port = 80]
      p G demo_params demo_device_ok by (auto simp: RetainedGenerations_def)
  note fin = this
  show ?thesis by (rule exI [of _ s], rule exI [of _ s2], rule exI [of _ w']) (simp add: fin s(3))
qed

text \<open>
  C24: An admitted request to erase an account is answered 200 with the number of entries the
  account held, and afterwards the account holds nothing while every other is as it was.
\<close>

theorem pg_erase:
  assumes "sdk_ok sdk" and "rq_Method r = ''DELETE''" and "rq_ContentLength r \<le> cap"
    and "mux (map fst (routes (pg_deps sdk cap port) key)) ''DELETE'' (rq_EscapedPath r) = MuxHit ''/v1/account'' params"
    and "admits sdk pg_nonces s r pf i s1" and "unsent w" and "within w" and "pg_process_ok s"
  shows "\<exists>s2 w'. app mux (pg_deps sdk cap port) key s r w = (s2, w', ''/v1/account'') \<and> sent_status w' = Some 200 \<and>
     bw_Body (base_of w') = [PieceJson (PObj [(''deleted'', PNum (account_rows (pg_process_logs s) (ToDERHex sdk i)))])] \<and>
     pg_process_ok s2 \<and> pg_process_logs s2 (ToDERHex sdk i) = (\<lambda>_ _. []) \<and>
     (\<forall>q. q \<noteq> ToDERHex sdk i \<longrightarrow> pg_process_logs s2 q = pg_process_logs s q)"
  using pg_service.erase_handled [where d = "pg_deps sdk cap port" and mux = mux and key = key and params = params,
      OF assms(1) _ _ _ assms(2) _ assms(4-8)] assms(3)
  by (auto simp: erase_account_def)

theorem pg_erase_witness:
  "\<exists>s s2 w'. pg_process_logs s ''03'' demo_device 1 \<noteq> [] \<and>
     app (\<lambda>_ _ _. MuxHit ''/v1/account'' []) (pg_deps (demo_wallet False) 10 80) ''02'' s
       (demo_query ''DELETE'' ''/v1/account'') (Base new_response) = (s2, w', ''/v1/account'') \<and>
     sent_status w' = Some 200 \<and> bw_Body (base_of w') = [PieceJson (PObj [(''deleted'', PNum 1)])] \<and>
     pg_process_logs s2 ''03'' demo_device 1 = []"
proof -
  obtain s s1 where s: "pg_process_ok s"
    "admits (demo_wallet False) pg_nonces s (demo_query ''DELETE'' ''/v1/account'') (query_proof ''DELETE'' ''/v1/account'') True s1"
    "pg_process_logs s ''03'' = (\<lambda>d g. if d = demo_device \<and> g = 1 then [\<lparr>s_data = demo_data, s_prev = '''', s_created = 1\<rparr>] else [])"
    by (rule demo_one [of "''DELETE''" "''/v1/account''"]) (auto simp: ascii_def code_of_def)
  have "live_gens (pg_process_logs s) ''03'' = {(demo_device, 1)}" using s(3) by (auto simp: live_gens_def)
  then have n: "account_rows (pg_process_logs s) ''03'' = 1" using s(3) by (simp add: account_rows_def)
  have q: "rq_Method (demo_query ''DELETE'' ''/v1/account'') = ''DELETE''"
    "rq_ContentLength (demo_query ''DELETE'' ''/v1/account'') \<le> 10" by simp_all
  obtain s2 w' where "app (\<lambda>_ _ _. MuxHit ''/v1/account'' []) (pg_deps (demo_wallet False) 10 80) ''02'' s
       (demo_query ''DELETE'' ''/v1/account'') (Base new_response) = (s2, w', ''/v1/account'')"
    "sent_status w' = Some 200" "bw_Body (base_of w') = [PieceJson (PObj [(''deleted'', PNum 1)])]"
    "pg_process_logs s2 ''03'' demo_device 1 = []"
    using pg_erase [OF demo_ok q _ s(2) demo_upload_facts(6,7) s(1), where mux = "\<lambda>_ _ _. MuxHit ''/v1/account'' []"
      and params = "[]" and key = "''02''" and port = 80] n by auto
  note fin = this
  show ?thesis by (rule exI [of _ s], rule exI [of _ s2], rule exI [of _ w']) (simp add: fin s(3))
qed

section \<open>The index\<close>

lemma pg_index_failing:
  "\<not> int4_ok from \<Longrightarrow> fst (bs_Index pg_store s p d g from limit) \<in> range Inl"
  by (auto simp: pg_store_def tracing_defs postgres_ops_def PostgresStore_Index_def select_index_def checked_def params_err_def
      fetch_def exec_def image_iff split: prod.splits list.splits outcome.splits)

text \<open>
  C25: An admitted request for the index of a log, on a database that answers, is answered 200 with
  the entries of the account's own log from the requested place on, in order, as many as it asks
  for, up to the cap of 500 on a page, which is also taken for a limit it does not give. A place
  that does not fit the column's 32 bits is answered 500 instead. The logs stay as they are.
\<close>

theorem pg_index:
  assumes "sdk_ok sdk" and "rq_Method r = ''GET''" and "rq_ContentLength r \<le> cap"
    and "mux (map fst (routes (pg_deps sdk cap port) key)) ''GET'' (rq_EscapedPath r) = MuxHit ''/v1/log/{deviceId}'' params"
    and "admits sdk pg_nonces s r pf i s1"
    and "deviceIDPattern (first_value params ''deviceId'')" and "positiveIntParam r ''generation'' = Some g"
    and "unsent w" and "within w" and "pg_process_ok s"
  shows "\<exists>s2 w'. app mux (pg_deps sdk cap port) key s r w = (s2, w', ''/v1/log/{deviceId}'') \<and>
     pg_process_ok s2 \<and> pg_process_logs s2 = pg_process_logs s \<and>
     (if int4_ok (optionalIntParam r ''from'' 1)
      then sent_status w' = Some 200 \<and> 1 \<le> Index_limit r \<and> Index_limit r \<le> 500 \<and>
        bw_Body (base_of w') = [PieceJson (PObj
          [(''entries'', PList (map payload_of_entry
             (index_page (pg_process_logs s (ToDERHex sdk i) (first_value params ''deviceId'') g)
               (optionalIntParam r ''from'' 1) (Index_limit r)))),
           (''status'', PText ''success'')])]
      else sent_status w' = Some 500 \<and>
        bw_Body (base_of w') = [PieceJson (error_payload ''ERR_INTERNAL'' ''Could not read the log index.'')])"
proof (cases "int4_ok (optionalIntParam r ''from'' 1)")
  case True
  have "1 \<le> Index_limit r" "Index_limit r \<le> 500" by (simp_all add: Index_limit_def DefaultIndexLimit_def Let_def)
  with pg_service.index_handled [where d = "pg_deps sdk cap port" and mux = mux and key = key and params = params,
      OF assms(1) _ _ _ assms(2) _ assms(4-7) True assms(8-10)] assms(3) True
  show ?thesis by auto
next
  case False
  from pg_service.index_failed [where d = "pg_deps sdk cap port" and mux = mux and key = key and params = params,
      OF assms(1) _ _ _ assms(2) _ assms(4-7) pg_index_failing [OF False] assms(8-10)] assms(3) False
  show ?thesis by auto
qed

theorem pg_index_witness:
  "\<exists>s s2 w' e. app (\<lambda>_ _ _. MuxHit ''/v1/log/{deviceId}'' [(''deviceId'', demo_device)])
       (pg_deps (demo_wallet False) 10 80) ''02'' s (demo_query ''GET'' ''/l'') (Base new_response) =
       (s2, w', ''/v1/log/{deviceId}'') \<and>
     sent_status w' = Some 200 \<and> ent_Seq e = 1 \<and> ent_Sha256 e = sha256_hex demo_data \<and> ent_Size e = 3 \<and>
     bw_Body (base_of w') =
       [PieceJson (PObj [(''entries'', PList [payload_of_entry e]), (''status'', PText ''success'')])]"
proof -
  obtain s s1 where s: "pg_process_ok s"
    "admits (demo_wallet False) pg_nonces s (demo_query ''GET'' ''/l'') (query_proof ''GET'' ''/l'') True s1"
    "pg_process_logs s ''03'' = (\<lambda>d g. if d = demo_device \<and> g = 1 then [\<lparr>s_data = demo_data, s_prev = '''', s_created = 1\<rparr>] else [])"
    by (rule demo_one [of "''GET''" "''/l''"]) (auto simp: ascii_def code_of_def)
  have q: "rq_Method (demo_query ''GET'' ''/l'') = ''GET''" "rq_ContentLength (demo_query ''GET'' ''/l'') \<le> 10" by simp_all
  define limit where "limit = Index_limit (demo_query ''GET'' ''/l'')"
  obtain s2 w' where run: "app (\<lambda>_ _ _. MuxHit ''/v1/log/{deviceId}'' [(''deviceId'', demo_device)])
       (pg_deps (demo_wallet False) 10 80) ''02'' s (demo_query ''GET'' ''/l'') (Base new_response) =
       (s2, w', ''/v1/log/{deviceId}'')" "sent_status w' = Some 200" "1 \<le> limit"
    "bw_Body (base_of w') = [PieceJson (PObj [(''entries'', PList (map payload_of_entry
       (index_page [\<lparr>s_data = demo_data, s_prev = '''', s_created = 1\<rparr>] 1 limit))), (''status'', PText ''success'')])]"
    using pg_index [OF demo_ok q _ s(2) _ demo_query_index(1) demo_upload_facts(6,7) s(1),
        where mux = "\<lambda>_ _ _. MuxHit ''/v1/log/{deviceId}'' [(''deviceId'', demo_device)]"
          and params = "[(''deviceId'', demo_device)]" and key = "''02''" and port = 80]
      demo_query_index(2) demo_device_ok s(3) by (auto simp: int4_ok_def limit_def)
  have "index_page [\<lparr>s_data = demo_data, s_prev = '''', s_created = 1\<rparr>] 1 limit =
      [entry_at 0 \<lparr>s_data = demo_data, s_prev = '''', s_created = 1\<rparr>]"
    using run(3) by (cases "nat limit") (auto simp: index_page_def log_entries_def entry_at_def)
  note page = this
  show ?thesis
    by (rule exI [of _ s], rule exI [of _ s2], rule exI [of _ w'],
        rule exI [of _ "entry_at 0 \<lparr>s_data = demo_data, s_prev = '''', s_created = 1\<rparr>"]) (simp add: run page, simp add: entry_at_def)
qed

section \<open>The manifest\<close>

lemma manifest_lines:
  assumes "finite (live_gens L p)"
  defines "place \<equiv> \<lambda>x. (dev_DeviceID x, dev_Generation x)"
  shows "distinct (map place (manifest_of L p))"
    and "L p d g \<noteq> [] \<longleftrightarrow> (d, g) \<in> place ` set (manifest_of L p)"
    and "x \<in> set (manifest_of L p) \<Longrightarrow> l = L p (dev_DeviceID x) (dev_Generation x) \<Longrightarrow>
      dev_HeadSeq x = int (length l) \<and> dev_HeadSha256 x = sha256_hex (s_data (last l)) \<and>
      dev_TotalBytes x = (\<Sum>st\<leftarrow>l. int (length (s_data st)))"
proof -
  have place: "map place (manifest_of L p) = sorted_list_of_set (live_gens L p)"
    by (auto simp: manifest_of_def place_def summary_of_def comp_def case_prod_unfold)
  then show "distinct (map place (manifest_of L p))" by simp
  show "L p d g \<noteq> [] \<longleftrightarrow> (d, g) \<in> place ` set (manifest_of L p)"
    using assms(1) by (simp add: place [THEN arg_cong [of _ _ set], simplified set_map] live_gens_def)
  show "x \<in> set (manifest_of L p) \<Longrightarrow> l = L p (dev_DeviceID x) (dev_Generation x) \<Longrightarrow>
      dev_HeadSeq x = int (length l) \<and> dev_HeadSha256 x = sha256_hex (s_data (last l)) \<and>
      dev_TotalBytes x = (\<Sum>st\<leftarrow>l. int (length (s_data st)))"
    by (auto simp: manifest_of_def summary_of_def)
qed

text \<open>
  C26: An admitted request for the manifest is answered 200 with one line for each generation of a
  device that holds entries of the account, and no other: its number of entries, the digest of
  the last one, the sum of their sizes. The logs stay as they are.
\<close>

theorem pg_manifest:
  assumes "sdk_ok sdk" and "rq_Method r = ''GET''" and "rq_ContentLength r \<le> cap"
    and "mux (map fst (routes (pg_deps sdk cap port) key)) ''GET'' (rq_EscapedPath r) = MuxHit ''/v1/manifest'' params"
    and "admits sdk pg_nonces s r pf i s1" and "unsent w" and "within w" and "pg_process_ok s"
    and "L = pg_process_logs s (ToDERHex sdk i)"
  shows "\<exists>s2 w' ds. app mux (pg_deps sdk cap port) key s r w = (s2, w', ''/v1/manifest'') \<and>
     sent_status w' = Some 200 \<and> pg_process_ok s2 \<and> pg_process_logs s2 = pg_process_logs s \<and>
     bw_Body (base_of w') =
       [PieceJson (PObj [(''devices'', PList (map payload_of_summary ds)), (''status'', PText ''success'')])] \<and>
     distinct (map (\<lambda>x. (dev_DeviceID x, dev_Generation x)) ds) \<and>
     (\<forall>d g. L d g \<noteq> [] \<longleftrightarrow> (d, g) \<in> (\<lambda>x. (dev_DeviceID x, dev_Generation x)) ` set ds) \<and>
     (\<forall>x \<in> set ds. let l = L (dev_DeviceID x) (dev_Generation x)
        in dev_HeadSeq x = int (length l) \<and> dev_HeadSha256 x = sha256_hex (s_data (last l)) \<and>
           dev_TotalBytes x = (\<Sum>st\<leftarrow>l. int (length (s_data st))))"
proof -
  let ?p = "ToDERHex sdk i" and ?L = "pg_process_logs s"
  have fin: "finite (live_gens ?L ?p)"
    using assms(8) pg.ok_finite by (simp add: pg_process_ok_def pg_process_logs_def)
  from pg_service.manifest_handled [where d = "pg_deps sdk cap port" and mux = mux and key = key and params = params,
      OF assms(1) _ _ _ assms(2) _ assms(4-8)] assms(3)
  obtain s2 w' where "app mux (pg_deps sdk cap port) key s r w = (s2, w', ''/v1/manifest'')"
    "sent_status w' = Some 200" "pg_process_ok s2" "pg_process_logs s2 = pg_process_logs s"
    "bw_Body (base_of w') = [PieceJson (PObj
       [(''devices'', PList (map payload_of_summary (manifest_of ?L ?p))), (''status'', PText ''success'')])]"
    by auto
  with manifest_lines [OF fin] assms(9) show ?thesis
    by (intro exI [of _ s2] exI [of _ w'] exI [of _ "manifest_of ?L ?p"]) (simp only: Let_def, blast)
qed

theorem pg_manifest_witness:
  "\<exists>s s2 w' ds x. app (\<lambda>_ _ _. MuxHit ''/v1/manifest'' []) (pg_deps (demo_wallet False) 10 80) ''02'' s
       (demo_query ''GET'' ''/v1/manifest'') (Base new_response) = (s2, w', ''/v1/manifest'') \<and>
     bw_Body (base_of w') =
       [PieceJson (PObj [(''devices'', PList (map payload_of_summary ds)), (''status'', PText ''success'')])] \<and>
     x \<in> set ds \<and> dev_HeadSeq x = 1 \<and> dev_HeadSha256 x = sha256_hex demo_data \<and> dev_TotalBytes x = 3"
proof -
  obtain s s1 where s: "pg_process_ok s"
    "admits (demo_wallet False) pg_nonces s (demo_query ''GET'' ''/v1/manifest'') (query_proof ''GET'' ''/v1/manifest'') True s1"
    "pg_process_logs s ''03'' = (\<lambda>d g. if d = demo_device \<and> g = 1 then [\<lparr>s_data = demo_data, s_prev = '''', s_created = 1\<rparr>] else [])"
    by (rule demo_one [of "''GET''" "''/v1/manifest''"]) (auto simp: ascii_def code_of_def)
  let ?L = "\<lambda>d (g :: int). if d = demo_device \<and> g = 1 then [\<lparr>s_data = demo_data, s_prev = '''', s_created = 1\<rparr>] else []"
  have q: "rq_Method (demo_query ''GET'' ''/v1/manifest'') = ''GET''" "rq_ContentLength (demo_query ''GET'' ''/v1/manifest'') \<le> 10"
    by simp_all
  have L: "?L = pg_process_logs s (ToDERHex (demo_wallet False) True)" using s(3) by simp
  obtain s2 w' and ds :: "DeviceSummary list" where run: "app (\<lambda>_ _ _. MuxHit ''/v1/manifest'' []) (pg_deps (demo_wallet False) 10 80) ''02'' s
       (demo_query ''GET'' ''/v1/manifest'') (Base new_response) = (s2, w', ''/v1/manifest'')"
    "bw_Body (base_of w') =
       [PieceJson (PObj [(''devices'', PList (map payload_of_summary ds)), (''status'', PText ''success'')])]"
    "\<forall>d g. ?L d g \<noteq> [] \<longleftrightarrow> (d, g) \<in> (\<lambda>x. (dev_DeviceID x, dev_Generation x)) ` set ds"
    "\<forall>x \<in> set ds. let l = ?L (dev_DeviceID x) (dev_Generation x)
        in dev_HeadSeq x = int (length l) \<and> dev_HeadSha256 x = sha256_hex (s_data (last l)) \<and>
           dev_TotalBytes x = (\<Sum>st\<leftarrow>l. int (length (s_data st)))"
    using pg_manifest [where mux = "\<lambda>_ _ _. MuxHit ''/v1/manifest'' []" and params = "[]" and key = "''02''" and port = 80,
      OF demo_ok q refl s(2) demo_upload_facts(6,7) s(1) L] by blast
  have "(demo_device, 1) \<in> (\<lambda>x. (dev_DeviceID x, dev_Generation x)) ` set ds"
    using run(3) [THEN spec, of demo_device, THEN spec, of 1] by simp
  then obtain x where x: "x \<in> set ds" "dev_DeviceID x = demo_device" "dev_Generation x = 1" by auto
  with bspec [OF run(4) x(1)] have "dev_HeadSeq x = 1" "dev_HeadSha256 x = sha256_hex demo_data" "dev_TotalBytes x = 3"
    by (simp_all add: Let_def)
  with run(1,2) x(1) show ?thesis by blast
qed

end
