(* ===== verification/Concurrent_Postgres.thy ===== *)
theory Concurrent_Postgres
  imports Postgres_Contract
begin

text \<open>
  Calls of the PostgreSQL store that overlap (postgres.go), from any number of replicas on one
  database. A call is a transaction advanced one statement at a time, in any order with the
  statements of the others, and may be broken off at any point.

  The transactions of the source run under READ COMMITTED, and the database is modelled by what
  it documents of that level. A statement reads what is committed when it runs, and the
  transaction's own writes; nothing of it is visible to others before COMMIT. Inserting a key
  that a committed row holds fails with SQLSTATE 23505; inserting one that an open transaction
  has inserted or is deleting waits for it to end, as does deleting a row that another open
  transaction is deleting. A statement that waits is a step that is not enabled, and takes its
  snapshot when the wait is over. \<open>now()\<close> is the start of the transaction. The retention
  guard of a prune runs before its transaction, on its own.
\<close>

section \<open>Rows and their keys\<close>

definition chunk_key :: "chunk_row \<Rightarrow> BlobKey" where
  "chunk_key c = \<lparr>key_Pseudonym = ch_pseudonym c, key_DeviceID = ch_device_id c,
     key_Generation = ch_generation c, key_Seq = ch_seq c\<rparr>"

definition log_key :: "log_row \<Rightarrow> BlobKey" where
  "log_key l = \<lparr>key_Pseudonym = l_pseudonym l, key_DeviceID = l_device_id l,
     key_Generation = l_generation l, key_Seq = l_seq l\<rparr>"

section \<open>A call and its transaction\<close>

datatype pg_call =
    AppendCall BlobKey string reader
  | PruneCall string string int
  | EraseCall string

datatype pg_answer =
    Uploaded "store_err + string \<times> int"
  | Removed "store_err + int"

text \<open>
  Where a call is: made; in the loop that streams the body (the chunk number, what was hashed,
  the size so far, the rest of the body); past the loop; past the retention guard and
  \<open>BEGIN\<close> of a delete; past its first \<open>DELETE\<close>; with only \<open>COMMIT\<close> left; answered.
\<close>

datatype stage =
    Opened
  | Streaming int bytes int reader
  | Streamed bytes int
  | Guarded
  | ChunksGone
  | Finished pg_answer
  | Answered pg_answer

text \<open>What a transaction has written and not committed: rows inserted and rows deleted.\<close>

record session =
  ses_call :: pg_call
  ses_now :: time
  ses_stage :: stage
  new_chunks :: "chunk_row list"
  new_log :: "log_row list"
  dead_chunks :: "chunk_row list"
  dead_log :: "log_row list"

definition begun :: "pg_call \<Rightarrow> time \<Rightarrow> session" where
  "begun c now = \<lparr>ses_call = c, ses_now = now, ses_stage = Opened, new_chunks = [], new_log = [],
     dead_chunks = [], dead_log = []\<rparr>"

definition ended :: "session \<Rightarrow> pg_answer \<Rightarrow> session" where
  "ended s a = s\<lparr>ses_stage := Answered a, new_chunks := [], new_log := [], dead_chunks := [], dead_log := []\<rparr>"

text \<open>The tables as a transaction sees them, and as they are once it has committed.\<close>

definition sees :: "tables \<Rightarrow> session \<Rightarrow> tables" where
  "sees t s = t\<lparr>
     blob_log := filter (\<lambda>l. l \<notin> set (dead_log s)) (blob_log t) @ new_log s,
     blob_chunks := filter (\<lambda>c. c \<notin> set (dead_chunks s)) (blob_chunks t) @ new_chunks s\<rparr>"

text \<open>The next statement of an upload.\<close>

definition append_statement :: "tables \<Rightarrow> BlobKey \<Rightarrow> string \<Rightarrow> session \<Rightarrow> reader \<Rightarrow> session" where
  "append_statement t k prev s body =
     (case ses_stage s of
        Opened \<Rightarrow>
          (case select_max_seq (sees t s) k of
             Inl e \<Rightarrow> ended s (Uploaded (Inl (ErrDatabase e)))
           | Inr head \<Rightarrow>
               (let want = (case head of None \<Rightarrow> 1 | Some h \<Rightarrow> h + 1)
                in if key_Seq k \<noteq> want
                   then ended s (Uploaded (Inl (ErrSeqConflict (ExpectedSeq want (key_Seq k)))))
                   else s\<lparr>ses_stage := Streaming 0 [] 0 body\<rparr>))
      | Streaming idx hashed sz rd \<Rightarrow>
          (case ReadFull ChunkBytes rd of
             (buf, readErr, rd') \<Rightarrow>
               (case (if buf \<noteq> [] then insert_chunk (sees t s) k idx buf else Inr (sees t s)) of
                  Inl e \<Rightarrow> ended s (Uploaded (Inl (asSeqConflict e)))
                | Inr _ \<Rightarrow>
                    (let s' = s\<lparr>new_chunks := new_chunks s @ chunk_rows k idx (if buf \<noteq> [] then [buf] else [])\<rparr>;
                         sz' = sz + int (length buf)
                     in case readErr of
                          None \<Rightarrow> s'\<lparr>ses_stage := Streaming (idx + 1) (hashed @ buf) sz' rd'\<rparr>
                        | Some e \<Rightarrow>
                            if e = EOF \<or> e = ErrUnexpectedEOF
                            then (if sz' = 0 then ended s' (Uploaded (Inl ErrEmptyBlob))
                                  else s'\<lparr>ses_stage := Streamed (hashed @ buf) sz'\<rparr>)
                            else ended s' (Uploaded (Inl (ErrReadBody e))))))
      | Streamed hashed sz \<Rightarrow>
          (case insert_log (sees t s) (ses_now s) k (sha256_hex hashed) (nullable prev) sz of
             Inl e \<Rightarrow> ended s (Uploaded (Inl (asSeqConflict e)))
           | Inr _ \<Rightarrow>
               s\<lparr>new_log := [(new_row k prev (ses_now s) hashed)\<lparr>l_size := sz\<rparr>],
                 ses_stage := Finished (Uploaded (Inr (sha256_hex hashed, sz)))\<rparr>)
      | _ \<Rightarrow> s)"

text \<open>The two statements of a delete, and the rows each takes away from what the transaction sees.\<close>

fun delete_chunks_of :: "pg_call \<Rightarrow> tables \<Rightarrow> pq_error + tables" where
  "delete_chunks_of (PruneCall p d g) t = delete_gen_chunks t p d g"
| "delete_chunks_of (EraseCall p) t = delete_account_chunks t p"
| "delete_chunks_of (AppendCall k prev body) t = Inr t"

fun delete_log_of :: "pg_call \<Rightarrow> tables \<Rightarrow> pq_error + tables \<times> int" where
  "delete_log_of (PruneCall p d g) t = delete_gen_log t p d g"
| "delete_log_of (EraseCall p) t = delete_account_log t p"
| "delete_log_of (AppendCall k prev body) t = Inr (t, 0)"

definition missing :: "'a list \<Rightarrow> 'a list \<Rightarrow> 'a list" where
  "missing old new = filter (\<lambda>x. x \<notin> set new) old"

definition doomed_chunks :: "tables \<Rightarrow> session \<Rightarrow> chunk_row list" where
  "doomed_chunks t s =
     (case delete_chunks_of (ses_call s) (sees t s) of
        Inl _ \<Rightarrow> [] | Inr v \<Rightarrow> missing (blob_chunks (sees t s)) (blob_chunks v))"

definition doomed_log :: "tables \<Rightarrow> session \<Rightarrow> log_row list" where
  "doomed_log t s =
     (case delete_log_of (ses_call s) (sees t s) of
        Inl _ \<Rightarrow> [] | Inr (v, _) \<Rightarrow> missing (blob_log (sees t s)) (blob_log v))"

definition guard_refuses :: "tables \<Rightarrow> pg_call \<Rightarrow> store_err option" where
  "guard_refuses t c =
     (case c of
        PruneCall p d g \<Rightarrow>
          (case select_max_generation t p d of
             Inl e \<Rightarrow> Some (ErrDatabase e)
           | Inr (Some n) \<Rightarrow> if g > n - RetainedGenerations then Some (ErrRetentionGuard g n) else None
           | Inr None \<Rightarrow> None)
      | _ \<Rightarrow> None)"

text \<open>The next statement of a prune or an erasure.\<close>

definition delete_statement :: "tables \<Rightarrow> session \<Rightarrow> session" where
  "delete_statement t s =
     (case ses_stage s of
        Opened \<Rightarrow>
          (case guard_refuses t (ses_call s) of
             Some e \<Rightarrow> ended s (Removed (Inl e))
           | None \<Rightarrow> s\<lparr>ses_stage := Guarded\<rparr>)
      | Guarded \<Rightarrow>
          (case delete_chunks_of (ses_call s) (sees t s) of
             Inl e \<Rightarrow> ended s (Removed (Inl (ErrDatabase e)))
           | Inr _ \<Rightarrow> s\<lparr>ses_stage := ChunksGone, dead_chunks := doomed_chunks t s\<rparr>)
      | ChunksGone \<Rightarrow>
          (case delete_log_of (ses_call s) (sees t s) of
             Inl e \<Rightarrow> ended s (Removed (Inl (ErrDatabase e)))
           | Inr (_, n) \<Rightarrow> s\<lparr>ses_stage := Finished (Removed (Inr n)), dead_log := doomed_log t s\<rparr>)
      | _ \<Rightarrow> s)"

definition statement :: "tables \<Rightarrow> session \<Rightarrow> session" where
  "statement t s =
     (case ses_call s of AppendCall k prev body \<Rightarrow> append_statement t k prev s body | _ \<Rightarrow> delete_statement t s)"

text \<open>What a call answers when the database fails its next statement.\<close>

definition failure :: "session \<Rightarrow> pq_error \<Rightarrow> pg_answer" where
  "failure s e =
     (case ses_call s of
        AppendCall k prev body \<Rightarrow> Uploaded (Inl (if ses_stage s = Opened then ErrDatabase e else asSeqConflict e))
      | _ \<Rightarrow> Removed (Inl (ErrDatabase e)))"

section \<open>The system\<close>

text \<open>The next statement of one transaction waits for another.\<close>

definition waits_for :: "tables \<Rightarrow> session \<Rightarrow> session \<Rightarrow> bool" where
  "waits_for t s s' \<longleftrightarrow>
     (case ses_call s of
        AppendCall k prev body \<Rightarrow>
          (case ses_stage s of
             Streaming idx hashed sz rd \<Rightarrow> fst (ReadFull ChunkBytes rd) \<noteq> [] \<and>
               (\<exists>c \<in> set (new_chunks s' @ dead_chunks s'). chunk_key c = k \<and> ch_idx c = idx)
           | Streamed hashed sz \<Rightarrow> k \<in> log_key ` set (new_log s' @ dead_log s')
           | _ \<Rightarrow> False)
      | _ \<Rightarrow>
          (case ses_stage s of
             Guarded \<Rightarrow> set (doomed_chunks t s) \<inter> set (dead_chunks s') \<noteq> {}
           | ChunksGone \<Rightarrow> set (doomed_log t s) \<inter> set (dead_log s') \<noteq> {}
           | _ \<Rightarrow> False))"

record replicas =
  com_tables :: tables
  com_sessions :: "session list"

definition new_service :: replicas where
  "new_service = \<lparr>com_tables = empty_tables, com_sessions = []\<rparr>"

definition enabled :: "replicas \<Rightarrow> nat \<Rightarrow> bool" where
  "enabled y i \<longleftrightarrow> i < length (com_sessions y) \<and>
     (\<forall>j < length (com_sessions y). j \<noteq> i \<longrightarrow>
        \<not> waits_for (com_tables y) (com_sessions y ! i) (com_sessions y ! j))"

text \<open>The handlers hand over generations that are positive and bodies that end.\<close>

fun call_ok :: "pg_call \<Rightarrow> bool" where
  "call_ok (AppendCall k prev body) \<longleftrightarrow> 1 \<le> key_Generation k \<and> reader_wf body"
| "call_ok _ \<longleftrightarrow> True"

text \<open>
  A call comes in; a transaction runs its next statement; it commits; it commits and the reply is
  lost; or the database fails it, which rolls it back.
\<close>

definition set_session :: "replicas \<Rightarrow> nat \<Rightarrow> session \<Rightarrow> replicas" where
  "set_session y i s = y\<lparr>com_sessions := (com_sessions y)[i := s]\<rparr>"

inductive db_step :: "replicas \<Rightarrow> replicas \<Rightarrow> bool" where
  invoke: "call_ok c \<Longrightarrow> db_step y (y\<lparr>com_sessions := com_sessions y @ [begun c now]\<rparr>)"
| run: "enabled y i \<Longrightarrow> s = com_sessions y ! i \<Longrightarrow>
    db_step y (set_session y i (statement (com_tables y) s))"
| commits: "i < length (com_sessions y) \<Longrightarrow> s = com_sessions y ! i \<Longrightarrow> ses_stage s = Finished a \<Longrightarrow>
    db_step y (set_session (y\<lparr>com_tables := sees (com_tables y) s\<rparr>) i (ended s a))"
| lost: "i < length (com_sessions y) \<Longrightarrow> s = com_sessions y ! i \<Longrightarrow> ses_stage s = Finished a \<Longrightarrow>
    db_step y (set_session (y\<lparr>com_tables := sees (com_tables y) s\<rparr>) i (ended s (failure s e)))"
| fails: "i < length (com_sessions y) \<Longrightarrow> s = com_sessions y ! i \<Longrightarrow> \<forall>a. ses_stage s \<noteq> Answered a \<Longrightarrow>
    db_step y (set_session y i (ended s (failure s e)))"

inductive db_reaches :: "replicas \<Rightarrow> replicas \<Rightarrow> bool" for y where
  start: "db_reaches y y"
| more: "db_reaches y y' \<Longrightarrow> db_step y' y'' \<Longrightarrow> db_reaches y y''"

section \<open>The invariant\<close>

text \<open>
  The chunks of a place are those of one body, from the first to the last, whether or not
  the row of the log is there.
\<close>

definition whole :: "tables \<Rightarrow> BlobKey \<Rightarrow> bytes \<Rightarrow> bool" where
  "whole t k data \<longleftrightarrow> data \<noteq> [] \<and>
     filter (\<lambda>c. chunk_key c = k) (blob_chunks t) = chunk_rows k 0 (chunks ChunkBytes data)"

definition whole_row :: "tables \<Rightarrow> log_row \<Rightarrow> bool" where
  "whole_row t l \<longleftrightarrow> (\<exists>data. whole t (log_key l) data \<and> l_sha256 l = sha256_hex data \<and> l_size l = int (length data))"

definition rows_whole :: "tables \<Rightarrow> bool" where
  "rows_whole t \<longleftrightarrow> (\<forall>c \<in> set (blob_chunks t). \<exists>data. whole t (chunk_key c) data) \<and>
     (\<forall>l \<in> set (blob_log t). whole_row t l) \<and> distinct (map log_key (blob_log t))"

definition free :: "tables \<Rightarrow> BlobKey \<Rightarrow> bool" where
  "free t k \<longleftrightarrow> k \<notin> chunk_key ` set (blob_chunks t) \<and> k \<notin> log_key ` set (blob_log t)"

text \<open>What a transaction has written, by where it is.\<close>

definition append_ok :: "BlobKey \<Rightarrow> string \<Rightarrow> reader \<Rightarrow> session \<Rightarrow> bool" where
  "append_ok k prev body s \<longleftrightarrow> dead_chunks s = [] \<and> dead_log s = [] \<and> call_ok (AppendCall k prev body) \<and>
     (case ses_stage s of
        Opened \<Rightarrow> new_chunks s = [] \<and> new_log s = []
      | Streaming idx h sz rd \<Rightarrow> reader_wf rd \<and> content body = h @ content rd \<and> ending rd = ending body \<and>
          sz = int (length h) \<and> ChunkBytes dvd length h \<and> idx = int (length h div ChunkBytes) \<and>
          new_chunks s = chunk_rows k 0 (chunks ChunkBytes h) \<and> new_log s = []
      | Streamed h sz \<Rightarrow> h \<noteq> [] \<and> h = content body \<and> sz = int (length h) \<and>
          new_chunks s = chunk_rows k 0 (chunks ChunkBytes h) \<and> new_log s = []
      | Finished a \<Rightarrow> content body \<noteq> [] \<and>
          a = Uploaded (Inr (sha256_hex (content body), int (length (content body)))) \<and>
          new_chunks s = chunk_rows k 0 (chunks ChunkBytes (content body)) \<and>
          new_log s = [new_row k prev (ses_now s) (content body)]
      | Answered a \<Rightarrow> new_chunks s = [] \<and> new_log s = []
      | _ \<Rightarrow> False)"

definition in_reach :: "pg_call \<Rightarrow> BlobKey \<Rightarrow> bool" where
  "in_reach c k \<longleftrightarrow>
     (case c of
        PruneCall p d g \<Rightarrow> key_Pseudonym k = p \<and> key_DeviceID k = d \<and> key_Generation k = g
      | EraseCall p \<Rightarrow> key_Pseudonym k = p
      | AppendCall k' prev body \<Rightarrow> False)"

definition delete_ok :: "session \<Rightarrow> bool" where
  "delete_ok s \<longleftrightarrow> new_chunks s = [] \<and> new_log s = [] \<and>
     (case ses_stage s of
        Streaming idx h sz rd \<Rightarrow> False
      | Streamed h sz \<Rightarrow> False
      | ChunksGone \<Rightarrow> dead_log s = [] \<and> (\<forall>c \<in> set (dead_chunks s). in_reach (ses_call s) (chunk_key c))
      | Finished a \<Rightarrow> True
      | _ \<Rightarrow> dead_chunks s = [] \<and> dead_log s = [])"

definition stage_ok :: "session \<Rightarrow> bool" where
  "stage_ok s \<longleftrightarrow> (case ses_call s of AppendCall k prev body \<Rightarrow> append_ok k prev body s | _ \<Rightarrow> delete_ok s)"

text \<open>
  What it has inserted is at free places; what it is deleting is still there, and all of a place's
  chunks or none; and once it is done, the rows of the log go with their chunks.
\<close>

definition links :: "tables \<Rightarrow> session \<Rightarrow> bool" where
  "links t s \<longleftrightarrow> (\<forall>c \<in> set (new_chunks s). free t (chunk_key c)) \<and>
     log_key ` set (new_log s) \<subseteq> chunk_key ` set (new_chunks s) \<and>
     set (dead_chunks s) \<subseteq> set (blob_chunks t) \<and>
     (\<forall>c \<in> set (blob_chunks t). chunk_key c \<in> chunk_key ` set (dead_chunks s) \<longrightarrow> c \<in> set (dead_chunks s)) \<and>
     (\<forall>a. ses_stage s = Finished a \<longrightarrow>
        (\<forall>l \<in> set (blob_log t). log_key l \<in> chunk_key ` set (dead_chunks s) \<longrightarrow> l \<in> set (dead_log s)))"

definition apart :: "session \<Rightarrow> session \<Rightarrow> bool" where
  "apart s s' \<longleftrightarrow> chunk_key ` set (new_chunks s) \<inter> chunk_key ` set (new_chunks s') = {} \<and>
     set (dead_chunks s) \<inter> set (dead_chunks s') = {}"

lemma apart_sym: "apart s s' \<Longrightarrow> apart s' s"
  by (auto simp: apart_def)

definition system_ok :: "replicas \<Rightarrow> bool" where
  "system_ok y \<longleftrightarrow> rows_whole (com_tables y) \<and>
     (\<forall>s \<in> set (com_sessions y). stage_ok s \<and> links (com_tables y) s) \<and>
     (\<forall>i < length (com_sessions y). \<forall>j < length (com_sessions y). i \<noteq> j \<longrightarrow>
        apart (com_sessions y ! i) (com_sessions y ! j))"

lemma ended_writes [simp]:
  "new_chunks (ended s a) = []" "new_log (ended s a) = []" "dead_chunks (ended s a) = []"
  "dead_log (ended s a) = []" "ses_stage (ended s a) = Answered a" "ses_call (ended s a) = ses_call s"
  "ses_now (ended s a) = ses_now s"
  by (simp_all add: ended_def)

lemma stage_ok_ended [simp]: "stage_ok s \<Longrightarrow> stage_ok (ended s a)"
  by (cases "ses_call s") (auto simp: stage_ok_def append_ok_def delete_ok_def)

lemma links_ended [simp]: "links t (ended s a)"
  by (simp add: links_def)

lemma apart_ended [simp]: "apart (ended s a) s'" "apart s' (ended s a)"
  by (simp_all add: apart_def)

section \<open>A commit keeps it\<close>

lemma sees_rows:
  "set (blob_chunks (sees t s)) = (set (blob_chunks t) - set (dead_chunks s)) \<union> set (new_chunks s)"
  "set (blob_log (sees t s)) = (set (blob_log t) - set (dead_log s)) \<union> set (new_log s)"
  by (auto simp: sees_def)

lemma links_new: "links t s \<Longrightarrow> c \<in> set (new_chunks s) \<Longrightarrow> free t (chunk_key c)"
  and links_new_log: "links t s \<Longrightarrow> l \<in> set (new_log s) \<Longrightarrow> log_key l \<in> chunk_key ` set (new_chunks s)"
  and links_dead: "links t s \<Longrightarrow> set (dead_chunks s) \<subseteq> set (blob_chunks t)"
  and links_closed: "links t s \<Longrightarrow> c \<in> set (blob_chunks t) \<Longrightarrow> chunk_key c \<in> chunk_key ` set (dead_chunks s) \<Longrightarrow>
    c \<in> set (dead_chunks s)"
  and links_dead_log: "links t s \<Longrightarrow> ses_stage s = Finished a \<Longrightarrow> l \<in> set (blob_log t) \<Longrightarrow>
    log_key l \<in> chunk_key ` set (dead_chunks s) \<Longrightarrow> l \<in> set (dead_log s)"
  unfolding links_def by blast+

lemma links_commit:
  assumes "links t s" and "links t s'" and "apart s s'"
  shows "links (sees t s) s'"
proof -
  have free: "free (sees t s) (chunk_key c)" if "c \<in> set (new_chunks s')" for c
  proof -
    have "chunk_key c \<notin> chunk_key ` set (new_chunks s)" using assms(3) that by (auto simp: apart_def)
    with links_new [OF assms(2) that] links_new_log [OF assms(1)] show ?thesis
      unfolding free_def sees_rows by (auto simp: image_Un)
  qed
  have new: "chunk_key c \<notin> chunk_key ` set (dead_chunks s')" if "c \<in> set (new_chunks s)" for c
    using links_new [OF assms(1) that] image_mono [OF links_dead [OF assms(2)], of chunk_key] by (auto simp: free_def)
  have log: "log_key l \<notin> chunk_key ` set (dead_chunks s')" if "l \<in> set (new_log s)" for l
    using links_new_log [OF assms(1) that] new by (metis imageE)
  have "set (dead_chunks s') \<subseteq> set (blob_chunks (sees t s))"
    using links_dead [OF assms(2)] assms(3) unfolding apart_def sees_rows by blast
  moreover have "c \<in> set (dead_chunks s')"
    if "c \<in> set (blob_chunks (sees t s))" "chunk_key c \<in> chunk_key ` set (dead_chunks s')" for c
    using that new links_closed [OF assms(2)] unfolding sees_rows by blast
  moreover have "l \<in> set (dead_log s')" if "ses_stage s' = Finished a"
    "l \<in> set (blob_log (sees t s))" "log_key l \<in> chunk_key ` set (dead_chunks s')" for l a
    using that log links_dead_log [OF assms(2)] unfolding sees_rows by blast
  ultimately show ?thesis using free links_new_log [OF assms(2)] unfolding links_def by simp blast
qed

lemma whole_commit:
  assumes "links t s" and "whole t k data" and "k \<notin> chunk_key ` set (dead_chunks s)"
  shows "whole (sees t s) k data"
proof -
  have "c \<in> set (dead_chunks s) \<Longrightarrow> chunk_key c \<noteq> k" for c using assms(3) by blast
  then have old: "filter (\<lambda>c. chunk_key c = k) (filter (\<lambda>c. c \<notin> set (dead_chunks s)) (blob_chunks t)) =
      filter (\<lambda>c. chunk_key c = k) (blob_chunks t)"
    by (auto intro: filter_cong)
  have "chunk_rows k 0 (chunks ChunkBytes data) \<noteq> []"
    using assms(2) by (cases "chunks ChunkBytes data") (auto simp: whole_def chunks_eq_Nil_iff ChunkBytes_def)
  then have "k \<in> chunk_key ` set (blob_chunks t)"
    using assms(2) unfolding whole_def by (metis (mono_tags, lifting) filter_empty_conv image_eqI)
  then have "filter (\<lambda>c. chunk_key c = k) (new_chunks s) = []"
    using assms(1) by (auto simp: links_def free_def filter_empty_conv)
  with old assms(2) show ?thesis by (simp add: whole_def sees_def)
qed

lemma whole_new:
  assumes "links t s" and "new_chunks s = chunk_rows k 0 (chunks ChunkBytes data)" and "data \<noteq> []"
  shows "whole (sees t s) k data"
proof -
  have keys: "\<forall>c \<in> set (new_chunks s). chunk_key c = k"
    using chunk_rows_key unfolding assms(2) by (fastforce simp: chunk_key_def chunk_of_key_def chunk_in_def)
  moreover have "new_chunks s \<noteq> []"
    using assms(2,3) by (cases "chunks ChunkBytes data") (auto simp: chunks_eq_Nil_iff ChunkBytes_def)
  ultimately have "free t k" using assms(1) by (cases "new_chunks s") (auto simp: links_def)
  then have "filter (\<lambda>c. chunk_key c = k) (filter (\<lambda>c. c \<notin> set (dead_chunks s)) (blob_chunks t)) = []"
    by (auto simp: free_def filter_empty_conv)
  with keys assms(2,3) show ?thesis by (simp add: whole_def sees_def filter_True)
qed

lemma log_key_new_row [simp]: "log_key (new_row k prev now data) = k"
  by (simp add: log_key_def new_row_def)

text \<open>A transaction with only its \<open>COMMIT\<close> left has a whole body to insert, or nothing.\<close>

lemma finished_writes:
  assumes "stage_ok s" and "ses_stage s = Finished a"
  obtains (upload) k prev body where "ses_call s = AppendCall k prev body" "content body \<noteq> []"
      "new_chunks s = chunk_rows k 0 (chunks ChunkBytes (content body))"
      "new_log s = [new_row k prev (ses_now s) (content body)]" "dead_chunks s = []" "dead_log s = []"
      "a = Uploaded (Inr (sha256_hex (content body), int (length (content body))))" "1 \<le> key_Generation k"
    | (delete) "new_chunks s = []" "new_log s = []"
  using assms by (cases "ses_call s") (auto simp: stage_ok_def append_ok_def delete_ok_def)

lemma rows_whole_commit:
  assumes ok: "rows_whole t" and "stage_ok s" and fin: "ses_stage s = Finished a" and links: "links t s"
  shows "rows_whole (sees t s)"
proof -
  have old: "\<exists>data. whole (sees t s) (chunk_key c) data" if "c \<in> set (blob_chunks t)" "c \<notin> set (dead_chunks s)" for c
  proof -
    have "chunk_key c \<notin> chunk_key ` set (dead_chunks s)" using links_closed [OF links] that by blast
    with ok that(1) whole_commit [OF links] show ?thesis unfolding rows_whole_def by blast
  qed
  have old_row: "whole_row (sees t s) l" if "l \<in> set (blob_log t)" "l \<notin> set (dead_log s)" for l
  proof -
    have "log_key l \<notin> chunk_key ` set (dead_chunks s)" using links_dead_log [OF links fin] that by blast
    with ok that(1) whole_commit [OF links] show ?thesis unfolding rows_whole_def whole_row_def by blast
  qed
  have dist: "distinct (map log_key (filter (\<lambda>l. l \<notin> set (dead_log s)) (blob_log t)))"
    using ok by (simp add: rows_whole_def distinct_map_filter)
  from assms(2) fin show ?thesis
  proof (cases rule: finished_writes)
    case (upload k prev body)
    note new = whole_new [OF links upload(3,2)]
    have keys: "chunk_key c = k" if "c \<in> set (new_chunks s)" for c
      using chunk_rows_key that unfolding upload(3) by (fastforce simp: chunk_key_def chunk_of_key_def chunk_in_def)
    have "whole_row (sees t s) (new_row k prev (ses_now s) (content body))"
      using new by (auto simp: whole_row_def) (auto simp: new_row_def)
    moreover have "k \<notin> log_key ` set (blob_log t)"
      using links upload(4) keys by (fastforce simp: links_def free_def)
    ultimately show ?thesis
      using old old_row dist new keys upload(4) unfolding rows_whole_def sees_rows by (auto simp: sees_def)
  next
    case delete
    with old old_row dist show ?thesis unfolding rows_whole_def sees_rows by (auto simp: sees_def)
  qed
qed

section \<open>A statement keeps it\<close>

lemma chunk_rows_append:
  "chunk_rows k idx (bs @ cs) = chunk_rows k idx bs @ chunk_rows k (idx + int (length bs)) cs"
  by (induction k idx bs rule: chunk_rows.induct) (simp_all add: algebra_simps)

lemma chunk_rows_chunk_key: "c \<in> set (chunk_rows k idx bs) \<Longrightarrow> chunk_key c = k"
  using chunk_rows_key by (fastforce simp: chunk_key_def chunk_of_key_def chunk_in_def)

lemma chunk_rows_first: "c \<in> set (chunk_rows k idx bs) \<Longrightarrow> \<exists>c0 \<in> set (chunk_rows k idx bs). ch_idx c0 = idx"
  by (cases bs) auto

lemma chunk_of_key_iff: "chunk_of_key k c \<longleftrightarrow> chunk_key c = k"
  by (cases k) (auto simp: chunk_of_key_def chunk_in_def chunk_key_def)

text \<open>The first chunk of a place is in the way of any other upload to it.\<close>

lemma rows_whole_free:
  assumes "rows_whole t" and "\<forall>c \<in> set (blob_chunks t). \<not> (chunk_key c = k \<and> ch_idx c = 0)"
  shows "free t k"
proof -
  have none: "\<not> whole t k data" for data
  proof
    assume w: "whole t k data"
    then have "chunk_rows k 0 (chunks ChunkBytes data) \<noteq> []"
      by (cases "chunks ChunkBytes data") (auto simp: whole_def chunks_eq_Nil_iff ChunkBytes_def)
    then obtain c where c: "c \<in> set (chunk_rows k 0 (chunks ChunkBytes data))" "ch_idx c = 0"
      using chunk_rows_first by (metis list.set_intros(1) neq_Nil_conv)
    then have "c \<in> set (blob_chunks t) \<and> chunk_key c = k" using w unfolding whole_def by (metis (mono_tags, lifting) mem_Collect_eq set_filter)
    with c(2) assms(2) show False by blast
  qed
  with assms(1) show ?thesis unfolding rows_whole_def free_def whole_row_def by (metis imageE)
qed

lemma insert_chunk_free:
  assumes "insert_chunk t k idx buf = Inr t'" and "c \<in> set (blob_chunks t)"
  shows "\<not> (chunk_key c = k \<and> ch_idx c = idx)"
  using assms by (auto simp: insert_chunk_def chunk_key_def chunk_in_def dest!: checked_Inr split: if_splits)

lemma new_chunks_first:
  assumes "stage_ok s" and "c \<in> set (new_chunks s)"
  shows "\<exists>c0 \<in> set (new_chunks s). chunk_key c0 = chunk_key c \<and> ch_idx c0 = 0"
proof -
  obtain k bs where "new_chunks s = chunk_rows k 0 bs"
    using assms by (cases "ses_call s"; cases "ses_stage s") (auto simp: stage_ok_def append_ok_def delete_ok_def)
  with assms(2) show ?thesis using chunk_rows_first chunk_rows_chunk_key by metis
qed

lemma statement_call [simp]: "ses_call (statement t s) = ses_call s" "ses_now (statement t s) = ses_now s"
  by (auto simp: statement_def append_statement_def delete_statement_def Let_def
      split: pg_call.splits stage.splits sum.splits prod.splits option.splits if_splits)

subsection \<open>Of an upload\<close>

lemma append_statement_streaming:
  assumes ok: "append_ok k prev body s" and st: "ses_stage s = Streaming idx h sz rd"
  shows "append_ok k prev body (append_statement t k prev s body)"
proof -
  obtain buf err rd' where rd: "ReadFull ChunkBytes rd = (buf, err, rd')" by (metis prod_cases3)
  have at: "reader_wf rd" "content body = h @ content rd" "ending rd = ending body" "sz = int (length h)"
    "ChunkBytes dvd length h" "idx = int (length h div ChunkBytes)" "new_chunks s = chunk_rows k 0 (chunks ChunkBytes h)"
    "new_log s = []" "dead_chunks s = []" "dead_log s = []" "call_ok (AppendCall k prev body)"
    using ok st by (simp_all add: append_ok_def)
  note law = ReadFull_stream [OF rd at(1)]
  have cb: "0 < ChunkBytes" by (simp add: ChunkBytes_def)
  have le: "length buf \<le> ChunkBytes" using law(4,5) by (cases err) auto
  have grown: "new_chunks s @ chunk_rows k idx (if buf \<noteq> [] then [buf] else []) = chunk_rows k 0 (chunks ChunkBytes (h @ buf))"
    using chunks_snoc [OF at(5) cb _ le] length_chunks [OF at(5) cb] at(6,7) by (simp add: chunk_rows_append)
  note run = append_statement_def [of t k prev s body, unfolded st stage.case rd prod.case grown Let_def]
  show ?thesis
  proof (cases err)
    case None
    note len = law(4) [OF None]
    have "ChunkBytes dvd length (h @ buf)" using at(5) len by simp
    moreover have "int (length (h @ buf) div ChunkBytes) = idx + 1" using at(6) len cb by (simp add: div_add_self2)
    moreover have "buf \<noteq> []" using len cb by auto
    ultimately show ?thesis unfolding run using at law(1-3) None by (simp add: append_ok_def split: sum.splits)
  next
    case (Some e)
    have "h @ buf = content body" if "e = EOF \<or> e = ErrUnexpectedEOF"
      using that law(1) law(6,7) [OF Some] at(2,3) by (auto split: if_splits)
    then show ?thesis unfolding run using at law Some by (auto simp: append_ok_def split: sum.splits)
  qed
qed

lemma append_statement_ok:
  assumes "append_ok k prev body s"
  shows "append_ok k prev body (append_statement t k prev s body)"
proof (cases "ses_stage s")
  case (Streaming idx h sz rd)
  with assms show ?thesis by (rule append_statement_streaming)
next
  case Opened
  with assms show ?thesis by (auto simp: append_statement_def append_ok_def Let_def split: sum.splits option.splits)
next
  case (Streamed h sz)
  moreover have "(new_row k prev now h)\<lparr>l_size := int (length h)\<rparr> = new_row k prev now h" for now by (simp add: new_row_def)
  ultimately show ?thesis using assms
    by (auto simp: append_statement_def append_ok_def split: sum.splits)
qed (use assms in \<open>auto simp: append_statement_def append_ok_def\<close>)

text \<open>What it inserts, and when.\<close>

lemma append_statement_chunks:
  "set (new_chunks (append_statement t k prev s body)) \<subseteq> set (new_chunks s) \<or>
     (\<exists>idx h sz rd buf t'. ses_stage s = Streaming idx h sz rd \<and> fst (ReadFull ChunkBytes rd) \<noteq> [] \<and>
        insert_chunk (sees t s) k idx buf = Inr t' \<and>
        new_chunks (append_statement t k prev s body) = new_chunks s @ chunk_rows k idx [buf])"
proof (cases "ses_stage s")
  case (Streaming idx h sz rd)
  obtain buf err rd' where rd: "ReadFull ChunkBytes rd = (buf, err, rd')" by (metis prod_cases3)
  note run = append_statement_def [of t k prev s body, unfolded Streaming stage.case rd prod.case Let_def]
  show ?thesis
  proof (cases "buf = []")
    case True
    then show ?thesis unfolding run by (auto split: option.splits)
  next
    case False
    show ?thesis
    proof (cases "insert_chunk (sees t s) k idx buf")
      case (Inr t')
      with False Streaming rd show ?thesis unfolding run by (auto split: option.splits)
    qed (use False run in simp)
  qed
qed (auto simp: append_statement_def Let_def split: sum.splits)

lemma append_statement_rest:
  assumes "append_ok k prev body s"
  shows "dead_chunks (append_statement t k prev s body) = []"
    and "log_key ` set (new_log (append_statement t k prev s body)) \<subseteq> chunk_key ` set (new_chunks (append_statement t k prev s body))"
proof -
  let ?s = "append_statement t k prev s body"
  note ok = append_statement_ok [OF assms, of t]
  then show "dead_chunks ?s = []" by (simp add: append_ok_def)
  show "log_key ` set (new_log ?s) \<subseteq> chunk_key ` set (new_chunks ?s)"
  proof (cases "new_log ?s = []")
    case False
    with ok have "content body \<noteq> []" "new_chunks ?s = chunk_rows k 0 (chunks ChunkBytes (content body))"
      "log_key ` set (new_log ?s) = {k}"
      by (auto simp: append_ok_def split: stage.splits)
    moreover from this obtain c where "c \<in> set (new_chunks ?s)"
      by (cases "chunks ChunkBytes (content body)") (auto simp: chunks_eq_Nil_iff ChunkBytes_def)
    ultimately show ?thesis using chunk_rows_chunk_key by auto
  qed simp
qed

lemma append_new_key: "append_ok k prev body s \<Longrightarrow> c \<in> set (new_chunks s) \<Longrightarrow> chunk_key c = k"
  by (auto simp: append_ok_def dest: chunk_rows_chunk_key split: stage.splits)

text \<open>A chunk after the first is at a place the transaction already holds.\<close>

lemma append_holds:
  assumes "append_ok k prev body s" and "ses_stage s = Streaming idx h sz rd"
  shows "idx = 0 \<or> k \<in> chunk_key ` set (new_chunks s)"
proof (cases "h = []")
  case False
  then have "chunks ChunkBytes h \<noteq> []" by (simp add: chunks_eq_Nil_iff ChunkBytes_def)
  then have "new_chunks s \<noteq> []" using assms by (cases "chunks ChunkBytes h") (auto simp: append_ok_def)
  with append_new_key [OF assms(1)] show ?thesis by (metis image_eqI list.set_intros(1) neq_Nil_conv)
qed (use assms in \<open>simp add: append_ok_def\<close>)

lemma append_statement_links:
  assumes t: "rows_whole t" and ok: "append_ok k prev body s" and links: "links t s"
  shows "links t (append_statement t k prev s body)"
proof -
  let ?s = "append_statement t k prev s body"
  have "free t (chunk_key c)" if c: "c \<in> set (new_chunks ?s)" for c
    using append_statement_chunks [of t k prev s body]
  proof (elim disjE exE conjE)
    assume "set (new_chunks ?s) \<subseteq> set (new_chunks s)"
    with c links_new [OF links] show ?thesis by blast
  next
    fix idx h sz rd buf t'
    assume new: "ses_stage s = Streaming idx h sz rd" "insert_chunk (sees t s) k idx buf = Inr t'"
    have "chunk_key c = k" using append_new_key [OF append_statement_ok [OF ok] c] .
    moreover have "free t k" if "idx = 0"
    proof (rule rows_whole_free [OF t])
      have "dead_chunks s = []" using ok by (simp add: append_ok_def)
      then have "set (blob_chunks t) \<subseteq> set (blob_chunks (sees t s))" by (simp add: sees_rows)
      with insert_chunk_free [OF new(2)] that show "\<forall>c \<in> set (blob_chunks t). \<not> (chunk_key c = k \<and> ch_idx c = 0)" by blast
    qed
    ultimately show ?thesis using append_holds [OF ok new(1)] links_new [OF links] by auto
  qed
  with append_statement_rest [OF ok, of t] show ?thesis unfolding links_def by simp
qed

lemma append_statement_apart:
  assumes ok: "append_ok k prev body s" and call: "ses_call s = AppendCall k prev body"
    and other: "stage_ok s'" and wait: "\<not> waits_for t s s'" and apart: "apart s s'"
  shows "apart (append_statement t k prev s body) s'"
proof -
  let ?s = "append_statement t k prev s body"
  have "chunk_key ` set (new_chunks ?s) \<inter> chunk_key ` set (new_chunks s') = {}"
    using append_statement_chunks [of t k prev s body]
  proof (elim disjE exE conjE)
    fix idx h sz rd buf t'
    assume new: "ses_stage s = Streaming idx h sz rd" "fst (ReadFull ChunkBytes rd) \<noteq> []"
    have "k \<notin> chunk_key ` set (new_chunks s')"
    proof
      assume k: "k \<in> chunk_key ` set (new_chunks s')"
      then have "idx = 0" using append_holds [OF ok new(1)] apart by (auto simp: apart_def)
      moreover from k new_chunks_first [OF other] obtain c where "c \<in> set (new_chunks s')" "chunk_key c = k" "ch_idx c = 0"
        by fastforce
      ultimately show False using wait call new by (auto simp: waits_for_def)
    qed
    then show ?thesis using append_new_key [OF append_statement_ok [OF ok]] by auto
  qed (use apart in \<open>auto simp: apart_def\<close>)
  with append_statement_rest(1) [OF ok, of t] show ?thesis by (simp add: apart_def)
qed

subsection \<open>Of a prune or an erasure\<close>

lemma doomed_chunks_iff:
  assumes "delete_chunks_of (ses_call s) (sees t s) = Inr v"
  shows "set (doomed_chunks t s) = {c \<in> set (blob_chunks (sees t s)). in_reach (ses_call s) (chunk_key c)}"
  using assms
  by (cases "ses_call s")
    (auto simp: doomed_chunks_def missing_def in_reach_def chunk_key_def chunk_in_def delete_gen_chunks_def
      delete_account_chunks_def dest!: checked_Inr)

lemma doomed_log_iff:
  assumes "delete_log_of (ses_call s) (sees t s) = Inr (v, n)"
  shows "set (doomed_log t s) = {l \<in> set (blob_log (sees t s)). in_reach (ses_call s) (log_key l)}"
  using assms
  by (cases "ses_call s")
    (auto simp: doomed_log_def missing_def in_reach_def log_key_def log_in_def delete_gen_log_def
      delete_account_log_def dest!: checked_Inr)

lemma delete_ok_stage:
  assumes "delete_ok s"
  shows "ses_stage s = Guarded \<Longrightarrow> sees t s = t"
    and "ses_stage s = ChunksGone \<Longrightarrow> blob_log (sees t s) = blob_log t"
  using assms by (simp_all add: delete_ok_def sees_def)

lemma delete_statement_cases:
  obtains (ended) a where "delete_statement t s = ended s a"
    | (guard) "ses_stage s = Opened" "delete_statement t s = s\<lparr>ses_stage := Guarded\<rparr>"
    | (chunks) v where "ses_stage s = Guarded" "delete_chunks_of (ses_call s) (sees t s) = Inr v"
        "delete_statement t s = s\<lparr>ses_stage := ChunksGone, dead_chunks := doomed_chunks t s\<rparr>"
    | (log) v n where "ses_stage s = ChunksGone" "delete_log_of (ses_call s) (sees t s) = Inr (v, n)"
        "delete_statement t s = s\<lparr>ses_stage := Finished (Removed (Inr n)), dead_log := doomed_log t s\<rparr>"
    | (same) "delete_statement t s = s"
proof (cases "ses_stage s")
  case Opened
  then show thesis using that(1,2) by (cases "guard_refuses t (ses_call s)") (simp_all add: delete_statement_def)
next
  case Guarded
  then show thesis using that(1,3) by (cases "delete_chunks_of (ses_call s) (sees t s)") (simp_all add: delete_statement_def)
next
  case ChunksGone
  then show thesis
    using that(1,4) by (cases "delete_log_of (ses_call s) (sees t s)") (auto simp: delete_statement_def)
qed (use that(5) in \<open>simp_all add: delete_statement_def\<close>)

lemma delete_statement_kept:
  assumes ok: "delete_ok s" and links: "links t s"
  shows "delete_ok (delete_statement t s) \<and> links t (delete_statement t s)"
proof (cases t s rule: delete_statement_cases)
  case (ended a)
  with ok show ?thesis by (simp add: delete_ok_def)
next
  case guard
  have "delete_ok (delete_statement t s)" using ok guard(1) unfolding guard(2) by (simp add: delete_ok_def)
  moreover have "links t (delete_statement t s)" using links unfolding guard(2) links_def by simp
  ultimately show ?thesis by blast
next
  case (chunks v)
  note doomed = doomed_chunks_iff [OF chunks(2), unfolded delete_ok_stage(1) [OF ok chunks(1)]]
  have none: "new_chunks s = []" "new_log s = []" "dead_log s = []" using ok chunks(1) by (simp_all add: delete_ok_def)
  have "delete_ok (delete_statement t s)" using none doomed unfolding chunks(3) by (simp add: delete_ok_def)
  moreover have "links t (delete_statement t s)"
    unfolding chunks(3) links_def using none doomed by simp (metis (no_types, lifting) imageE mem_Collect_eq)
  ultimately show ?thesis by blast
next
  case (log v n)
  note doomed = doomed_log_iff [OF log(2), unfolded delete_ok_stage(2) [OF ok log(1)]]
  have none: "new_chunks s = []" "new_log s = []" "\<forall>c \<in> set (dead_chunks s). in_reach (ses_call s) (chunk_key c)"
    using ok log(1) by (simp_all add: delete_ok_def)
  have "delete_ok (delete_statement t s)" using none unfolding log(3) by (simp add: delete_ok_def)
  moreover have "links t (delete_statement t s)"
    unfolding log(3) links_def using none links_dead [OF links] links_closed [OF links] doomed
    by simp (metis (no_types, lifting) imageE)
  ultimately show ?thesis by blast
qed (use assms in simp)

lemma delete_statement_apart:
  assumes ok: "delete_ok s" and call: "\<forall>k prev body. ses_call s \<noteq> AppendCall k prev body"
    and wait: "\<not> waits_for t s s'" and apart: "apart s s'"
  shows "apart (delete_statement t s) s'"
proof (cases t s rule: delete_statement_cases)
  case (chunks v)
  have "set (doomed_chunks t s) \<inter> set (dead_chunks s') = {}"
    using wait call chunks(1) by (cases "ses_call s") (simp_all add: waits_for_def)
  with ok show ?thesis unfolding chunks(3) by (simp add: apart_def delete_ok_def)
qed (use apart in \<open>simp_all add: apart_def\<close>)

subsection \<open>Of either\<close>

lemma statement_kept:
  assumes "rows_whole t" and "stage_ok s" and "links t s"
  shows "stage_ok (statement t s)" and "links t (statement t s)"
proof -
  have "stage_ok (statement t s) \<and> links t (statement t s)"
  proof (cases "ses_call s")
    case (AppendCall k prev body)
    with assms append_statement_ok append_statement_links show ?thesis
      by (simp add: stage_ok_def statement_def) (metis statement_call(1) statement_def pg_call.simps(10))
  next
    case (PruneCall p d g)
    with assms delete_statement_kept [of s t] show ?thesis
      using statement_call(1) [of t s] by (simp add: stage_ok_def statement_def)
  next
    case (EraseCall p)
    with assms delete_statement_kept [of s t] show ?thesis
      using statement_call(1) [of t s] by (simp add: stage_ok_def statement_def)
  qed
  then show "stage_ok (statement t s)" "links t (statement t s)" by blast+
qed

lemma statement_apart:
  assumes "stage_ok s" and "stage_ok s'" and "\<not> waits_for t s s'" and "apart s s'"
  shows "apart (statement t s) s'"
  using assms append_statement_apart delete_statement_apart
  by (cases "ses_call s") (simp_all add: stage_ok_def [of s] statement_def)

section \<open>Every reachable state\<close>

lemma set_session_simps [simp]:
  "com_tables (set_session y i s) = com_tables y" "com_sessions (set_session y i s) = (com_sessions y)[i := s]"
  by (simp_all add: set_session_def)

lemma system_ok_session:
  assumes "system_ok y" and "i < length (com_sessions y)"
  shows "stage_ok (com_sessions y ! i)" and "links (com_tables y) (com_sessions y ! i)"
    and "j < length (com_sessions y) \<Longrightarrow> j \<noteq> i \<Longrightarrow> apart (com_sessions y ! i) (com_sessions y ! j)"
  using assms by (simp_all add: system_ok_def)

lemma system_ok_update:
  assumes "system_ok y" and i: "i < length (com_sessions y)"
    and "rows_whole t" and "stage_ok s" and "links t s"
    and others: "\<And>j. j < length (com_sessions y) \<Longrightarrow> j \<noteq> i \<Longrightarrow> links t (com_sessions y ! j) \<and> apart s (com_sessions y ! j)"
  shows "system_ok (set_session (y\<lparr>com_tables := t\<rparr>) i s)"
proof -
  let ?ss = "(com_sessions y)[i := s]"
  have "stage_ok (?ss ! j) \<and> links t (?ss ! j)" if "j < length ?ss" for j
    using assms that system_ok_session(1) [OF assms(1)] by (cases "j = i") auto
  moreover have "apart (?ss ! a) (?ss ! b)" if "a < length ?ss" "b < length ?ss" "a \<noteq> b" for a b
    using that others i system_ok_session(3) [OF assms(1)] apart_sym by (cases "a = i"; cases "b = i") auto
  ultimately show ?thesis using assms(3) unfolding system_ok_def by (auto simp: all_set_conv_all_nth)
qed

lemma system_ok_step:
  assumes ok: "system_ok y" and step: "db_step y y'"
  shows "system_ok y'"
  using step
proof (cases rule: db_step.cases)
  case (invoke c now)
  have new: "stage_ok (begun c now)" "links (com_tables y) (begun c now)" "apart (begun c now) s" for s
    using invoke(2) by (cases c) (auto simp: stage_ok_def append_ok_def delete_ok_def begun_def links_def apart_def)
  then have "apart s (begun c now)" for s using apart_sym by blast
  with ok new show ?thesis unfolding invoke(1) system_ok_def by (auto simp: nth_append less_Suc_eq)
next
  case (run i s)
  have i: "i < length (com_sessions y)" using run(2) by (simp add: enabled_def)
  note s = system_ok_session [OF ok i, folded run(3)]
  have whole: "rows_whole (com_tables y)" using ok by (simp add: system_ok_def)
  have "apart (statement (com_tables y) s) (com_sessions y ! j)" if "j < length (com_sessions y)" "j \<noteq> i" for j
    using statement_apart [OF s(1) system_ok_session(1) [OF ok that(1)] _ s(3) [OF that]] run(2,3) that
    by (simp add: enabled_def)
  with system_ok_update [OF ok i whole statement_kept [OF whole s(1,2)]] system_ok_session(2) [OF ok]
  show ?thesis unfolding run(1) by simp
next
  case (commits i s a)
  note s = system_ok_session [OF ok commits(2), folded commits(3)]
  have "rows_whole (com_tables y)" using ok by (simp add: system_ok_def)
  note whole = rows_whole_commit [OF this s(1) commits(4) s(2)]
  show ?thesis unfolding commits(1)
    by (rule system_ok_update [OF ok commits(2) whole])
      (simp_all add: s links_commit [OF s(2) system_ok_session(2) [OF ok] s(3)])
next
  case (lost i s a e)
  note s = system_ok_session [OF ok lost(2), folded lost(3)]
  have "rows_whole (com_tables y)" using ok by (simp add: system_ok_def)
  note whole = rows_whole_commit [OF this s(1) lost(4) s(2)]
  show ?thesis unfolding lost(1)
    by (rule system_ok_update [OF ok lost(2) whole])
      (simp_all add: s links_commit [OF s(2) system_ok_session(2) [OF ok] s(3)])
next
  case (fails i s e)
  note s = system_ok_session [OF ok fails(2), folded fails(3)]
  have whole: "rows_whole (com_tables y)" using ok by (simp add: system_ok_def)
  from system_ok_update [OF ok fails(2) whole, of "ended s (failure s e)"] system_ok_session(2) [OF ok] s
  show ?thesis unfolding fails(1) by simp
qed

lemma system_ok_reaches: "db_reaches new_service y \<Longrightarrow> system_ok y"
proof (induction rule: db_reaches.induct)
  case start
  show ?case by (simp add: system_ok_def new_service_def rows_whole_def empty_tables_def)
qed (rule system_ok_step)

section \<open>What is read is whole\<close>

lemma log_in_key:
  "log_in (key_Pseudonym k) (key_DeviceID k) (key_Generation k) l \<and> l_seq l = key_Seq k \<longleftrightarrow> log_key l = k"
  by (cases k) (auto simp: log_in_def log_key_def)

lemma whole_chunks:
  assumes "whole t k data"
  shows "concat (chunks_for t (key_Pseudonym k) (key_DeviceID k) (key_Generation k) (key_Seq k)) = data"
proof -
  have "filter (chunk_of_key k) (blob_chunks t) = chunk_rows k 0 (chunks ChunkBytes data)"
    using assms by (simp add: whole_def chunk_of_key_iff [abs_def])
  then show ?thesis
    by (simp add: chunks_for_conv sort_key_id_if_sorted chunk_rows_sorted) (simp add: ChunkBytes_def)
qed

lemma Get_whole:
  assumes "rows_whole (db_tables db)" and "db_faults db = []" and "PostgresStore_Get db k = (Inr (rd, sz), db')"
  shows "\<exists>l \<in> set (blob_log (db_tables db)). log_key l = k \<and> l_size l = sz \<and> sz = int (length (content rd)) \<and>
     l_sha256 l = sha256_hex (content rd) \<and> ending rd = EOF \<and> content rd \<noteq> []"
proof -
  let ?t = "db_tables db"
  let ?rows = "chunks_for ?t (key_Pseudonym k) (key_DeviceID k) (key_Generation k) (key_Seq k)"
  obtain rows where some: "select_size ?t k = Inr (Some sz)" and sel: "select_chunks ?t k = Inr rows"
    and rd: "rd = ChunkReader rows None [] None"
    using assms(2,3) unfolding PostgresStore_Get_def
    by (cases "select_chunks ?t k") (auto simp: fetch_def split: sum.splits option.splits)
  from sel have rows: "rows = ?rows" by (auto simp: select_chunks_def dest!: checked_Inr)
  from some obtain l where l: "l \<in> set (blob_log ?t)" "log_key l = k" "l_size l = sz"
    by (auto simp: select_size_def log_in_key find_Some_iff dest!: checked_Inr) (metis nth_mem)
  then obtain data where data: "whole ?t k data" "l_sha256 l = sha256_hex data" "l_size l = int (length data)"
    using assms(1) by (auto simp: rows_whole_def whole_row_def)
  have "stream rd = (data, EOF)" using whole_chunks [OF data(1)] rd rows by simp
  moreover have "data \<noteq> []" using data(1) by (simp add: whole_def)
  ultimately show ?thesis using l data by auto
qed

end
