(* ===== verification/Replicas.thy ===== *)
theory Replicas
  imports Concurrent_Postgres
begin

text \<open>
  What the interleaved transactions of \<open>Concurrent_Postgres\<close> guarantee: uploads alone keep every
  log gapless, acknowledge only what is stored, and all get an answer; what any mixture of calls
  leaves behind is read whole; a call that runs alone does what the sequential model of
  \<open>Postgres_Store\<close> says. And what they do not: an erasure that overlaps an upload can leave
  chunks without their row.
\<close>

section \<open>Schedules\<close>

text \<open>A move of the system without faults: a call comes in, or a transaction runs its next statement or commits.\<close>

datatype move =
    Invoke pg_call time
  | Run nat

definition run_session :: "replicas \<Rightarrow> nat \<Rightarrow> replicas" where
  "run_session y i =
     (let s = com_sessions y ! i
      in case ses_stage s of
           Finished a \<Rightarrow> set_session (y\<lparr>com_tables := sees (com_tables y) s\<rparr>) i (ended s a)
         | _ \<Rightarrow> set_session y i (statement (com_tables y) s))"

fun play :: "replicas \<Rightarrow> move list \<Rightarrow> replicas option" where
  "play y [] = Some y"
| "play y (Invoke c now # ms) =
     (if call_ok c then play (y\<lparr>com_sessions := com_sessions y @ [begun c now]\<rparr>) ms else None)"
| "play y (Run i # ms) = (if enabled y i then play (run_session y i) ms else None)"

lemma play_append: "play y (ms @ ms') = Option.bind (play y ms) (\<lambda>y'. play y' ms')"
  by (induction y ms rule: play.induct) simp_all

lemma db_reaches_trans: "db_reaches y y' \<Longrightarrow> db_reaches y' y'' \<Longrightarrow> db_reaches y y''"
  by (rotate_tac, induction rule: db_reaches.induct) (auto intro: db_reaches.more)

lemma run_session_step:
  assumes "enabled y i"
  shows "db_step y (run_session y i)"
proof -
  have i: "i < length (com_sessions y)" using assms by (simp add: enabled_def)
  show ?thesis
  proof (cases "\<exists>a. ses_stage (com_sessions y ! i) = Finished a")
    case True
    then obtain a where "ses_stage (com_sessions y ! i) = Finished a" by blast
    with db_step.commits [OF i refl this] show ?thesis by (simp add: run_session_def Let_def)
  next
    case False
    then have "run_session y i = set_session y i (statement (com_tables y) (com_sessions y ! i))"
      by (auto simp: run_session_def Let_def split: stage.splits)
    with db_step.run [OF assms refl] show ?thesis by simp
  qed
qed

lemma play_reaches: "play y ms = Some y' \<Longrightarrow> db_reaches y y'"
proof (induction y ms rule: play.induct)
  case (1 y)
  then show ?case by (simp add: db_reaches.start)
next
  case (2 y c now ms)
  then show ?case
    using db_reaches_trans [OF db_reaches.more [OF db_reaches.start db_step.invoke]] by (simp split: if_splits)
next
  case (3 y i ms)
  then show ?case
    using db_reaches_trans [OF db_reaches.more [OF db_reaches.start run_session_step]] by (simp split: if_splits)
qed

section \<open>Uploads only\<close>

definition only_uploads :: "replicas \<Rightarrow> bool" where
  "only_uploads y \<longleftrightarrow> (\<forall>s \<in> set (com_sessions y). case ses_call s of AppendCall k prev body \<Rightarrow> True | _ \<Rightarrow> False)"

lemma map_update_same: "i < length xs \<Longrightarrow> f x = f (xs ! i) \<Longrightarrow> map f (xs[i := x]) = map f xs"
  by (simp add: map_update list_update_same_conv)

lemma db_step_calls:
  assumes "db_step y y'"
  shows "\<exists>cs. map (\<lambda>s. (ses_call s, ses_now s)) (com_sessions y') =
     map (\<lambda>s. (ses_call s, ses_now s)) (com_sessions y) @ cs"
  using assms
proof (cases rule: db_step.cases)
  case (invoke c now)
  then show ?thesis by simp
next
  case (run i s)
  then show ?thesis by (intro exI [of _ "[]"]) (simp add: map_update_same enabled_def)
qed (intro exI [of _ "[]"], simp add: map_update_same)+

lemma only_uploads_calls:
  assumes "only_uploads y" and "map ses_call (com_sessions y') = map ses_call (com_sessions y)"
  shows "only_uploads y'"
proof -
  have calls: "only_uploads z \<longleftrightarrow> (\<forall>c \<in> set (map ses_call (com_sessions z)). case c of AppendCall k prev body \<Rightarrow> True | _ \<Rightarrow> False)" for z
    by (simp add: only_uploads_def)
  show ?thesis unfolding calls [of y'] assms(2) using assms(1) unfolding calls [of y] .
qed

lemma only_uploads_back:
  assumes "db_step y y'" and "only_uploads y'"
  shows "only_uploads y"
proof -
  obtain cs where "map (\<lambda>s. (ses_call s, ses_now s)) (com_sessions y') =
     map (\<lambda>s. (ses_call s, ses_now s)) (com_sessions y) @ cs" using db_step_calls [OF assms(1)] by blast
  from arg_cong [OF this, of set] have "ses_call ` set (com_sessions y) \<subseteq> ses_call ` set (com_sessions y')"
    by (force simp: image_iff)
  with assms(2) show ?thesis unfolding only_uploads_def by fastforce
qed

definition place_of :: "tables \<Rightarrow> BlobKey \<Rightarrow> log_row list" where
  "place_of t k = rows_of t (key_Pseudonym k) (key_DeviceID k) (key_Generation k)"

text \<open>
  Past the query for the head, an upload is not beyond the next place of its generation; once
  acknowledged, its entry is there.
\<close>

definition upload_ok :: "tables \<Rightarrow> session \<Rightarrow> bool" where
  "upload_ok t s \<longleftrightarrow>
     (case ses_call s of
        AppendCall k prev body \<Rightarrow>
          (case ses_stage s of
             Opened \<Rightarrow> True
           | Answered (Uploaded (Inr r)) \<Rightarrow> r = (sha256_hex (content body), int (length (content body))) \<and>
               new_row k prev (ses_now s) (content body) \<in> set (blob_log t) \<and> whole t k (content body)
           | Answered _ \<Rightarrow> True
           | _ \<Rightarrow> 1 \<le> key_Seq k \<and> key_Seq k \<le> int (length (place_of t k)) + 1)
      | _ \<Rightarrow> False)"

definition acknowledged :: "session \<Rightarrow> BlobKey \<Rightarrow> bool" where
  "acknowledged s k \<longleftrightarrow> (\<exists>prev body r. ses_call s = AppendCall k prev body \<and> ses_stage s = Answered (Uploaded (Inr r)))"

definition from_session :: "replicas \<Rightarrow> log_row \<Rightarrow> bool" where
  "from_session y l \<longleftrightarrow> (\<exists>s \<in> set (com_sessions y). \<exists>k prev body.
     ses_call s = AppendCall k prev body \<and> l = new_row k prev (ses_now s) (content body))"

definition uploads_ok :: "replicas \<Rightarrow> bool" where
  "uploads_ok y \<longleftrightarrow> tbl_ok (com_tables y) \<and> (\<forall>s \<in> set (com_sessions y). upload_ok (com_tables y) s) \<and>
     (\<forall>i < length (com_sessions y). \<forall>j < length (com_sessions y). \<forall>k. i \<noteq> j \<longrightarrow>
        acknowledged (com_sessions y ! i) k \<longrightarrow> \<not> acknowledged (com_sessions y ! j) k) \<and>
     (\<forall>l \<in> set (blob_log (com_tables y)). from_session y l)"

lemma head_of_place:
  assumes "tbl_ok t" and "select_max_seq t k = Inr head"
  shows "(case head of None \<Rightarrow> 1 | Some h \<Rightarrow> h + 1) = int (length (place_of t k)) + 1"
  using select_max_seq_Inr [OF assms] by (simp add: log_of_def place_of_def)

text \<open>Its place is the next one when it commits, as no other has taken it.\<close>

lemma free_next:
  assumes "tbl_ok t" and "free t k" and "1 \<le> key_Seq k" and "key_Seq k \<le> int (length (place_of t k)) + 1"
  shows "key_Seq k = int (length (log_of (tbl_logs t) k)) + 1"
proof (rule ccontr)
  assume "\<not> ?thesis"
  with assms(4) have "key_Seq k \<le> int (length (place_of t k))" by (simp add: log_of_def place_of_def)
  then obtain l where "l \<in> set (place_of t k)" "l_seq l = key_Seq k"
    using tbl_row_at [OF assms(1,3)] unfolding place_of_def by blast
  then have "l \<in> set (blob_log t)" "log_key l = k" by (auto simp: place_of_def rows_ofD log_key_def)
  with assms(2) show False by (auto simp: free_def)
qed

lemma from_session_update:
  assumes "from_session y l" and "i < length (com_sessions y)"
    and "ses_call s = ses_call (com_sessions y ! i)" "ses_now s = ses_now (com_sessions y ! i)"
  shows "from_session (set_session (y\<lparr>com_tables := t\<rparr>) i s) l"
proof -
  have "map (\<lambda>s. (ses_call s, ses_now s)) ((com_sessions y)[i := s]) = map (\<lambda>s. (ses_call s, ses_now s)) (com_sessions y)"
    using assms(2-) by (intro map_update_same) simp_all
  from arg_cong [OF this, of set] have same: "(ses_call x, ses_now x) \<in> (\<lambda>s. (ses_call s, ses_now s)) ` set ((com_sessions y)[i := s])"
    if "x \<in> set (com_sessions y)" for x using that by (metis (no_types, lifting) image_eqI list.set_map)
  from assms(1) obtain x k prev body where x: "x \<in> set (com_sessions y)" "ses_call x = AppendCall k prev body"
    "l = new_row k prev (ses_now x) (content body)" unfolding from_session_def by blast
  from same [OF x(1)] obtain x' where x': "x' \<in> set ((com_sessions y)[i := s])"
    "(ses_call x, ses_now x) = (ses_call x', ses_now x')" by (rule imageE)
  then have "x' \<in> set (com_sessions (set_session (y\<lparr>com_tables := t\<rparr>) i s))" by simp
  moreover have "ses_call x' = AppendCall k prev body" "l = new_row k prev (ses_now x') (content body)" using x x'(2) by simp_all
  ultimately show ?thesis unfolding from_session_def by blast
qed

lemma uploads_okD:
  assumes "uploads_ok y"
  shows "tbl_ok (com_tables y)" and "s \<in> set (com_sessions y) \<Longrightarrow> upload_ok (com_tables y) s"
    and "a < length (com_sessions y) \<Longrightarrow> b < length (com_sessions y) \<Longrightarrow> a \<noteq> b \<Longrightarrow>
      acknowledged (com_sessions y ! a) k \<Longrightarrow> \<not> acknowledged (com_sessions y ! b) k"
    and "l \<in> set (blob_log (com_tables y)) \<Longrightarrow> from_session y l"
  using assms unfolding uploads_ok_def by metis+

lemma uploads_ok_update:
  assumes ok: "uploads_ok y" and i: "i < length (com_sessions y)"
    and "tbl_ok t" and "upload_ok t s"
    and call: "ses_call s = ses_call (com_sessions y ! i)" "ses_now s = ses_now (com_sessions y ! i)"
    and others: "\<And>s'. upload_ok (com_tables y) s' \<Longrightarrow> upload_ok t s'"
    and acks: "\<And>j k. acknowledged s k \<Longrightarrow> j < length (com_sessions y) \<Longrightarrow> j \<noteq> i \<Longrightarrow> \<not> acknowledged (com_sessions y ! j) k"
    and rows: "\<And>l. l \<in> set (blob_log t) \<Longrightarrow> l \<in> set (blob_log (com_tables y)) \<or>
      (\<exists>k prev body. ses_call s = AppendCall k prev body \<and> l = new_row k prev (ses_now s) (content body))"
  shows "uploads_ok (set_session (y\<lparr>com_tables := t\<rparr>) i s)"
proof -
  let ?ss = "(com_sessions y)[i := s]" and ?y = "set_session (y\<lparr>com_tables := t\<rparr>) i s"
  have "upload_ok t (?ss ! j)" if "j < length ?ss" for j
    using that assms(4) others uploads_okD(2) [OF ok] by (cases "j = i") auto
  moreover have "\<not> acknowledged (?ss ! b) k"
    if "a < length ?ss" "b < length ?ss" "a \<noteq> b" "acknowledged (?ss ! a) k" for a b k
  proof (cases "a = i")
    case True
    with that acks show ?thesis by simp
  next
    case False
    show ?thesis
    proof
      assume b: "acknowledged (?ss ! b) k"
      show False
      proof (cases "b = i")
        case True
        with b that acks [of k a] i False show False by simp
      next
        case False
        with b that \<open>a \<noteq> i\<close> uploads_okD(3) [OF ok, of a b k] show False by simp
      qed
    qed
  qed
  moreover have "from_session ?y l" if l: "l \<in> set (blob_log t)" for l
    using rows [OF l]
  proof
    assume "l \<in> set (blob_log (com_tables y))"
    then have "from_session y l" by (rule uploads_okD(4) [OF ok])
    then show ?thesis using from_session_update i call by blast
  next
    assume "\<exists>k prev body. ses_call s = AppendCall k prev body \<and> l = new_row k prev (ses_now s) (content body)"
    moreover have "s \<in> set ?ss" using i by (simp add: set_update_memI)
    ultimately show ?thesis unfolding from_session_def by (intro bexI [of _ s]) simp_all
  qed
  ultimately have "\<forall>s \<in> set ?ss. upload_ok t s" "\<forall>l \<in> set (blob_log t). from_session ?y l"
    "\<forall>a < length ?ss. \<forall>b < length ?ss. \<forall>k. a \<noteq> b \<longrightarrow> acknowledged (?ss ! a) k \<longrightarrow> \<not> acknowledged (?ss ! b) k"
    by (metis in_set_conv_nth, metis, metis)
  with assms(3) show ?thesis unfolding uploads_ok_def by simp
qed

lemma sees_upload:
  assumes "new_chunks s = chunk_rows k 0 (chunks ChunkBytes data)" "new_log s = [new_row k prev (ses_now s) data]"
    "dead_chunks s = []" "dead_log s = []"
  shows "sees t s = append_tables k prev (ses_now s) data t"
  using assms by (simp add: sees_def append_tables_def add_chunks_def)

lemma append_statement_streams:
  assumes "ses_stage s = Streaming idx h sz rd"
  shows "(\<exists>idx' h' sz' rd'. ses_stage (append_statement t k prev s body) = Streaming idx' h' sz' rd') \<or>
     (\<exists>h' sz'. ses_stage (append_statement t k prev s body) = Streamed h' sz') \<or>
     (\<exists>e. append_statement t k prev s body = ended s (Uploaded (Inl e)))"
proof -
  obtain buf err rd' where rd: "ReadFull ChunkBytes rd = (buf, err, rd')" by (metis prod_cases3)
  note run = append_statement_def [of t k prev s body, unfolded assms stage.case rd prod.case Let_def]
  show ?thesis
  proof (cases "if buf \<noteq> [] then insert_chunk (sees t s) k idx buf else Inr (sees t s)")
    case (Inr t')
    then show ?thesis unfolding run by (cases err) (auto simp: ended_def)
  qed (auto simp: run)
qed

lemma upload_ok_statement:
  assumes "tbl_ok t" and "stage_ok s" and "upload_ok t s"
  shows "upload_ok t (statement t s)" and "acknowledged (statement t s) k \<Longrightarrow> acknowledged s k"
proof -
  obtain k' prev body where call: "ses_call s = AppendCall k' prev body"
    using assms(3) by (cases "ses_call s") (simp_all add: upload_ok_def)
  with assms(2) have app: "append_ok k' prev body s" by (simp add: stage_ok_def)
  have one: "upload_ok t (statement t s) \<and> (acknowledged (statement t s) k \<longrightarrow> acknowledged s k)"
  proof (cases "ses_stage s")
    case Opened
    then have "sees t s = t" using app by (simp add: append_ok_def sees_def)
    with Opened call head_of_place [OF assms(1), of k'] show ?thesis
      by (auto simp: statement_def append_statement_def upload_ok_def acknowledged_def Let_def split: sum.splits)
  next
    case (Streaming idx h sz rd)
    have "statement t s = append_statement t k' prev s body" using call by (simp add: statement_def)
    with append_statement_streams [OF Streaming, of t k' prev body] assms(3) call Streaming statement_call [of t s]
    show ?thesis by (auto simp: upload_ok_def acknowledged_def)
  qed (use assms(3) call in
      \<open>auto simp: statement_def append_statement_def upload_ok_def acknowledged_def split: sum.splits\<close>)
  then show "upload_ok t (statement t s)" "acknowledged (statement t s) k \<Longrightarrow> acknowledged s k" by blast+
qed

lemma upload_ok_append:
  assumes "upload_ok t s'" and "links t s" and "dead_chunks s = []" and "sees t s = append_tables k prev now data t"
  shows "upload_ok (sees t s) s'"
proof -
  have "length (place_of t k') \<le> length (place_of (sees t s) k')" for k'
    by (simp add: assms(4) place_of_def rows_of_append)
  moreover have "set (blob_log t) \<subseteq> set (blob_log (sees t s))" by (auto simp: assms(4) append_tables_def)
  moreover have "whole t k' data' \<Longrightarrow> whole (sees t s) k' data'" for k' data'
    using whole_commit [OF assms(2)] assms(3) by simp
  ultimately show ?thesis using assms(1)
    by (fastforce simp: upload_ok_def split: pg_call.splits stage.splits pg_answer.splits sum.splits intro: order_trans)
qed

text \<open>An upload that commits, and is told so or not.\<close>

lemma uploads_ok_commit:
  assumes ok: "system_ok y" "uploads_ok y" and i: "i < length (com_sessions y)" "s = com_sessions y ! i"
    and fin: "ses_stage s = Finished a" and b: "b = a \<or> (\<exists>e. b = Uploaded (Inl e))"
  shows "uploads_ok (set_session (y\<lparr>com_tables := sees (com_tables y) s\<rparr>) i (ended s b))"
proof -
  let ?t = "com_tables y"
  note s = system_ok_session [OF ok(1) i(1), folded i(2)]
  have up: "upload_ok ?t s" and t: "tbl_ok ?t" using uploads_okD [OF ok(2)] i by simp_all
  from s(1) fin show ?thesis
  proof (cases rule: finished_writes)
    case (upload k prev body)
    note new = sees_upload [OF upload(3-6), of ?t]
    have free: "free ?t k"
    proof -
      obtain c where c: "c \<in> set (new_chunks s)"
        using upload(2,3) by (cases "chunks ChunkBytes (content body)") (auto simp: chunks_eq_Nil_iff ChunkBytes_def)
      with links_new [OF s(2) c] chunk_rows_chunk_key upload(3) show ?thesis by metis
    qed
    have "1 \<le> key_Seq k \<and> key_Seq k \<le> int (length (place_of ?t k)) + 1" using up upload(1) fin by (simp add: upload_ok_def)
    with free_next [OF t free] have seq: "key_Seq k = int (length (log_of (tbl_logs ?t) k)) + 1" by blast
    show ?thesis
    proof (rule uploads_ok_update [OF ok(2) i(1)])
      show "tbl_ok (sees ?t s)" unfolding new by (rule tbl_ok_append [OF t seq upload(8,2)])
      show "upload_ok (sees ?t s) (ended s b)"
        using b upload whole_new [OF s(2) upload(3,2)] new by (auto simp: upload_ok_def append_tables_def)
      show "upload_ok (sees ?t s) s'" if "upload_ok ?t s'" for s'
        by (rule upload_ok_append [OF that s(2) upload(5) new])
      show "\<not> acknowledged (com_sessions y ! j) k'"
        if "acknowledged (ended s b) k'" "j < length (com_sessions y)" "j \<noteq> i" for j k'
      proof
        assume ack: "acknowledged (com_sessions y ! j) k'"
        have "k' = k" using that(1) upload(1) by (auto simp: acknowledged_def)
        moreover have "upload_ok ?t (com_sessions y ! j)" using uploads_okD(2) [OF ok(2)] that(2) by simp
        with ack have "k' \<in> log_key ` set (blob_log ?t)"
          by (auto simp: acknowledged_def upload_ok_def image_iff intro!: bexI)
        ultimately show False using free by (simp add: free_def)
      qed
    qed (use i new upload(1) in \<open>auto simp: append_tables_def\<close>)
  next
    case delete
    with up fin s(1) show ?thesis by (auto simp: upload_ok_def stage_ok_def append_ok_def split: pg_call.splits)
  qed
qed

lemma upload_failure: "upload_ok t s \<Longrightarrow> \<exists>e'. failure s e = Uploaded (Inl e')"
  by (cases "ses_call s") (simp_all add: upload_ok_def failure_def)

lemma upload_refused:
  assumes "upload_ok t s"
  shows "upload_ok t (ended s (Uploaded (Inl e)))" and "\<not> acknowledged (ended s (Uploaded (Inl e))) k"
  using assms by (cases "ses_call s"; simp add: upload_ok_def acknowledged_def)+

lemma uploads_ok_step:
  assumes ok: "system_ok y" "uploads_ok y" and step: "db_step y y'" and only: "only_uploads y'"
  shows "uploads_ok y'"
  using step
proof (cases rule: db_step.cases)
  case (invoke c now)
  have "begun c now \<in> set (com_sessions y')" unfolding invoke(1) by simp
  then have new: "upload_ok (com_tables y) (begun c now)"
    using only by (cases c) (auto simp: only_uploads_def begun_def upload_ok_def)
  have none: "\<not> acknowledged (begun c now) k" for k by (simp add: acknowledged_def begun_def)
  have "\<forall>s \<in> set (com_sessions y'). upload_ok (com_tables y') s"
    using new uploads_okD(2) [OF ok(2)] unfolding invoke(1) by auto
  moreover have "\<forall>l \<in> set (blob_log (com_tables y')). from_session y' l"
    using uploads_okD(4) [OF ok(2)] unfolding invoke(1) from_session_def by simp
  moreover have "\<not> acknowledged (com_sessions y' ! b) k" if "a < length (com_sessions y')" "b < length (com_sessions y')"
    "a \<noteq> b" "acknowledged (com_sessions y' ! a) k" for a b k
    using that none uploads_okD(3) [OF ok(2), of a b k] unfolding invoke(1)
    by (cases "a < length (com_sessions y)"; cases "b < length (com_sessions y)") (simp_all add: nth_append)
  ultimately show ?thesis using uploads_okD(1) [OF ok(2)] unfolding uploads_ok_def by (simp add: invoke(1))
next
  case (run i s)
  have i: "i < length (com_sessions y)" using run(2) by (simp add: enabled_def)
  note s = system_ok_session [OF ok(1) i, folded run(3)]
  have up: "upload_ok (com_tables y) s" and t: "tbl_ok (com_tables y)" using uploads_okD [OF ok(2)] i run(3) by simp_all
  note st = upload_ok_statement [OF t s(1) up]
  have "uploads_ok (set_session (y\<lparr>com_tables := com_tables y\<rparr>) i (statement (com_tables y) s))"
    by (rule uploads_ok_update [OF ok(2) i t st(1)])
      (use st(2) uploads_okD(3) [OF ok(2) i] i run(3) in auto)
  then show ?thesis unfolding run(1) by simp
next
  case (commits i s a)
  from uploads_ok_commit [OF ok commits(2-4), of a] show ?thesis unfolding commits(1) by simp
next
  case (lost i s a e)
  have "upload_ok (com_tables y) s" using uploads_okD(2) [OF ok(2)] lost(2,3) by simp
  then have "\<exists>e'. failure s e = Uploaded (Inl e')" by (rule upload_failure)
  with uploads_ok_commit [OF ok lost(2-4), of "failure s e"] show ?thesis unfolding lost(1) by blast
next
  case (fails i s e)
  have up: "upload_ok (com_tables y) s" and t: "tbl_ok (com_tables y)" using uploads_okD [OF ok(2)] fails(2,3) by simp_all
  from upload_failure [OF up] upload_refused [OF up] have "upload_ok (com_tables y) (ended s (failure s e))" "\<not> acknowledged (ended s (failure s e)) k" for k
    by metis+
  then have "uploads_ok (set_session (y\<lparr>com_tables := com_tables y\<rparr>) i (ended s (failure s e)))"
    using fails(2,3) by (intro uploads_ok_update [OF ok(2) fails(2) t]) auto
  then show ?thesis unfolding fails(1) by simp
qed

lemma uploads_ok_reaches: "db_reaches new_service y \<Longrightarrow> only_uploads y \<Longrightarrow> uploads_ok y"
proof (induction rule: db_reaches.induct)
  case start
  show ?case by (simp add: uploads_ok_def new_service_def) (simp add: empty_tables_def)
next
  case (more y y')
  then show ?case using uploads_ok_step [OF system_ok_reaches] only_uploads_back by blast
qed

text \<open>
  C6: However uploads from any number of replicas interleave, whatever the database fails or whichever
  reply it loses: every log stays gapless with the digests and sizes of its data, an upload is
  acknowledged only with its own digest and size and its entry is then at exactly the place it
  asked for, no two are acknowledged for one place, and nothing is stored that nobody uploaded.
\<close>

theorem concurrent_uploads:
  assumes "db_reaches new_service y" and "only_uploads y"
  defines "t \<equiv> com_tables y" and "ss \<equiv> com_sessions y"
  shows "tbl_ok t \<and>
     (\<forall>s \<in> set ss. \<forall>k prev body sha sz. ses_call s = AppendCall k prev body \<longrightarrow>
        ses_stage s = Answered (Uploaded (Inr (sha, sz))) \<longrightarrow>
          sha = sha256_hex (content body) \<and> sz = int (length (content body)) \<and>
          1 \<le> key_Seq k \<and> key_Seq k \<le> int (length (log_of (tbl_logs t) k)) \<and>
          log_of (tbl_logs t) k ! nat (key_Seq k - 1) =
            \<lparr>s_data = content body, s_prev = prev, s_created = ses_now s\<rparr>) \<and>
     (\<forall>i < length ss. \<forall>j < length ss. \<forall>k. i \<noteq> j \<longrightarrow> acknowledged (ss ! i) k \<longrightarrow> \<not> acknowledged (ss ! j) k) \<and>
     (\<forall>l \<in> set (blob_log t). from_session y l)"
proof -
  note ok = uploads_okD [OF uploads_ok_reaches [OF assms(1,2)], folded t_def ss_def]
  have "sha = sha256_hex (content body) \<and> sz = int (length (content body)) \<and>
      1 \<le> key_Seq k \<and> key_Seq k \<le> int (length (log_of (tbl_logs t) k)) \<and>
      log_of (tbl_logs t) k ! nat (key_Seq k - 1) = \<lparr>s_data = content body, s_prev = prev, s_created = ses_now s\<rparr>"
    if s: "s \<in> set ss" "ses_call s = AppendCall k prev body" "ses_stage s = Answered (Uploaded (Inr (sha, sz)))"
    for s k prev body sha sz
  proof -
    let ?l = "new_row k prev (ses_now s) (content body)"
    have l: "sha = sha256_hex (content body)" "sz = int (length (content body))" "?l \<in> set (blob_log t)"
      "whole t k (content body)"
      using ok(2) [OF s(1)] s(2,3) by (auto simp: upload_ok_def)
    then have row: "?l \<in> set (rows_of t (key_Pseudonym k) (key_DeviceID k) (key_Generation k))"
      by (auto simp: rows_ofD new_row_def)
    have "l_seq ?l = key_Seq k" by (simp add: new_row_def)
    moreover have "stored_of_log t ?l = \<lparr>s_data = content body, s_prev = prev, s_created = ses_now s\<rparr>"
      using whole_chunks [OF l(4)] by (simp add: stored_of_log_def data_of_def new_row_def)
    ultimately show ?thesis using tbl_logs_nth [OF ok(1) row] l(1,2) by (simp add: log_of_def)
  qed
  with ok show ?thesis by blast
qed

text \<open>
  C7: A download never sees a part of an entry: whatever uploads, prunes and erasures interleave
  and wherever they break off, an entry that \<open>Get\<close> finds is delivered to its end with the size it
  announced and the digest of its row.
\<close>

theorem concurrent_downloads_whole:
  assumes "db_reaches new_service y" and "db_tables db = com_tables y" and "db_faults db = []"
    and "PostgresStore_Get db k = (Inr (rd, sz), db')"
  shows "\<exists>l \<in> set (blob_log (com_tables y)). log_key l = k \<and> l_size l = sz \<and> sz = int (length (content rd)) \<and>
     l_sha256 l = sha256_hex (content rd) \<and> ending rd = EOF \<and> content rd \<noteq> []"
  using Get_whole [OF _ assms(3,4)] system_ok_reaches [OF assms(1)] assms(2) by (simp add: system_ok_def)

section \<open>Every upload gets its answer\<close>

text \<open>
  Only the first chunk of a place can be waited for, by a transaction that holds nothing yet, so
  that the one waited for is never waiting itself.
\<close>

lemma upload_waits:
  assumes "append_ok k prev body s" "ses_call s = AppendCall k prev body" "apart s s'" "stage_ok s'"
    and "\<exists>k' prev' body'. ses_call s' = AppendCall k' prev' body'" and "waits_for t s s'" and "links t s'"
  shows "new_chunks s = []" and "new_chunks s' \<noteq> []"
proof -
  obtain k' prev' body' where app': "append_ok k' prev' body' s'" using assms(4,5) by (auto simp: stage_ok_def)
  then have dead: "dead_chunks s' = []" "dead_log s' = []" by (simp_all add: append_ok_def)
  from assms(6,2) consider idx h sz rd c where "ses_stage s = Streaming idx h sz rd" "c \<in> set (new_chunks s')" "chunk_key c = k" "ch_idx c = idx"
    | h sz where "ses_stage s = Streamed h sz" "k \<in> log_key ` set (new_log s')"
    by (auto simp: waits_for_def dead split: stage.splits)
  then have "new_chunks s = [] \<and> new_chunks s' \<noteq> []"
  proof cases
    case 1
    have "k \<notin> chunk_key ` set (new_chunks s)" using 1(2,3) assms(3) by (auto simp: apart_def)
    with append_new_key [OF assms(1)] have "new_chunks s = []" by (cases "new_chunks s") auto
    with 1(2) show ?thesis by auto
  next
    case 2
    from 2(2) obtain c where "c \<in> set (new_chunks s')" "chunk_key c = k"
      using links_new_log [OF assms(7)] by (metis imageE)
    moreover have "k \<in> chunk_key ` set (new_chunks s)"
      using 2(1) assms(1) append_new_key [OF assms(1)]
      by (cases "chunks ChunkBytes h") (auto simp: append_ok_def chunks_eq_Nil_iff ChunkBytes_def)
    ultimately show ?thesis using assms(3) by (auto simp: apart_def)
  qed
  then show "new_chunks s = []" "new_chunks s' \<noteq> []" by blast+
qed

definition has_answer :: "session \<Rightarrow> bool" where
  "has_answer s \<longleftrightarrow> (case ses_stage s of Answered a \<Rightarrow> True | _ \<Rightarrow> False)"

lemma has_answer_iff: "has_answer s \<longleftrightarrow> (\<exists>a. ses_stage s = Answered a)"
  by (auto simp: has_answer_def split: stage.splits)

text \<open>What is left of a call: what is left of the body, and the statements after it.\<close>

definition session_left :: "session \<Rightarrow> nat" where
  "session_left s =
     (case ses_stage s of
        Opened \<Rightarrow> (case ses_call s of AppendCall k prev body \<Rightarrow> reads_left body + 4 | _ \<Rightarrow> 4)
      | Streaming idx h sz rd \<Rightarrow> reads_left rd + 3
      | Streamed h sz \<Rightarrow> 2
      | Finished a \<Rightarrow> 1
      | Answered a \<Rightarrow> 0
      | Guarded \<Rightarrow> 3
      | ChunksGone \<Rightarrow> 2)"

lemma statement_left:
  assumes "ses_call s = AppendCall k prev body" and "append_ok k prev body s" and "\<not> has_answer s" and "\<forall>a. ses_stage s \<noteq> Finished a"
  shows "session_left (statement t s) < session_left s"
proof (cases "ses_stage s")
  case (Streaming idx h sz rd)
  obtain buf err rd' where rd: "ReadFull ChunkBytes rd = (buf, err, rd')" by (metis prod_cases3)
  have "statement t s = append_statement t k prev s body" using assms(1) by (simp add: statement_def)
  note run = this [unfolded append_statement_def Streaming stage.case rd prod.case Let_def]
  have "err = None \<Longrightarrow> reads_left rd' < reads_left rd" using ReadFull_progress [of ChunkBytes rd buf rd'] rd by (simp add: ChunkBytes_def)
  then show ?thesis unfolding run
    by (cases err) (auto simp: session_left_def Streaming split: sum.splits)
qed (use assms in \<open>auto simp: statement_def append_statement_def session_left_def append_ok_def has_answer_def Let_def split: sum.splits\<close>)

lemma only_uploads_call:
  assumes "only_uploads y" and "i < length (com_sessions y)"
  obtains k prev body where "ses_call (com_sessions y ! i) = AppendCall k prev body"
  using assms nth_mem [OF assms(2)] unfolding only_uploads_def by (cases "ses_call (com_sessions y ! i)") fastforce+

lemma some_enabled:
  assumes ok: "system_ok y" and only: "only_uploads y" and i: "i < length (com_sessions y)" "\<not> has_answer (com_sessions y ! i)"
  shows "\<exists>j. enabled y j \<and> \<not> has_answer (com_sessions y ! j)"
proof (cases "enabled y i")
  case False
  let ?s = "\<lambda>i. com_sessions y ! i"
  from False i obtain j where j: "j < length (com_sessions y)" "j \<noteq> i" "waits_for (com_tables y) (?s i) (?s j)"
    by (auto simp: enabled_def)
  have app: "\<exists>k prev body. ses_call (?s a) = AppendCall k prev body \<and> append_ok k prev body (?s a)" if a: "a < length (com_sessions y)" for a
  proof -
    obtain k prev body where "ses_call (?s a) = AppendCall k prev body" using only_uploads_call [OF only a] .
    with system_ok_session(1) [OF ok a] show ?thesis by (auto simp: stage_ok_def)
  qed
  have wait: "new_chunks (?s a) = [] \<and> new_chunks (?s b) \<noteq> []"
    if ab: "a < length (com_sessions y)" "b < length (com_sessions y)" "b \<noteq> a" "waits_for (com_tables y) (?s a) (?s b)" for a b
  proof -
    obtain k prev body where a: "ses_call (?s a) = AppendCall k prev body" "append_ok k prev body (?s a)" using app [OF ab(1)] by blast
    have b: "\<exists>k' prev' body'. ses_call (?s b) = AppendCall k' prev' body'" using only_uploads_call [OF only ab(2)] by metis
    from upload_waits [OF a(2,1) system_ok_session(3) [OF ok ab(1-3)] system_ok_session(1) [OF ok ab(2)] b ab(4)
        system_ok_session(2) [OF ok ab(2)]] show ?thesis by (rule conjI)
  qed
  have held: "new_chunks (?s j) \<noteq> []" using wait [OF i(1) j] by blast
  then have "enabled y j" using wait j(1) unfolding enabled_def by blast
  moreover have "\<not> has_answer (?s j)" using app [OF j(1)] held by (auto simp: has_answer_iff append_ok_def)
  ultimately show ?thesis by blast
qed (use i in blast)

lemma sum_list_update_less:
  fixes f :: "'a \<Rightarrow> nat"
  assumes "i < length xs" and "f x < f (xs ! i)"
  shows "sum_list (map f (xs[i := x])) < sum_list (map f xs)"
proof -
  have "xs[i := x] = take i xs @ x # drop (Suc i) xs" using assms(1) by (rule upd_conv_take_nth_drop)
  moreover have "xs = take i xs @ xs ! i # drop (Suc i) xs" using assms(1) by (simp add: id_take_nth_drop)
  then have "sum_list (map f xs) = sum_list (map f (take i xs)) + f (xs ! i) + sum_list (map f (drop (Suc i) xs))"
    by (metis (no_types, lifting) add.assoc list.map(2) map_append sum_list.Cons sum_list_append)
  ultimately show ?thesis using assms(2) by simp
qed

text \<open>
  C8: No uploads block each other for good: from every state that uploads alone can reach, the
  database has only to go on answering for every call under way to be answered, in finitely
  many statements and without an error of its own making.
\<close>

theorem uploads_all_answered:
  assumes "db_reaches new_service y" and "only_uploads y"
  shows "\<exists>is y'. play y (map Run is) = Some y' \<and>
     map ses_call (com_sessions y') = map ses_call (com_sessions y) \<and>
     (\<forall>s \<in> set (com_sessions y'). \<exists>a. ses_stage s = Answered a)"
  using assms
proof (induction "sum_list (map session_left (com_sessions y))" arbitrary: y rule: less_induct)
  case less
  note ok = system_ok_reaches [OF less.prems(1)]
  show ?case
  proof (cases "\<exists>i < length (com_sessions y). \<not> has_answer (com_sessions y ! i)")
    case False
    then have "\<forall>s \<in> set (com_sessions y). \<exists>a. ses_stage s = Answered a" by (auto simp: has_answer_iff in_set_conv_nth)
    then show ?thesis by (intro exI [of _ "[]"] exI [of _ y]) simp
  next
    case True
    then obtain i where i: "enabled y i" "\<not> has_answer (com_sessions y ! i)" using some_enabled [OF ok less.prems(2)] by blast
    then have lt: "i < length (com_sessions y)" by (simp add: enabled_def)
    let ?s = "com_sessions y ! i" and ?y = "run_session y i"
    obtain k prev body where call: "ses_call ?s = AppendCall k prev body" using only_uploads_call [OF less.prems(2) lt] .
    obtain s' where s': "com_sessions ?y = (com_sessions y)[i := s']" "ses_call s' = ses_call ?s" "session_left s' < session_left ?s"
    proof (cases "\<exists>a. ses_stage ?s = Finished a")
      case True
      then show thesis by (intro that [of "ended ?s (SOME a. ses_stage ?s = Finished a)"])
          (auto simp: run_session_def Let_def session_left_def)
    next
      case False
      then have "com_sessions ?y = (com_sessions y)[i := statement (com_tables y) ?s]"
        by (auto simp: run_session_def Let_def split: stage.splits)
      moreover have "append_ok k prev body ?s" using system_ok_session(1) [OF ok lt] call by (simp add: stage_ok_def)
      ultimately show thesis using False statement_left [OF call _ i(2)] by (intro that [of "statement (com_tables y) ?s"]) simp_all
    qed
    have calls: "map ses_call (com_sessions ?y) = map ses_call (com_sessions y)"
      using s'(1,2) lt by (simp add: map_update_same)
    have "db_reaches new_service ?y" using db_reaches.more [OF less.prems(1) run_session_step [OF i(1)]] .
    moreover have "only_uploads ?y"
      using less.prems(2) calls by (rule only_uploads_calls)
    moreover have "sum_list (map session_left (com_sessions ?y)) < sum_list (map session_left (com_sessions y))"
      unfolding s'(1) by (rule sum_list_update_less [of i "com_sessions y" session_left, OF lt s'(3)])
    ultimately obtain "is" y' where "play ?y (map Run is) = Some y'" "map ses_call (com_sessions y') = map ses_call (com_sessions ?y)"
      "\<forall>s \<in> set (com_sessions y'). \<exists>a. ses_stage s = Answered a" using less.hyps by blast
    with calls i(1) show ?thesis by (intro exI [of _ "i # is"] exI [of _ y']) simp
  qed
qed

section \<open>Concrete runs\<close>

definition first_place :: BlobKey where
  "first_place = \<lparr>key_Pseudonym = ''03'', key_DeviceID = ''d'', key_Generation = 1, key_Seq = 1\<rparr>"

lemma first_place_simps [simp]:
  "key_Pseudonym first_place = ''03''" "key_DeviceID first_place = ''d''" "key_Generation first_place = 1" "key_Seq first_place = 1"
  by (simp_all add: first_place_def)

lemma first_place_names: "name_ok ''03''" "name_ok ''d''" "name_ok (sha256_hex data)"
  using sha256_hex_lower [of _ data] by (fastforce simp: name_ok_def code_of_def is_lower_hex_def is_digit_def)+

lemma first_place_checked [simp]:
  "checked [''03'', ''d''] [1] r = r" "checked [''03'', ''d''] [1, 1] r = r" "checked [''03'', ''d''] [1, 1, 0] r = r"
  "checked [''03'', ''d'', sha256_hex data] [1, 1] r = r" "checked [''03''] [] r = r" "checked [''03'', ''d''] [] r = r"
  by (auto intro!: checked_ok text_ok_name first_place_names simp: int4_ok_def)

lemma ReadFull_one: "\<exists>rd. ReadFull ChunkBytes (BytesReader [b]) = ([b], Some ErrUnexpectedEOF, rd)"
proof -
  obtain buf err rd where rd: "ReadFull ChunkBytes (BytesReader [b]) = (buf, err, rd)" by (metis prod_cases3)
  have "reader_wf (BytesReader [b])" by simp
  note law = ReadFull_stream [OF rd this]
  have "length buf \<le> 1" using arg_cong [OF law(1), of length] by simp
  then have "err \<noteq> None" using law(4) by (auto simp: ChunkBytes_def)
  then obtain e where "err = Some e" by blast
  with law rd show ?thesis by (auto split: if_splits)
qed

text \<open>Two replicas upload to one place: both pass the query for the head, the second is refused.\<close>

definition upload_race :: "move list" where
  "upload_race = [Invoke (AppendCall first_place '''' (BytesReader [1])) 1, Invoke (AppendCall first_place '''' (BytesReader [2])) 2,
     Run 0, Run 1, Run 0, Run 0, Run 0, Run 1]"

lemmas run_defs = enabled_def waits_for_def run_session_def set_session_def statement_def append_statement_def
  delete_statement_def begun_def ended_def sees_def select_max_seq_def insert_chunk_def insert_log_def
  delete_account_chunks_def delete_account_log_def doomed_chunks_def doomed_log_def missing_def guard_refuses_def
  new_service_def empty_tables_def sql_max_def asSeqConflict_def nullable_def new_row_def chunk_key_def log_key_def
  log_in_def chunk_in_def

lemma upload_race_run:
  obtains y where "play new_service upload_race = Some y" "com_sessions y = [com_sessions y ! 0, com_sessions y ! 1]"
    "ses_call (com_sessions y ! 0) = AppendCall first_place '''' (BytesReader [1])"
    "ses_call (com_sessions y ! 1) = AppendCall first_place '''' (BytesReader [2])"
    "ses_stage (com_sessions y ! 0) = Answered (Uploaded (Inr (sha256_hex [1], 1)))"
    "ses_stage (com_sessions y ! 1) = Answered (Uploaded (Inl (ErrSeqConflict AnotherAppend)))"
proof -
  obtain r1 r2 where rd: "ReadFull ChunkBytes (BytesReader [1]) = ([1], Some ErrUnexpectedEOF, r1)"
    "ReadFull ChunkBytes (BytesReader [2]) = ([2], Some ErrUnexpectedEOF, r2)" using ReadFull_one by blast
  show thesis
    by (rule that, simp add: upload_race_def run_defs rd Let_def less_Suc_eq numeral_2_eq_2) simp_all
qed

theorem concurrent_uploads_witness:
  "\<exists>y. db_reaches new_service y \<and> map ses_stage (com_sessions y) =
     [Answered (Uploaded (Inr (sha256_hex [1], 1))), Answered (Uploaded (Inl (ErrSeqConflict AnotherAppend)))] \<and>
   tbl_ok (com_tables y) \<and> s_data (log_of (tbl_logs (com_tables y)) first_place ! 0) = [1]"
proof -
  obtain y where y: "play new_service upload_race = Some y" "com_sessions y = [com_sessions y ! 0, com_sessions y ! 1]"
    "ses_call (com_sessions y ! 0) = AppendCall first_place '''' (BytesReader [1])"
    "ses_call (com_sessions y ! 1) = AppendCall first_place '''' (BytesReader [2])"
    "ses_stage (com_sessions y ! 0) = Answered (Uploaded (Inr (sha256_hex [1], 1)))"
    "ses_stage (com_sessions y ! 1) = Answered (Uploaded (Inl (ErrSeqConflict AnotherAppend)))"
    by (rule upload_race_run)
  define s s' where ss: "s = com_sessions y ! 0" "s' = com_sessions y ! 1"
  note y = y [folded ss]
  then have only: "only_uploads y" and s: "s \<in> set (com_sessions y)" by (simp_all add: only_uploads_def)
  note reached = play_reaches [OF y(1)]
  note safe = concurrent_uploads [OF reached only]
  have "log_of (tbl_logs (com_tables y)) first_place ! nat (key_Seq first_place - 1) =
      \<lparr>s_data = content (BytesReader [1]), s_prev = '''', s_created = ses_now s\<rparr>"
    using safe [THEN conjunct2, THEN conjunct1, rule_format, OF s y(3) y(5)] by (elim conjE)
  with reached y safe [THEN conjunct1] show ?thesis by (intro exI [of _ y]) simp
qed

theorem concurrent_downloads_whole_witness:
  "\<exists>y db rd sz db'. db_reaches new_service y \<and> db_tables db = com_tables y \<and>
     PostgresStore_Get db first_place = (Inr (rd, sz), db') \<and> sz = int (length (content rd)) \<and> content rd \<noteq> []"
proof -
  let ?y = "play new_service (take 7 upload_race)"
  obtain r1 r2 where rd: "ReadFull ChunkBytes (BytesReader [1]) = ([1], Some ErrUnexpectedEOF, r1)"
    "ReadFull ChunkBytes (BytesReader [2]) = ([2], Some ErrUnexpectedEOF, r2)" using ReadFull_one by blast
  obtain y where y: "?y = Some y" "blob_chunks (com_tables y) = chunk_rows first_place 0 [[1]]"
    "blob_log (com_tables y) = [new_row first_place '''' 1 [1]]"
    by (simp add: upload_race_def run_defs rd Let_def less_Suc_eq numeral_2_eq_2 eval_nat_numeral)
  let ?db = "(fresh_database 1)\<lparr>db_tables := com_tables y\<rparr>"
  have db: "db_tables ?db = com_tables y" "db_faults ?db = []" by (simp_all add: fresh_database_def)
  have "\<exists>rd db'. PostgresStore_Get ?db first_place = (Inr (rd, 1), db')"
    unfolding PostgresStore_Get_def db
    by (simp add: select_size_def select_chunks_def y(2,3) log_in_def new_row_def)
  then obtain rd db' where get: "PostgresStore_Get ?db first_place = (Inr (rd, 1), db')" by blast
  note reached = play_reaches [OF y(1)]
  from concurrent_downloads_whole [OF reached db get] reached db get show ?thesis by blast
qed

theorem uploads_all_answered_witness:
  "\<exists>y is y'. play new_service (take 5 upload_race) = Some y \<and> \<not> (\<forall>s \<in> set (com_sessions y). \<exists>a. ses_stage s = Answered a) \<and>
     play y (map Run is) = Some y' \<and> length (com_sessions y') = 2 \<and> (\<forall>s \<in> set (com_sessions y'). \<exists>a. ses_stage s = Answered a)"
proof -
  obtain r1 r2 where rd: "ReadFull ChunkBytes (BytesReader [1]) = ([1], Some ErrUnexpectedEOF, r1)"
    "ReadFull ChunkBytes (BytesReader [2]) = ([2], Some ErrUnexpectedEOF, r2)" using ReadFull_one by blast
  obtain y s s' where y: "play new_service (take 5 upload_race) = Some y" "com_sessions y = [s, s']"
    "ses_call s = AppendCall first_place '''' (BytesReader [1])" "ses_call s' = AppendCall first_place '''' (BytesReader [2])"
    "ses_stage s = Streamed [1] 1"
    by (simp add: upload_race_def run_defs rd Let_def less_Suc_eq numeral_2_eq_2 eval_nat_numeral)
  then have "only_uploads y" by (simp add: only_uploads_def)
  from uploads_all_answered [OF play_reaches [OF y(1)] this] obtain "is" y' where
    "play y (map Run is) = Some y'" "map ses_call (com_sessions y') = map ses_call (com_sessions y)"
    "\<forall>s \<in> set (com_sessions y'). \<exists>a. ses_stage s = Answered a" by blast
  with y show ?thesis
    by (intro exI [of _ y] exI [of _ "is"] exI [of _ y']) (auto dest: arg_cong [of _ _ length])
qed



definition gap_race :: "move list" where
  "gap_race = [Invoke (AppendCall first_place '''' (BytesReader [1])) 1, Run 0, Run 0, Run 0, Run 0,
     Invoke (AppendCall (first_place\<lparr>key_Seq := 2\<rparr>) '''' (BytesReader [2])) 2, Run 1,
     Invoke (EraseCall ''03'') 3, Run 2, Run 2, Run 2, Run 2, Run 1, Run 1, Run 1]"

text \<open>
  C17: An upload that overlaps an erasure can leave a gap: past its query for the head, it goes on to
  the second place of a log that is empty by then. All three calls are answered with success,
  and the log holds an entry with number 2 and none with number 1.
\<close>

theorem upload_overlaps_erasure_gap:
  "\<exists>y. play new_service gap_race = Some y \<and>
     map ses_stage (com_sessions y) =
       [Answered (Uploaded (Inr (sha256_hex [1], 1))), Answered (Uploaded (Inr (sha256_hex [2], 1))), Answered (Removed (Inr 1))] \<and>
     map l_seq (blob_log (com_tables y)) = [2]"
proof -
  obtain r1 r2 where rd: "ReadFull ChunkBytes (BytesReader [1]) = ([1], Some ErrUnexpectedEOF, r1)"
    "ReadFull ChunkBytes (BytesReader [2]) = ([2], Some ErrUnexpectedEOF, r2)" using ReadFull_one by blast
  have two: "checked [''03'', ''d''] [1, 2, 0] r = r" "checked [''03'', ''d'', sha256_hex data] [1, 2] r = r" for r :: "pq_error + 'a" and data
    by (auto intro!: checked_ok text_ok_name first_place_names simp: int4_ok_def)
  show ?thesis by (simp add: gap_race_def run_defs rd two Let_def less_Suc_eq numeral_2_eq_2)
qed

end
