(* ===== verification/Solo_Calls.thy ===== *)
theory Solo_Calls
  imports Replicas
begin

text \<open>
  The sequential model of the PostgreSQL store (\<open>Postgres_Store\<close>) is the interleaved one of
  \<open>Concurrent_Postgres\<close> restricted to one call: run statement by statement with no other call
  under way, each operation answers and leaves the tables as its sequential definition says. So
  what is proved of the one holds of the other whenever calls do not overlap.
\<close>

definition alone :: "tables \<Rightarrow> session \<Rightarrow> replicas" where
  "alone t s = \<lparr>com_tables = t, com_sessions = [s]\<rparr>"

text \<open>One call, run to a state: after some number of its own steps.\<close>

definition runs :: "tables \<Rightarrow> session \<Rightarrow> tables \<Rightarrow> session \<Rightarrow> bool" where
  "runs t s t' s' \<longleftrightarrow> (\<exists>n. play (alone t s) (replicate n (Run 0)) = Some (alone t' s'))"

lemma enabled_alone [simp]: "enabled (alone t s) 0"
  by (simp add: enabled_def alone_def)

lemma runs_refl: "runs t s t s"
  unfolding runs_def by (intro exI [of _ 0]) simp

lemma runs_next:
  assumes "run_session (alone t s) 0 = alone t1 s1" and "runs t1 s1 t' s'"
  shows "runs t s t' s'"
proof -
  from assms(2) obtain n where "play (alone t1 s1) (replicate n (Run 0)) = Some (alone t' s')" by (auto simp: runs_def)
  with assms(1) show ?thesis unfolding runs_def by (intro exI [of _ "Suc n"]) simp
qed

lemma runs_statement:
  assumes "\<forall>a. ses_stage s \<noteq> Finished a" and "runs t (statement t s) t' s'"
  shows "runs t s t' s'"
proof (rule runs_next [OF _ assms(2)])
  show "run_session (alone t s) 0 = alone t (statement t s)"
    using assms(1) by (cases "ses_stage s") (simp_all add: run_session_def alone_def set_session_def)
qed

lemma runs_commit: "ses_stage s = Finished a \<Longrightarrow> runs t s (sees t s) (ended s a)"
  by (rule runs_next [OF _ runs_refl]) (simp add: run_session_def alone_def set_session_def Let_def)

lemma runs_to: "\<forall>a. ses_stage s \<noteq> Finished a \<Longrightarrow> statement t s = s' \<Longrightarrow> runs t s t s'"
  using runs_statement runs_refl by metis

lemma runs_trans: "runs t s t1 s1 \<Longrightarrow> runs t1 s1 t' s' \<Longrightarrow> runs t s t' s'"
  unfolding runs_def
proof (elim exE)
  fix m n assume "play (alone t s) (replicate m (Run 0)) = Some (alone t1 s1)"
    "play (alone t1 s1) (replicate n (Run 0)) = Some (alone t' s')"
  then show "\<exists>n. play (alone t s) (replicate n (Run 0)) = Some (alone t' s')"
    by (intro exI [of _ "m + n"]) (simp add: replicate_add play_append)
qed

text \<open>What each call answers and leaves, by the sequential model.\<close>

fun sequential :: "pg_call \<Rightarrow> database \<Rightarrow> pg_answer \<times> tables" where
  "sequential (AppendCall k prev body) db =
     (case PostgresStore_Append db k prev body of (r, db', _) \<Rightarrow> (Uploaded r, db_tables db'))"
| "sequential (PruneCall p d g) db =
     (case PostgresStore_DeleteGeneration db p d g of (r, db') \<Rightarrow> (Removed r, db_tables db'))"
| "sequential (EraseCall p) db =
     (case PostgresStore_DeleteAccount db p of (r, db') \<Rightarrow> (Removed r, db_tables db'))"

definition ends_as :: "tables \<Rightarrow> session \<Rightarrow> pg_answer \<times> tables \<Rightarrow> bool" where
  "ends_as t s out \<longleftrightarrow> (\<exists>s'. runs t s (snd out) s' \<and> ses_stage s' = Answered (fst out))"

lemma ends_as_statement: "\<forall>a. ses_stage s \<noteq> Finished a \<Longrightarrow> ends_as t (statement t s) out \<Longrightarrow> ends_as t s out"
  unfolding ends_as_def using runs_statement by blast

lemma ends_as_answered: "ses_stage s = Answered a \<Longrightarrow> ends_as t s (a, t)"
  unfolding ends_as_def using runs_refl by fastforce

lemma ends_as_commit: "ses_stage s = Finished a \<Longrightarrow> sees t s = t' \<Longrightarrow> ends_as t s (a, t')"
  unfolding ends_as_def using runs_commit by fastforce

section \<open>An upload\<close>

text \<open>What the sequential operation does after its loop.\<close>

definition after_loop ::
  "tables \<Rightarrow> time \<Rightarrow> BlobKey \<Rightarrow> string \<Rightarrow> store_err + bytes \<times> int \<times> tables \<Rightarrow> pg_answer \<times> tables" where
  "after_loop t now k prev res =
     (case res of
        Inl e \<Rightarrow> (Uploaded (Inl e), t)
      | Inr (h, sz, tx) \<Rightarrow>
          if sz = 0 then (Uploaded (Inl ErrEmptyBlob), t)
          else (case insert_log tx now k (sha256_hex h) (nullable prev) sz of
                  Inl e \<Rightarrow> (Uploaded (Inl (asSeqConflict e)), t)
                | Inr tx' \<Rightarrow> (Uploaded (Inr (sha256_hex h, sz)), tx')))"

lemma solo_row:
  assumes "ses_call s = AppendCall k prev body" "ses_stage s = Streamed h sz" "sz \<noteq> 0" "new_log s = []" "dead_log s = []"
  shows "ends_as t s (after_loop t (ses_now s) k prev (Inr (h, sz, sees t s)))"
proof (rule ends_as_statement)
  have st: "statement t s = append_statement t k prev s body" using assms(1) by (simp add: statement_def)
  show "ends_as t (statement t s) (after_loop t (ses_now s) k prev (Inr (h, sz, sees t s)))"
  proof (cases "insert_log (sees t s) (ses_now s) k (sha256_hex h) (nullable prev) sz")
    case (Inl e)
    with st assms(2,3) show ?thesis by (simp add: append_statement_def after_loop_def ends_as_answered)
  next
    case (Inr tx')
    let ?s = "s\<lparr>new_log := [(new_row k prev (ses_now s) h)\<lparr>l_size := sz\<rparr>],
        ses_stage := Finished (Uploaded (Inr (sha256_hex h, sz)))\<rparr>"
    have "sees t ?s = tx'"
      using Inr assms(4,5) by (auto simp: insert_log_def sees_def new_row_def dest!: checked_Inr split: if_splits)
    with st assms(2,3) Inr show ?thesis by (simp add: append_statement_def after_loop_def ends_as_commit)
  qed
qed (use assms(2) in simp)

text \<open>One round of the loop, in both models.\<close>

lemma append_loop_no_faults:
  "append_loop k idx h sz tx [] rd =
     (case ReadFull ChunkBytes rd of
        (buf, err, rd') \<Rightarrow>
          (case if buf \<noteq> [] then insert_chunk tx k idx buf else Inr tx of
             Inl e \<Rightarrow> (Inl (asSeqConflict e), [], rd')
           | Inr tx' \<Rightarrow>
               (case err of
                  None \<Rightarrow> append_loop k (idx + 1) (h @ buf) (sz + int (length buf)) tx' [] rd'
                | Some e \<Rightarrow>
                    if e = EOF \<or> e = ErrUnexpectedEOF
                    then (Inr (h @ buf, sz + int (length buf), tx'), [], rd')
                    else (Inl (ErrReadBody e), [], rd'))))"
  by (subst append_loop.simps) (auto split: prod.splits sum.splits)

lemma solo_loop:
  assumes "ses_call s = AppendCall k prev body" "ses_stage s = Streaming idx h sz rd"
    and "dead_chunks s = []" "dead_log s = []" "new_log s = []"
  shows "ends_as t s (after_loop t (ses_now s) k prev (fst (append_loop k idx h sz (sees t s) [] rd)))"
  using assms
proof (induction "reads_left rd" arbitrary: s idx h sz rd rule: less_induct)
  case less
  obtain buf err rd1 where rd: "ReadFull ChunkBytes rd = (buf, err, rd1)" by (metis prod_cases3)
  have "statement t s = append_statement t k prev s body" using less.prems(1) by (simp add: statement_def)
  note run = this [unfolded append_statement_def less.prems(2) stage.case rd prod.case Let_def]
  note loop = append_loop_no_faults [of k idx h sz "sees t s" rd, unfolded rd prod.case]
  let ?ins = "if buf \<noteq> [] then insert_chunk (sees t s) k idx buf else Inr (sees t s)"
  let ?cs = "new_chunks s @ chunk_rows k idx (if buf \<noteq> [] then [buf] else [])" and ?sz = "sz + int (length buf)"
  let ?out = "after_loop t (ses_now s) k prev (fst (append_loop k idx h sz (sees t s) [] rd))"
  have "ends_as t (statement t s) ?out"
  proof (cases ?ins)
    case (Inl e)
    then show ?thesis unfolding run loop by (simp add: after_loop_def ends_as_answered)
  next
    case (Inr tx')
    have tx': "sees t (s\<lparr>new_chunks := ?cs, ses_stage := st\<rparr>) = tx'" for st
      using Inr less.prems(3,4,5) by (auto simp: sees_def add_chunks_def dest!: insert_chunk_Inr split: if_splits)
    note run = run [unfolded Inr sum.case] and loop = loop [unfolded Inr sum.case]
    show ?thesis
    proof (cases err)
      case None
      let ?s = "s\<lparr>new_chunks := ?cs, ses_stage := Streaming (idx + 1) (h @ buf) ?sz rd1\<rparr>"
      have "reads_left rd1 < reads_left rd" using ReadFull_progress [of ChunkBytes rd buf rd1] rd None by (simp add: ChunkBytes_def)
      from less.hyps [OF this, of ?s "idx + 1" "h @ buf" ?sz] less.prems tx' None run loop show ?thesis by simp
    next
      case (Some e)
      have streamed: "ends_as t (s\<lparr>new_chunks := ?cs, ses_stage := Streamed (h @ buf) ?sz\<rparr>)
          (after_loop t (ses_now s) k prev (Inr (h @ buf, ?sz, tx')))" if "?sz \<noteq> 0"
        using solo_row [of "s\<lparr>new_chunks := ?cs, ses_stage := Streamed (h @ buf) ?sz\<rparr>" k prev body "h @ buf" ?sz t]
          less.prems that tx' by simp
      note run = run [unfolded Some option.case] and loop = loop [unfolded Some option.case]
      show ?thesis
      proof (cases "e = EOF \<or> e = ErrUnexpectedEOF")
        case True
        with streamed show ?thesis unfolding run loop if_P [OF True]
          by (cases "?sz = 0") (simp_all add: after_loop_def [of _ _ _ _ "Inr (_, 0, _)"] ends_as_answered)
      next
        case False
        then show ?thesis unfolding run loop if_not_P [OF False] by (simp add: after_loop_def ends_as_answered)
      qed
    qed
  qed
  from ends_as_statement [OF _ this] less.prems(2) show ?case by simp
qed

lemma append_loop_faults_left: "fst (snd (append_loop k idx h sz tx [] rd)) = []"
proof (induction "reads_left rd" arbitrary: idx h sz tx rd rule: less_induct)
  case less
  obtain buf err rd1 where rd: "ReadFull ChunkBytes rd = (buf, err, rd1)" by (metis prod_cases3)
  have "err = None \<Longrightarrow> reads_left rd1 < reads_left rd" using ReadFull_progress [of ChunkBytes rd buf rd1] rd by (simp add: ChunkBytes_def)
  with less.hyps show ?case by (subst append_loop_no_faults) (auto simp: rd split: sum.splits option.splits)
qed

lemma sequential_upload:
  assumes "db_faults db = []"
  shows "sequential (AppendCall k prev body) db =
     (case select_max_seq (db_tables db) k of
        Inl e \<Rightarrow> (Uploaded (Inl (ErrDatabase e)), db_tables db)
      | Inr head \<Rightarrow>
          (let want = (case head of None \<Rightarrow> 1 | Some h \<Rightarrow> h + 1)
           in if key_Seq k \<noteq> want then (Uploaded (Inl (ErrSeqConflict (ExpectedSeq want (key_Seq k)))), db_tables db)
              else after_loop (db_tables db) (db_now db) k prev (fst (append_loop k 0 [] 0 (db_tables db) [] body))))"
proof -
  obtain res fs rd where loop: "append_loop k 0 [] 0 (db_tables db) [] body = (res, fs, rd)" by (metis prod_cases3)
  moreover from this have "fs = []" using append_loop_faults_left [of k 0 "[]" 0 "db_tables db" body] by simp
  ultimately show ?thesis
    using assms
    by (simp add: PostgresStore_Append_def after_loop_def asNilOrSeqConflict_def Let_def split: sum.splits prod.splits)
qed

lemma solo_upload:
  assumes "db_faults db = []"
  shows "ends_as (db_tables db) (begun (AppendCall k prev body) (db_now db)) (sequential (AppendCall k prev body) db)"
proof -
  let ?t = "db_tables db" and ?s = "begun (AppendCall k prev body) (db_now db)"
  have s: "ses_call ?s = AppendCall k prev body" "ses_stage ?s = Opened" "ses_now ?s = db_now db" "sees ?t ?s = ?t"
    "dead_chunks ?s = []" "dead_log ?s = []" "new_log ?s = []"
    by (simp_all add: begun_def sees_def)
  have seen: "sees ?t (?s\<lparr>ses_stage := st\<rparr>) = ?t" for st by (simp add: begun_def sees_def)
  have "statement ?t ?s = append_statement ?t k prev ?s body" using s by (simp add: statement_def)
  note run = this [unfolded append_statement_def s(2,4) stage.case]
  have loop: "ends_as ?t (?s\<lparr>ses_stage := Streaming 0 [] 0 body\<rparr>)
      (after_loop ?t (db_now db) k prev (fst (append_loop k 0 [] 0 ?t [] body)))"
    using solo_loop [of "?s\<lparr>ses_stage := Streaming 0 [] 0 body\<rparr>" k prev body 0 "[]" 0 body ?t] s seen by simp
  have "ends_as ?t (statement ?t ?s) (sequential (AppendCall k prev body) db)"
    unfolding run sequential_upload [OF assms] Let_def
    by (cases "select_max_seq ?t k") (simp_all add: ends_as_answered loop)
  from ends_as_statement [OF _ this] s(2) show ?thesis by simp
qed

section \<open>A prune and an erasure\<close>

lemma filter_missing [simp]: "filter (\<lambda>x. x \<notin> set (missing xs (filter P xs))) xs = filter P xs"
  by (auto simp: missing_def intro: filter_cong)

text \<open>The tables less what the statements take away are the tables the sequential statements give.\<close>

lemma delete_of_filters:
  "delete_chunks_of c t = Inr v \<Longrightarrow> \<exists>P. v = t\<lparr>blob_chunks := filter P (blob_chunks t)\<rparr>"
  "delete_log_of c t = Inr (v, n) \<Longrightarrow> \<exists>P. v = t\<lparr>blob_log := filter P (blob_log t)\<rparr>"
proof -
  show "delete_chunks_of c t = Inr v \<Longrightarrow> \<exists>P. v = t\<lparr>blob_chunks := filter P (blob_chunks t)\<rparr>"
  proof (cases c)
    case AppendCall
    moreover assume "delete_chunks_of c t = Inr v"
    ultimately show ?thesis by (intro exI [of _ "\<lambda>x. True"]) simp
  qed (auto simp: delete_gen_chunks_def delete_account_chunks_def dest!: checked_Inr)
  show "delete_log_of c t = Inr (v, n) \<Longrightarrow> \<exists>P. v = t\<lparr>blob_log := filter P (blob_log t)\<rparr>"
  proof (cases c)
    case AppendCall
    moreover assume "delete_log_of c t = Inr (v, n)"
    ultimately show ?thesis by (intro exI [of _ "\<lambda>x. True"]) simp
  qed (auto simp: delete_gen_log_def delete_account_log_def dest!: checked_Inr)
qed

lemma solo_delete_tx:
  assumes "db_faults db = []" and call: "\<forall>k prev body. ses_call s \<noteq> AppendCall k prev body" and "ses_stage s = Guarded"
    and none: "new_chunks s = []" "new_log s = []" "dead_chunks s = []" "dead_log s = []"
  shows "ends_as (db_tables db) s
     (case delete_tx db [] (delete_chunks_of (ses_call s)) (delete_log_of (ses_call s)) of (r, db') \<Rightarrow> (Removed r, db_tables db'))"
    (is "ends_as ?t s ?out")
proof -
  have st: "statement ?t x = delete_statement ?t x" if "ses_call x = ses_call s" for x
    using call that by (cases "ses_call s") (simp_all add: statement_def)
  have seen: "sees ?t s = ?t" using none by (simp add: sees_def)
  show ?thesis
  proof (rule ends_as_statement)
    show "ends_as ?t (statement ?t s) ?out"
    proof (cases "delete_chunks_of (ses_call s) ?t")
      case (Inl e)
      with assms(1,3) show ?thesis by (simp add: st delete_statement_def seen delete_tx_def ends_as_answered)
    next
      case (Inr v)
      let ?s = "s\<lparr>ses_stage := ChunksGone, dead_chunks := doomed_chunks ?t s\<rparr>"
      have s1: "statement ?t s = ?s" using assms(3) Inr by (simp add: st delete_statement_def seen)
      obtain P where v: "v = ?t\<lparr>blob_chunks := filter P (blob_chunks ?t)\<rparr>" using delete_of_filters(1) [OF Inr] by blast
      then have seen1: "sees ?t ?s = v" using none by (simp add: sees_def doomed_chunks_def seen Inr)
      have "ends_as ?t ?s ?out"
      proof (rule ends_as_statement)
        show "ends_as ?t (statement ?t ?s) ?out"
        proof (cases "delete_log_of (ses_call s) v")
          case (Inl e)
          with assms(1) \<open>delete_chunks_of (ses_call s) ?t = Inr v\<close> show ?thesis
            by (simp add: st delete_statement_def seen1 delete_tx_def ends_as_answered)
        next
          case (Inr w)
          obtain v2 n where w: "w = (v2, n)" by force
          let ?s2 = "?s\<lparr>ses_stage := Finished (Removed (Inr n)), dead_log := doomed_log ?t ?s\<rparr>"
          have s2: "statement ?t ?s = ?s2" using Inr w by (simp add: st delete_statement_def seen1)
          obtain Q where v2: "v2 = v\<lparr>blob_log := filter Q (blob_log v)\<rparr>" using delete_of_filters(2) Inr w by blast
          have "doomed_log ?t ?s = missing (blob_log v) (blob_log v2)" using Inr w by (simp add: doomed_log_def seen1)
          moreover have "sees ?t ?s2 = (sees ?t ?s)\<lparr>blob_log := filter (\<lambda>l. l \<notin> set (doomed_log ?t ?s)) (blob_log ?t)\<rparr>"
            using none by (simp add: sees_def)
          ultimately have "sees ?t ?s2 = v2" using v v2 by (simp add: seen1)
          with s2 assms(1) Inr w \<open>delete_chunks_of (ses_call s) ?t = Inr v\<close> show ?thesis
            by (simp add: delete_tx_def ends_as_commit)
        qed
      qed simp
      with s1 show ?thesis by simp
    qed
  qed (use assms(3) in simp)
qed

lemma delete_of_calls:
  "delete_chunks_of (PruneCall p d g) = (\<lambda>t. delete_gen_chunks t p d g)" "delete_log_of (PruneCall p d g) = (\<lambda>t. delete_gen_log t p d g)"
  "delete_chunks_of (EraseCall p) = (\<lambda>t. delete_account_chunks t p)" "delete_log_of (EraseCall p) = (\<lambda>t. delete_account_log t p)"
  by (simp_all add: fun_eq_iff)

lemma solo_delete:
  assumes "db_faults db = []" and call: "\<forall>k prev body. c \<noteq> AppendCall k prev body"
  shows "ends_as (db_tables db) (begun c (db_now db)) (sequential c db)"
proof -
  let ?t = "db_tables db" and ?s = "begun c (db_now db)"
  have s: "ses_call ?s = c" "ses_stage ?s = Opened" "new_chunks ?s = []" "new_log ?s = []" "dead_chunks ?s = []" "dead_log ?s = []"
    by (simp_all add: begun_def)
  have st: "statement ?t ?s = delete_statement ?t ?s" using call s(1) by (cases c) (simp_all add: statement_def)
  show ?thesis
  proof (rule ends_as_statement)
    show "ends_as ?t (statement ?t ?s) (sequential c db)"
    proof (cases "guard_refuses ?t c")
      case (Some e)
      then have "sequential c db = (Removed (Inl e), ?t)"
        using assms(1) by (cases c) (auto simp: guard_refuses_def PostgresStore_DeleteGeneration_def split: sum.splits option.splits if_splits)
      with Some show ?thesis by (simp add: st delete_statement_def s ends_as_answered)
    next
      case None
      let ?s1 = "?s\<lparr>ses_stage := Guarded\<rparr>"
      have "statement ?t ?s = ?s1" using None by (simp add: st delete_statement_def s)
      moreover have "ends_as ?t ?s1 (case delete_tx db [] (delete_chunks_of c) (delete_log_of c) of (r, db') \<Rightarrow> (Removed r, db_tables db'))"
        using solo_delete_tx [OF assms(1), of ?s1] call s by simp
      moreover have "sequential c db = (case delete_tx db [] (delete_chunks_of c) (delete_log_of c) of (r, db') \<Rightarrow> (Removed r, db_tables db'))"
        using None assms
        by (cases c) (auto simp: guard_refuses_def PostgresStore_DeleteGeneration_def PostgresStore_DeleteAccount_def delete_of_calls
            split: sum.splits option.splits if_splits)
      ultimately show ?thesis by simp
    qed
  qed (simp add: s)
qed

text \<open>
  A call that no other overlaps runs as the sequential model of the store says: advanced
  statement by statement on a database that answers, an upload, a prune or an erasure gives the
  answer of its sequential operation and leaves the tables that operation leaves.
\<close>

theorem alone_sequential:
  assumes "db_faults db = []"
  shows "\<exists>n y. play (alone (db_tables db) (begun c (db_now db))) (replicate n (Run 0)) = Some y \<and>
     com_tables y = snd (sequential c db) \<and> map ses_stage (com_sessions y) = [Answered (fst (sequential c db))]"
proof -
  have "ends_as (db_tables db) (begun c (db_now db)) (sequential c db)"
  proof (cases "\<exists>k prev body. c = AppendCall k prev body")
    case True
    then show ?thesis using solo_upload [OF assms] by blast
  next
    case False
    then show ?thesis using solo_delete [OF assms] by blast
  qed
  then obtain n s where n: "play (alone (db_tables db) (begun c (db_now db))) (replicate n (Run 0)) =
      Some (alone (snd (sequential c db)) s)" "ses_stage s = Answered (fst (sequential c db))"
    by (auto simp: ends_as_def runs_def)
  show ?thesis by (rule exI [of _ n], rule exI [of _ "alone (snd (sequential c db)) s"]) (use n in \<open>simp add: alone_def\<close>)
qed

theorem alone_sequential_witness:
  "\<exists>n y. play (alone empty_tables (begun (EraseCall ''03'') 1)) (replicate n (Run 0)) = Some y \<and>
     map ses_stage (com_sessions y) = [Answered (Removed (Inr 0))]"
proof -
  have "sequential (EraseCall ''03'') (fresh_database 1) = (Removed (Inr 0), empty_tables)"
    by (simp add: PostgresStore_DeleteAccount_def delete_tx_def delete_account_chunks_def delete_account_log_def
        fresh_database_def empty_tables_def)
  moreover have db: "db_tables (fresh_database 1) = empty_tables" "db_faults (fresh_database 1) = []" "db_now (fresh_database 1) = 1"
    by (simp_all add: fresh_database_def)
  ultimately show ?thesis using alone_sequential [OF db(2), of "EraseCall ''03''", unfolded db] by (metis fst_conv)
qed

end
