(* ===== verification/Store_Properties.thy ===== *)
theory Store_Properties
  imports Memory_Store Postgres_Contract Nonce_Store
begin

text \<open>
  What the stores promise, stated over their own operations: that both refine the
  specification, how an entry lives and dies, what a PostgreSQL operation can do under any
  script of faults, and that a nonce is used once.
\<close>

section \<open>Sample requests\<close>

definition sample_key :: BlobKey where
  "sample_key = \<lparr>key_Pseudonym = ''aa'', key_DeviceID = ''bb'', key_Generation = 1, key_Seq = 1\<rparr>"

definition sample_run :: "(time \<times> store_op) list" where
  "sample_run =
     [(5, OpAppend sample_key '''' (BytesReader [1, 2, 3])), (6, OpGet sample_key),
      (7, OpManifest ''aa''), (8, OpDeleteAccount ''aa'')]"

lemma sample_key_ok: "key_ok sample_key"
  by (simp add: sample_key_def key_ok_def name_ok_def int4_ok_def code_of_def)

lemma sample_names: "name_ok ''''" "name_ok ''aa''" "name_ok ''bb''"
  by (simp_all add: name_ok_def code_of_def)

lemma sample_run_ok: "run_ok sample_run"
  using sample_key_ok sample_names
  by (simp add: run_ok_def sample_run_def chunkable_def time_zero_def)

section \<open>Both stores implement one specification\<close>

interpretation stores: two_stores memory_ops mem_logs mem_ok ms_now mem_at
  postgres_ops pg_logs pg_ok db_now pg_at ..

text \<open>
  C4: From their fresh states, the in-memory store and the PostgreSQL store (on a database
  that answers) give the same replies to every run of the requests \<open>run_ok\<close>: appends, reads,
  index pages, manifests, prunes and erasures of keys a handler can make, at any times, where no
  body is cut off by its connection (there they differ: \<open>truncated_body_committed\<close>), every index
  starts at a place that fits 32 bits and every predecessor's digest is ASCII.
\<close>

theorem stores_equivalent:
  assumes "time_zero < t0" and "run_ok reqs"
  shows "fst (run_ops memory_ops mem_at (NewMemoryStore t0) reqs) =
         fst (run_ops postgres_ops pg_at (fresh_database t1) reqs)"
  using stores.same_replies [OF mem_ok_new fresh_database_ok(1) _ assms(2), OF assms(1)]
    mem_logs_new fresh_database_ok(2) by simp

theorem stores_equivalent_witness:
  "run_ok sample_run \<and>
   fst (run_ops memory_ops mem_at (NewMemoryStore 1) sample_run) =
   fst (run_ops postgres_ops pg_at (fresh_database 1) sample_run)"
  using stores_equivalent [of 1 sample_run 1] sample_run_ok by (simp add: time_zero_def)

text \<open>
  C13: The in-memory store refines the specification: on every run from a state that meets its
  invariant it gives the replies of \<open>spec_run\<close> on the logs it represents, ends in a state
  that meets the invariant, and represents the logs the specification ends with.
\<close>

theorem memory_refines:
  assumes "mem_ok m" and "run_ok reqs"
  shows "\<exists>m'. run_ops memory_ops mem_at m reqs = (fst (spec_run (mem_logs m) reqs), m') \<and> mem_ok m' \<and>
     mem_logs m' = snd (spec_run (mem_logs m) reqs)"
  using assms by (rule mem_timed.run_refines_spec)

theorem memory_refines_witness:
  "\<exists>m'. run_ops memory_ops mem_at (NewMemoryStore 1) sample_run =
     (fst (spec_run (\<lambda>_ _ _. []) sample_run), m') \<and> mem_ok m'"
  using memory_refines [OF mem_ok_new sample_run_ok, of 1] by (auto simp: time_zero_def mem_logs_new)

text \<open>
  The PostgreSQL store takes a body that its connection broke off for a complete one. For the
  specification such an append is one of the bytes that arrived.
\<close>

fun completed :: "store_op \<Rightarrow> store_op" where
  "completed (OpAppend k prev body) =
     OpAppend k prev (if ending body = ErrUnexpectedEOF then BytesReader (content body) else body)"
| "completed op = op"

fun op_readable :: "store_op \<Rightarrow> bool" where
  "op_readable (OpAppend k prev body) \<longleftrightarrow> key_ok k \<and> name_ok prev \<and> reader_wf body \<and> chunkable body"
| "op_readable op \<longleftrightarrow> op_ok op"

lemma completed_ok: "op_readable op \<Longrightarrow> op_ok (completed op)"
  by (cases op) (auto simp: chunkable_def)

lemma completed_same:
  assumes "pg_ok db" and "op_readable op"
  shows "apply_op postgres_ops db op = apply_op postgres_ops db (completed op)"
proof (cases op)
  case (OpAppend k prev body)
  then have k: "key_ok k" "name_ok prev" "reader_wf body" "chunkable body" using assms(2) by simp_all
  show ?thesis
  proof (cases "key_Seq k = int (length (log_of (pg_logs db) k)) + 1")
    case True
    have c: "reader_wf (BytesReader (content body))" "chunkable (BytesReader (content body))" using k(4) by (simp_all add: chunkable_def)
    from PostgresStore_Append_next [OF assms(1) k(1) k(3,4) True disjI1 [OF k(2)]] PostgresStore_Append_next [OF assms(1) k(1) c True disjI1 [OF k(2)]]
    show ?thesis by (auto simp: OpAppend postgres_ops_def split: if_splits)
  next
    case False
    then show ?thesis using PostgresStore_Append_conflict [OF assms(1) k(1) False] by (simp add: OpAppend postgres_ops_def)
  qed
qed simp_all

lemma run_completed:
  "pg_ok db \<Longrightarrow> list_all (\<lambda>(now, op). time_zero < now \<and> op_readable op) reqs \<Longrightarrow>
     run_ops postgres_ops pg_at db reqs = run_ops postgres_ops pg_at db (map (map_prod id completed) reqs)"
proof (induction reqs arbitrary: db)
  case (Cons req reqs)
  obtain now op where req: "req = (now, op)" by (cases req)
  have ok: "pg_ok (pg_at db now)" "op_readable op" using Cons.prems req pg_timed.at_ok by auto
  obtain db1 where db1: "apply_op postgres_ops (pg_at db now) (completed op) =
      (fst (spec_op (pg_logs (pg_at db now)) (db_now (pg_at db now)) (completed op)), db1)" "pg_ok db1"
    using pg.refines_spec [OF ok(1) completed_ok [OF ok(2)]] by blast
  with Cons completed_same [OF ok] req show ?case by auto
qed simp

text \<open>
  C14: The PostgreSQL store refines the same specification, on a database that answers: the SQL
  statements of its operations, over the three tables, give the replies of \<open>spec_run\<close>, except
  that a body cut off by its connection counts as complete. The requests are those a handler
  can make, with an index place that fits the column and an ASCII digest of the predecessor.
\<close>

theorem postgres_refines:
  assumes "pg_ok db" and "list_all (\<lambda>(now, op). time_zero < now \<and> op_readable op) reqs"
  shows "\<exists>db'. run_ops postgres_ops pg_at db reqs =
       (fst (spec_run (pg_logs db) (map (map_prod id completed) reqs)), db') \<and> pg_ok db' \<and>
     pg_logs db' = snd (spec_run (pg_logs db) (map (map_prod id completed) reqs))"
proof -
  have "run_ok (map (map_prod id completed) reqs)"
    using assms(2) completed_ok by (auto simp: run_ok_def list_all_iff)
  from pg_timed.run_refines_spec [OF assms(1) this] show ?thesis unfolding run_completed [OF assms] .
qed

definition cut_off :: reader where
  "cut_off = ConnBody \<lparr>c_data = [1, 2, 3], c_frag = [], c_final = ErrUnexpectedEOF, c_joined = False\<rparr>"

theorem postgres_refines_witness:
  "\<exists>db'. run_ops postgres_ops pg_at (fresh_database 1) [(2, OpAppend sample_key '''' cut_off)] =
     ([RAppend (Inr (sha256_hex [1, 2, 3], 3))], db') \<and> pg_ok db'"
proof -
  have "list_all (\<lambda>(now, op). time_zero < now \<and> op_readable op) [(2, OpAppend sample_key '''' cut_off)]"
    using sample_key_ok sample_names(1) by (simp add: cut_off_def chunkable_def time_zero_def)
  from postgres_refines [OF fresh_database_ok(1) this, of 1] show ?thesis
    by (auto simp: fresh_database_ok sample_key_def log_of_def cut_off_def)
qed

section \<open>The life of an entry\<close>

text \<open>
  Whatever \<open>Append\<close> of the PostgreSQL store acknowledges, \<open>Get\<close> returns: the reader it hands
  out delivers exactly the bytes of the body and then \<open>EOF\<close>, its size is their number, and
  the digest acknowledged is theirs.
\<close>

theorem postgres_append_get:
  assumes "pg_ok db" and "key_ok k" and "PostgresStore_Append db k prev body = (Inr (sha, sz), db', body')"
    and "name_ok prev" and "reader_wf body" and "chunkable body" and "ending body \<noteq> ErrUnexpectedEOF"
  shows "\<exists>r db''. PostgresStore_Get db' k = (Inr (r, sz), db'') \<and> stream r = (content body, EOF) \<and>
     sha = sha256_hex (content body) \<and> sz = int (length (content body)) \<and>
     ending body = EOF \<and> content body \<noteq> []"
  using pg.append_then_get [OF assms(1,2) _ assms(4-7)] assms(3) by (simp add: postgres_ops_def)

theorem postgres_append_get_witness:
  "\<exists>sha sz db' body' r db''.
     PostgresStore_Append (fresh_database 1) sample_key '''' (BytesReader [1, 2, 3]) = (Inr (sha, sz), db', body') \<and>
     PostgresStore_Get db' sample_key = (Inr (r, sz), db'') \<and> stream r = ([1, 2, 3], EOF)"
proof -
  have k: "key_Seq sample_key = int (length (log_of (pg_logs (fresh_database 1)) sample_key)) + 1"
    by (simp add: fresh_database_ok sample_key_def log_of_def)
  have b: "reader_wf (BytesReader [1, 2, 3])" "chunkable (BytesReader [1, 2, 3])" by (simp_all add: chunkable_def)
  obtain sha sz db' body' where app: "PostgresStore_Append (fresh_database 1) sample_key '''' (BytesReader [1, 2, 3]) =
      (Inr (sha, sz), db', body')"
    using PostgresStore_Append_next [OF fresh_database_ok(1) sample_key_ok b k, of "''''"] sample_names(1) by auto
  from postgres_append_get [OF fresh_database_ok(1) sample_key_ok this sample_names(1) b] app
  show ?thesis by auto
qed

text \<open>
  What one account does is invisible to every other: after any run of requests for other
  accounts, a request to the PostgreSQL store gets the reply it would have got before.
\<close>

theorem postgres_isolated:
  assumes "pg_ok db" and "run_ok reqs" and "\<forall>(now, op') \<in> set reqs. op_account op' \<noteq> op_account op"
    and "time_zero < now" and "op_ok op"
  shows "fst (apply_op postgres_ops (pg_at (snd (run_ops postgres_ops pg_at db reqs)) now) op) =
     fst (apply_op postgres_ops (pg_at db now) op)"
  using assms by (rule pg_timed.run_isolated)

theorem postgres_isolated_witness:
  "fst (apply_op postgres_ops (pg_at (snd (run_ops postgres_ops pg_at (fresh_database 1) sample_run)) 9) (OpManifest ''bb'')) =
   fst (apply_op postgres_ops (pg_at (fresh_database 1) 9) (OpManifest ''bb''))"
  by (rule postgres_isolated [OF fresh_database_ok(1) sample_run_ok])
    (use sample_names in \<open>auto simp: sample_run_def sample_key_def time_zero_def\<close>)

text \<open>
  C35: A stored entry stays readable, byte for byte, through any run of requests, unless one of them
  is a prune of its generation or an erasure of its account.
\<close>

theorem postgres_keeps_entry:
  assumes "pg_ok db" and "run_ok reqs" and "key_ok k" and "time_zero < now"
    and "apply_op postgres_ops (pg_at db now) (OpGet k) = (RGet (Inr reply), db1)"
    and "\<forall>(now, op) \<in> set reqs. op \<noteq> OpDeleteAccount (key_Pseudonym k) \<and>
       op \<noteq> OpDeleteGeneration (key_Pseudonym k) (key_DeviceID k) (key_Generation k)"
  shows "fst (apply_op postgres_ops (pg_at (snd (run_ops postgres_ops pg_at db reqs)) now) (OpGet k)) = RGet (Inr reply)"
  using assms by (rule pg_timed.run_keeps_entry)

definition sample_db :: database where
  "sample_db = snd (run_ops postgres_ops pg_at (fresh_database 1) (take 1 sample_run))"

lemma sample_db_ok: "pg_ok sample_db"
  and sample_db_logs: "pg_logs sample_db p d g =
    (if p = ''aa'' \<and> d = ''bb'' \<and> g = 1 then [\<lparr>s_data = [1, 2, 3], s_prev = '''', s_created = 5\<rparr>] else [])"
proof -
  have run: "run_ok (take 1 sample_run)" using sample_run_ok by (simp add: sample_run_def run_ok_def)
  obtain db' where db': "run_ops postgres_ops pg_at (fresh_database 1) (take 1 sample_run) =
      (fst (spec_run (\<lambda>_ _ _. []) (take 1 sample_run)), db')" "pg_ok db'"
    "pg_logs db' = snd (spec_run (\<lambda>_ _ _. []) (take 1 sample_run))"
    using pg_timed.run_refines_spec [OF fresh_database_ok(1) run, of 1] by (auto simp: fresh_database_ok)
  then have sample: "sample_db = db'" by (simp add: sample_db_def)
  show "pg_ok sample_db" using db'(2) sample by simp
  show "pg_logs sample_db p d g =
    (if p = ''aa'' \<and> d = ''bb'' \<and> g = 1 then [\<lparr>s_data = [1, 2, 3], s_prev = '''', s_created = 5\<rparr>] else [])"
    using db'(3) by (simp add: sample sample_run_def sample_key_def log_of_def logs_append_def set_log_def)
qed

lemma sample_db_reach: "pg_reach (db_tables sample_db)"
proof -
  obtain ra db' body' where app: "PostgresStore_Append (pg_at (fresh_database 1) 5) sample_key '''' (BytesReader [1, 2, 3]) =
      (ra, db', body')" by (metis prod_cases3)
  have "pg_reach (db_tables (pg_at (fresh_database 1) 5))"
    using pg_reach.start by (simp add: pg_at_def fresh_database_def)
  from pg_reach.append [OF this _ _ app] have "pg_reach (db_tables db')" by (simp add: sample_key_def)
  moreover have "sample_db = db'" using app by (simp add: sample_db_def sample_run_def postgres_ops_def)
  ultimately show ?thesis by simp
qed

theorem postgres_keeps_entry_witness:
  "fst (apply_op postgres_ops (pg_at (snd (run_ops postgres_ops pg_at sample_db [(9, OpManifest ''aa'')])) 9) (OpGet sample_key)) =
   RGet (Inr (([1, 2, 3], EOF), 3))"
proof -
  have log: "log_of (pg_logs sample_db) sample_key = [\<lparr>s_data = [1, 2, 3], s_prev = '''', s_created = 5\<rparr>]"
    by (simp add: sample_db_logs log_of_def sample_key_def)
  have "op_ok (OpGet sample_key)" "time_zero < 9" using sample_key_ok by (simp_all add: time_zero_def)
  from pg_timed.op_at_refines [OF sample_db_ok this(2,1)]
  have got: "fst (apply_op postgres_ops (pg_at sample_db 9) (OpGet sample_key)) = RGet (Inr (([1, 2, 3], EOF), 3))"
    unfolding spec_op.simps log by (simp add: sample_key_def)
  obtain rep db1 where "apply_op postgres_ops (pg_at sample_db 9) (OpGet sample_key) = (rep, db1)" by force
  with got have get: "apply_op postgres_ops (pg_at sample_db 9) (OpGet sample_key) =
      (RGet (Inr (([1, 2, 3], EOF), 3)), db1)" by simp
  have run: "run_ok [(9, OpManifest ''aa'')]" using sample_names by (simp add: run_ok_def time_zero_def)
  have keep: "\<forall>(now, op) \<in> set [(9 :: int, OpManifest ''aa'')]. op \<noteq> OpDeleteAccount (key_Pseudonym sample_key) \<and>
       op \<noteq> OpDeleteGeneration (key_Pseudonym sample_key) (key_DeviceID sample_key) (key_Generation sample_key)"
    by simp
  show ?thesis
    by (rule postgres_keeps_entry [OF sample_db_ok run sample_key_ok _ get keep]) (simp add: time_zero_def)
qed

text \<open>
  Prunes cannot reach the recoverable backups: through any run without an append to the account
  or an erasure of it, the logs of a device's newest generation number and of the one before
  it are exactly as they were, however many prunes the run asks for.
\<close>

theorem postgres_keeps_window:
  assumes "pg_ok db" and "run_ok reqs" and "\<forall>(now, op) \<in> set reqs. keeps_account p op"
    and "device_gens (pg_logs db) p d \<noteq> {}" and "g > Max (device_gens (pg_logs db) p d) - 2"
  shows "pg_logs (snd (run_ops postgres_ops pg_at db reqs)) p d g = pg_logs db p d g"
  by (rule pg_timed.run_keeps_window [OF assms(1-3)]) (use assms(4,5) in \<open>simp add: guarded_def RetainedGenerations_def\<close>)

theorem postgres_keeps_window_witness:
  "pg_logs (snd (run_ops postgres_ops pg_at sample_db [(9, OpDeleteGeneration ''aa'' ''bb'' 1)])) ''aa'' ''bb'' 1 =
   pg_logs sample_db ''aa'' ''bb'' 1"
proof -
  let ?G = "device_gens (pg_logs sample_db) ''aa'' ''bb''"
  have one: "1 \<in> ?G" by (simp add: sample_db_logs device_gens_def)
  have "?G \<subseteq> {1}" by (auto simp: sample_db_logs device_gens_def split: if_splits)
  then have "?G = {1}" using one by blast
  then show ?thesis
    using sample_names
    by (intro postgres_keeps_window [OF sample_db_ok]) (simp_all add: run_ok_def time_zero_def int4_ok_def)
qed

text \<open>
  An erasure leaves nothing of the account and touches no other, retention guard or not, and
  reports how many entries there were; a second one reports none.
\<close>

theorem postgres_erased:
  assumes "pg_ok db" and "name_ok p"
  shows "\<exists>db'. PostgresStore_DeleteAccount db p = (Inr (account_rows (pg_logs db) p), db') \<and> pg_ok db' \<and>
     (\<forall>d g. pg_logs db' p d g = []) \<and> (\<forall>p' d g. p' \<noteq> p \<longrightarrow> pg_logs db' p' d g = pg_logs db p' d g) \<and>
     (\<exists>db''. PostgresStore_DeleteAccount db' p = (Inr 0, db''))"
proof -
  obtain n db' where del: "bs_DeleteAccount postgres_ops db p = (Inr n, db')" "pg_ok db'"
    "\<And>d g. pg_logs db' p d g = []" "\<And>p' d g. p' \<noteq> p \<Longrightarrow> pg_logs db' p' d g = pg_logs db p' d g"
    "n = account_rows (pg_logs db) p"
    using pg_timed.erased [OF assms] by metis
  obtain n' db'' where again: "bs_DeleteAccount postgres_ops db' p = (Inr n', db'')" "n' = account_rows (pg_logs db') p"
    using pg_timed.erased [OF del(2) assms(2)] by metis
  have "n' = 0" using again(2) del(3) by (simp add: account_rows_def live_gens_def)
  with del again show ?thesis by (simp add: postgres_ops_def)
qed

theorem postgres_erased_witness:
  "\<exists>db'. PostgresStore_DeleteAccount sample_db ''aa'' = (Inr (account_rows (pg_logs sample_db) ''aa''), db') \<and>
     (\<forall>d g. pg_logs db' ''aa'' d g = [])"
  using postgres_erased [OF sample_db_ok sample_names(2)] by blast

section \<open>PostgreSQL under faults\<close>

text \<open>
  C9: An \<open>Append\<close> on tables that meet the invariant is all or nothing, whatever calls to the database
  fail, lose their reply or break off: either an error is returned and the tables are
  untouched, or the whole entry is there with every byte of the body, and then the caller
  learns so unless the reply to the commit itself was lost. The invariant holds afterwards.
\<close>

theorem postgres_append_atomic:
  assumes "tbl_ok (db_tables db)" and "1 \<le> key_Generation k" and "reader_wf body"
    and "PostgresStore_Append db k prev body = (r, db', body')"
  shows "tbl_ok (db_tables db') \<and>
     ((\<exists>e. r = Inl e) \<and> db_tables db' = db_tables db \<or>
      pg_logs db' = logs_append (pg_logs db) k \<lparr>s_data = content body, s_prev = prev, s_created = db_now db\<rparr> \<and>
      content body \<noteq> [] \<and> key_Seq k = int (length (log_of (pg_logs db) k)) + 1 \<and>
      (r = Inr (sha256_hex (content body), int (length (content body))) \<or>
       (\<exists>e. Lost e \<in> set (db_faults db) \<and> r = Inl (asSeqConflict e))))"
  using PostgresStore_Append_whole [OF assms] by blast

theorem postgres_append_atomic_witness:
  "\<exists>r db' body'.
     PostgresStore_Append ((fresh_database 1)\<lparr>db_faults := [Done, Done, Lost (DriverError ''gone'')]\<rparr>) sample_key ''''
       (BytesReader [1, 2, 3]) = (r, db', body') \<and> tbl_ok (db_tables db')"
proof -
  let ?db = "(fresh_database 1)\<lparr>db_faults := [Done, Done, Lost (DriverError ''gone'')]\<rparr>"
  obtain r db' body' where app: "PostgresStore_Append ?db sample_key '''' (BytesReader [1, 2, 3]) = (r, db', body')"
    by (metis prod_cases3)
  have "tbl_ok (db_tables ?db)" by (simp add: fresh_database_def)
  from postgres_append_atomic [OF this _ _ app] app show ?thesis by (auto simp: sample_key_def)
qed

text \<open>
  C36: A prune on tables that meet the invariant is all or nothing under any faults, and never
  removes anything inside the retained window: either an error and the tables untouched, or
  exactly the one generation is gone, which was then outside the window.
\<close>

theorem postgres_prune_atomic:
  assumes "tbl_ok (db_tables db)" and "PostgresStore_DeleteGeneration db p d g = (r, db')"
  shows "tbl_ok (db_tables db') \<and>
     ((\<exists>e. r = Inl e) \<and> db_tables db' = db_tables db \<or>
      \<not> in_gen_window (db_tables db) p d g \<and> pg_logs db' = set_log (pg_logs db) p d g [] \<and>
      (r = Inr (int (length (pg_logs db p d g))) \<or>
       (\<exists>e. Lost e \<in> set (db_faults db) \<and> r = Inl (ErrDatabase e))))"
  using PostgresStore_DeleteGeneration_outcomes [OF assms(2)] assms(1)
  by (auto simp: pg_logs_def fun_eq_iff tbl_logs_spare tbl_ok_spare rows_of_spare set_log_def)

theorem postgres_prune_atomic_witness:
  "\<exists>r db'. PostgresStore_DeleteGeneration (sample_db\<lparr>db_faults := [Failed (DriverError ''gone'')]\<rparr>) ''aa'' ''bb'' 1 = (r, db') \<and>
     tbl_ok (db_tables db')"
proof -
  let ?db = "sample_db\<lparr>db_faults := [Failed (DriverError ''gone'')]\<rparr>"
  obtain r db' where del: "PostgresStore_DeleteGeneration ?db ''aa'' ''bb'' 1 = (r, db')" by force
  have "tbl_ok (db_tables ?db)" using sample_db_ok by (simp add: pg_ok_def)
  from postgres_prune_atomic [OF this del] del show ?thesis by blast
qed

text \<open>
  C12: In every state of the tables that whole operations reach, one after the other and on any
  servers, each under its own clock and faults: the sequence numbers of every log run from 1 without a gap
  or a repetition, the digest and the size of every row are those of its chunks put together,
  no entry is empty, no chunk is empty or larger than 1 MiB, and no chunk is without its row.
  (Operations that overlap are another matter: \<open>concurrent_uploads\<close>, \<open>erasure_overlaps_upload\<close>.)
\<close>

theorem reachable_tables_ok:
  assumes "pg_reach t"
  shows "(\<forall>p d g. sort (map l_seq (rows_of t p d g)) = [1..int (length (rows_of t p d g))]) \<and>
     (\<forall>l \<in> set (blob_log t). l_sha256 l = sha256_hex (data_of t l) \<and> l_size l = int (length (data_of t l)) \<and>
        data_of t l \<noteq> []) \<and>
     (\<forall>c \<in> set (blob_chunks t). ch_chunk c \<noteq> [] \<and> length (ch_chunk c) \<le> 1048576 \<and>
        (\<exists>l \<in> set (blob_log t). l_pseudonym l = ch_pseudonym c \<and> l_device_id l = ch_device_id c \<and>
           l_generation l = ch_generation c \<and> l_seq l = ch_seq c))"
proof (intro conjI allI)
  have ok: "tbl_ok t" using assms by (rule pg_reach_ok)
  fix p d g
  show "sort (map l_seq (rows_of t p d g)) = [1..int (length (rows_of t p d g))]"
    using tbl_okD(1) [OF ok] by (rule contiguous_upto)
next
  show "\<forall>l \<in> set (blob_log t). l_sha256 l = sha256_hex (data_of t l) \<and> l_size l = int (length (data_of t l)) \<and>
        data_of t l \<noteq> []"
    using pg_reach_ok [OF assms] by (auto simp: tbl_ok_def log_row_ok_def)
next
  show "\<forall>c \<in> set (blob_chunks t). ch_chunk c \<noteq> [] \<and> length (ch_chunk c) \<le> 1048576 \<and>
        (\<exists>l \<in> set (blob_log t). l_pseudonym l = ch_pseudonym c \<and> l_device_id l = ch_device_id c \<and>
           l_generation l = ch_generation c \<and> l_seq l = ch_seq c)"
    using pg_reach_ok [OF assms] by (fastforce simp: tbl_ok_def chunk_row_ok_def log_in_def ChunkBytes_def)
qed

theorem reachable_tables_ok_witness:
  "pg_reach (db_tables sample_db) \<and> sort (map l_seq (rows_of (db_tables sample_db) ''aa'' ''bb'' 1)) = [1]"
proof
  show reach: "pg_reach (db_tables sample_db)" by (rule sample_db_reach)
  have "length (rows_of (db_tables sample_db) ''aa'' ''bb'' 1) = 1"
    using sample_db_logs [of "''aa''" "''bb''" 1] length_tbl_logs [of "db_tables sample_db" "''aa''" "''bb''" 1] by (simp add: pg_logs_def)
  then show "sort (map l_seq (rows_of (db_tables sample_db) ''aa'' ''bb'' 1)) = [1]"
    using reachable_tables_ok [OF reach] by (metis int_ops(2) upto_single)
qed

text \<open>
  C37: A body cut off by its connection is committed. When \<open>net/http\<close> ends the body with
  \<open>io.ErrUnexpectedEOF\<close>, the PostgreSQL store takes that for the short last read of a complete
  body: it stores the bytes that arrived and reports success with their digest, where the
  in-memory store reports the error and stores nothing.
\<close>

theorem truncated_body_committed:
  assumes "pg_ok db" and "mem_ok m" and "key_ok k" and "name_ok prev"
    and "reader_wf body" and "chunkable body" and "ending body = ErrUnexpectedEOF" and "content body \<noteq> []"
    and "key_Seq k = int (length (log_of (pg_logs db) k)) + 1" and "key_Seq k = int (length (log_of (mem_logs m) k)) + 1"
  shows "(\<exists>db' body'. PostgresStore_Append db k prev body =
       (Inr (sha256_hex (content body), int (length (content body))), db', body') \<and>
     pg_logs db' = logs_append (pg_logs db) k \<lparr>s_data = content body, s_prev = prev, s_created = db_now db\<rparr>) \<and>
     fst (MemoryStore_Append m k prev body) = Inl (ErrReadBody ErrUnexpectedEOF) \<and>
     mem_logs (fst (snd (MemoryStore_Append m k prev body))) = mem_logs m"
proof (rule conjI)
  have ok: "tbl_ok (db_tables db)" using assms(1) by (simp add: pg_ok_def)
  show "\<exists>db' body'. PostgresStore_Append db k prev body =
       (Inr (sha256_hex (content body), int (length (content body))), db', body') \<and>
     pg_logs db' = logs_append (pg_logs db) k \<lparr>s_data = content body, s_prev = prev, s_created = db_now db\<rparr>"
    using PostgresStore_Append_next [OF assms(1,3,5,6,9), of prev] assms(4,7,8)
      tbl_logs_append [OF ok] assms(9) by (auto simp: pg_logs_def)
  obtain r m' body' where app: "MemoryStore_Append m k prev body = (r, m', body')" by (metis prod_cases3)
  have "fst (ReadAll body) = Inl ErrUnexpectedEOF" using ReadAll_stream [of body] assms(7) by simp
  with app assms(2,3,10) have "r = Inl (ErrReadBody ErrUnexpectedEOF)" "m' = m"
    by (auto simp: MemoryStore_Append_def MemoryStore_check_eq split: prod.splits sum.splits)
  with app show "fst (MemoryStore_Append m k prev body) = Inl (ErrReadBody ErrUnexpectedEOF) \<and>
     mem_logs (fst (snd (MemoryStore_Append m k prev body))) = mem_logs m" by simp
qed

theorem truncated_body_committed_witness:
  "\<exists>db' body'. PostgresStore_Append (fresh_database 1) sample_key '''' cut_off =
       (Inr (sha256_hex [1, 2, 3], 3), db', body') \<and>
     fst (MemoryStore_Append (NewMemoryStore 1) sample_key '''' cut_off) = Inl (ErrReadBody ErrUnexpectedEOF)"
proof -
  have b: "reader_wf cut_off" "chunkable cut_off" "stream cut_off = ([1, 2, 3], ErrUnexpectedEOF)"
    by (simp_all add: cut_off_def chunkable_def)
  have m: "mem_ok (NewMemoryStore 1)" by (rule mem_ok_new) (simp add: time_zero_def)
  have "key_Seq sample_key = int (length (log_of (pg_logs (fresh_database 1)) sample_key)) + 1"
    "key_Seq sample_key = int (length (log_of (mem_logs (NewMemoryStore 1)) sample_key)) + 1"
    by (simp_all add: fresh_database_ok mem_logs_new sample_key_def log_of_def)
  from truncated_body_committed [OF fresh_database_ok(1) m sample_key_ok sample_names(1) b(1,2) _ _ this] b(3)
  show ?thesis by auto
qed

section \<open>Nonces\<close>

text \<open>
  In the in-memory nonce store a nonce is accepted once: after a successful \<open>Consume\<close>, no call for
  the nonce made no later than the expiry given with it succeeds, whatever other calls come
  between.
\<close>

theorem nonce_memory_single_use:
  assumes "NonceMemory_Consume (nm_at m now) n e = (Inr True, m')" and "\<forall>(now, _) \<in> set calls. now \<le> e"
  shows "\<forall>((_, n', _), r) \<in> set (zip calls (fst (run_consume nonce_memory_ops nm_at m' calls))). n' = n \<longrightarrow> r \<noteq> Inr True"
  using nm.single_use [of m now n e m' calls] assms by (simp add: nonce_memory_ops_def)

theorem nonce_memory_single_use_witness:
  "fst (run_consume nonce_memory_ops nm_at (NewNonceMemory 1) [(2, ''n'', 9), (9, ''n'', 9)]) = [Inr True, Inr False]"
proof -
  obtain m' where m': "NonceMemory_Consume (nm_at (NewNonceMemory 1) 2) ''n'' 9 = (Inr True, m')"
    by (simp add: NonceMemory_Consume_def nm_at_def NewNonceMemory_def)
  obtain r s where r: "NonceMemory_Consume (nm_at m' 9) ''n'' 9 = (r, s)" by force
  have "r \<noteq> Inr True"
    using nonce_memory_single_use [OF m', of "[(9, ''n'', 9)]"] r by (simp add: nonce_memory_ops_def)
  moreover have "r = Inr True \<or> r = Inr False"
    using r by (auto simp: NonceMemory_Consume_def Let_def split: if_splits)
  ultimately show ?thesis using m' r by (simp add: nonce_memory_ops_def)
qed

text \<open>
  C38: Until it expires, a nonce is accepted at most once by the PostgreSQL nonce store, whatever
  statements fail or lose their replies and whenever the random sweep runs: after a success, no
  call for it succeeds while the clock has not passed the expiry given with it. Later the sweep
  may drop it; the proof it belongs to has expired by then.
\<close>

theorem nonce_postgres_single_use:
  assumes "NoncePostgres_Consume (pg_nonce_at db now) n e = (Inr True, db')" and "\<forall>(now, _) \<in> set calls. now \<le> e"
  shows "\<forall>((_, n', _), r) \<in> set (zip calls (fst (run_consume nonce_postgres_ops pg_nonce_at db' calls))).
     n' = n \<longrightarrow> r \<noteq> Inr True"
  using npg.single_use [of db now n e db' calls] assms by (simp add: nonce_postgres_ops_def)

theorem nonce_postgres_single_use_witness:
  "\<exists>db'. NoncePostgres_Consume (pg_nonce_at ((fresh_database 1)\<lparr>db_coins := [False, True]\<rparr>) 2) ''n'' 9 = (Inr True, db') \<and>
     fst (NoncePostgres_Consume (pg_nonce_at db' 9) ''n'' 9) \<noteq> Inr True"
proof -
  have t: "text_ok ''n''" by (rule text_ok_name) (simp add: name_ok_def code_of_def)
  then obtain db' where c: "NoncePostgres_Consume (pg_nonce_at ((fresh_database 1)\<lparr>db_coins := [False, True]\<rparr>) 2) ''n'' 9 = (Inr True, db')"
    by (simp add: NoncePostgres_Consume_def pg_nonce_at_def fresh_database_def empty_tables_def autocommit_def exec_def
        insert_nonce_def checked_def params_err_def)
  show ?thesis
    using nonce_postgres_single_use [OF c, of "[(9, ''n'', 9)]"] c
    by (auto simp: nonce_postgres_ops_def split: prod.splits)
qed

end
