(* ===== verification/Spec2Isabelle.thy ===== *)
theory Spec2Isabelle
  imports Answers Append_Calls Client_Properties Concurrent_Memory Proof_Properties Query_Properties Solo_Calls Store_Properties
begin

text \<open>
  A verification of the private backup cache: an HTTP service that keeps, for each account, an
  append-only log of opaque blobs per device and generation, and the Go client of it. An
  account is the public key whose signature a request carries, and nothing else.

  \<^bold>\<open>The program.\<close> A request passes the CORS headers, the cap on its body, the router and (but for
  \<open>/health\<close> and \<open>/v1/limits\<close>) the auth middleware, which checks one signed proof per request and
  spends its nonce; a handler then works on a blob store under the authenticated key. The body
  streams through two wrappers, a counter that enforces the cap and a hasher that checks the
  digest the proof signed, straight into the store. There are two blob stores and two nonce
  stores, in memory and on PostgreSQL; \<open>cmd/server/main.go\<close> chooses. The client signs, sends,
  retries a refused proof once where it can, and reads the answers.

  \<^bold>\<open>The theories\<close>, bottom up, with the files under \<open>src/\<close> they model:

  \<^item> \<open>Prelude\<close>, \<open>Go_Std\<close>, \<open>Sha256\<close>, \<open>Go_Encoding\<close>: shared types, the collections of rewrite
    rules, and what the sources use of the standard library: decimal and hexadecimal numbers,
    SHA-256, base64, JSON.
  \<^item> \<open>Readers\<close>: every \<open>io.Reader\<close> the program builds (\<open>countingBody\<close> of
    \<open>internal/server/server.go\<close>, \<open>digestVerifyingBody\<close> of
    \<open>internal/server/middlewares/authproof.go\<close>, \<open>chunkReader\<close> of
    \<open>internal/blobstore/postgres.go\<close>), read piece by piece; the laws say what stream of bytes each
    denotes, however it is fragmented.
  \<^item> \<open>Blob_Types\<close> (\<open>internal/blobstore/blobstore.go\<close>): keys, errors, the interface \<open>BlobStore\<close> as a
    record of operations, and its contract as the locale \<open>blob_store\<close> over abstract logs.
    \<open>Store_Laws\<close> proves from the contract alone the specification \<open>spec_run\<close> and what clients
    rely on.
  \<^item> \<open>Memory_Store\<close> (\<open>memory.go\<close>), \<open>Database\<close>, \<open>Postgres_Store\<close>, \<open>Postgres_Contract\<close>, \<open>Schema\<close>
    (\<open>postgres.go\<close>), \<open>Tracing_Store\<close> (\<open>tracing.go\<close>), \<open>Nonce_Store\<close> (\<open>internal/nonce\<close>): the stores
    and the proofs that they meet the contracts, as interpretations. SQL statements are
    functions on the tables with the checks of column types and keys; around each call a
    script of outcomes decides whether the server performs it, refuses it, loses the reply or
    breaks off the rows.
  \<^item> \<open>Concurrent_Memory\<close>: overlapping calls of the in-memory store as a step relation, one step for
    each section under its lock. \<open>Append_Calls\<close>: how many calls an upload makes.
  \<^item> \<open>Concurrent_Postgres\<close>: overlapping uploads, prunes and erasures on one database, from any
    number of replicas, one step for each SQL statement under READ COMMITTED. \<open>Replicas\<close>: what
    they guarantee together and what not; \<open>Solo_Calls\<close>: that the statements of a call
    nothing overlaps are those of \<open>Postgres_Store\<close>, a check of the two models against each other.
  \<^item> \<open>Auth_Proof\<close> (\<open>internal/authproof\<close>), \<open>Http\<close> (\<open>internal/server/responses\<close> and the response
    writers), \<open>Handlers\<close> (\<open>internal/server/handlers\<close>), \<open>Server\<close> (\<open>server.go\<close>, \<open>telemetry.go\<close>, the
    middlewares): the protocol and the service, with the handlers as functions on the state of
    the stores, the request and the writer.
  \<^item> \<open>Service\<close>, \<open>Service_Requests\<close>, \<open>Service_Queries\<close>: the locale \<open>service\<close> joins a blob store and a
    nonce store on one state; in it, what a request may change, when a proof is admitted, and
    what each endpoint answers. An upload is shown in the weaker locale \<open>upload_service\<close>, of a store
    that may fail at any call or lose a reply, which \<open>service\<close> gives and which is interpreted on the
    database under every script of faults. \<open>Answers\<close>: what all answers share.
  \<^item> \<open>Config\<close>, \<open>Logger\<close>, \<open>Telemetry_Setup\<close>, \<open>Deployment\<close> (\<open>internal/config\<close>, \<open>internal/logger\<close>,
    \<open>internal/otel\<close>, \<open>internal/wallet\<close>, \<open>cmd/server/main.go\<close>): start-up and shutdown, and the two
    interpretations of \<open>service\<close>, in memory and on the database.
  \<^item> \<open>Go_Client\<close> (\<open>client/client.go\<close>), \<open>Client_Requests\<close>, \<open>Json_Text\<close>, \<open>Client_Wire\<close>,
    \<open>Client_Calls\<close>, \<open>Client_Queries\<close>: the client; that the server reads back what it escapes and
    that it reads back what the server prints; both joined by \<open>wire_Do\<close>; and what each of its
    methods returns from that server and leaves stored.
  \<^item> \<open>Samples\<close> holds concrete inputs, \<open>Store_Properties\<close>, \<open>Proof_Properties\<close>, \<open>Query_Properties\<close>,
    \<open>Client_Properties\<close> and this theory the properties.

  \<^bold>\<open>What is shown.\<close> Of the stores: both refine one specification, the PostgreSQL one
  with cut-off bodies taken for complete ones, and so give the same replies to other requests;
  the in-memory one is linearizable; on PostgreSQL an append and a prune are all or nothing
  under any script of faults, the tables keep their invariant as long as operations do not overlap, and an upload ends after a
  bounded number of calls. Of replicas on one database: overlapping uploads keep every log
  gapless, are acknowledged only where and as they are stored, and can all be answered; a
  download is whole under every interleaving of uploads, prunes and erasures. Of the protocol:
  the signed bytes determine the request, what \<open>Sign\<close> makes \<open>Verify\<close> takes, and a nonce is
  accepted once up to its expiry. Of the service: no history of
  requests changes an account without a proof of its key, a proof changes something at most
  once, an upload appends its entry whole or nothing whatever the database does, every endpoint answers an admitted request as its contract says, and every answer is well
  typed, carries the CORS headers and is reported to telemetry with its status. Of client and
  server together: an upload is stored byte for byte, a download returns the stored bytes,
  the lists are those of the server, a prune is refused with the server's reason or done, an
  erasure counts what it removes, and a body is never handed to the HTTP client
  twice. Where the code departs from what it means to do, the
  property states what it does (\<open>truncated_body_committed\<close>, \<open>erasure_overlaps_upload\<close>).

  \<^bold>\<open>Bounds and termination.\<close> No definition uses fuel: the loops over readers end because
  \<open>reads_left\<close> falls with every read that reports no error, the others are structural. Go's
  \<open>int\<close> is an unbounded integer together with the checks of its range where a value is
  converted; the columns' 32 bits are \<open>int4_ok\<close>. Bodies are shorter than 2 to the 51 bytes
  (\<open>chunkable\<close>), so that the index of a chunk, below 2 to the 31, fits its column. Names of accounts
  and devices are ASCII without NUL (\<open>name_ok\<close>), as the handlers enforce; of the digest of the
  predecessor, which they pass on unread, it is assumed where an upload is said to succeed.
  The interleaved transactions need neither bound.

  \<^bold>\<open>Parameters.\<close> The wallet SDK (\<open>wallet_api\<close>): the laws assumed of it are \<open>sdk_ok\<close> (a key has a
  printable, nonempty form), \<open>sdk_pair\<close> (what one side's key signs the other verifies) and
  \<open>sdk_client\<close>. Unforgeability is not assumed: safety is stated as the need of a proof
  that verifies. The chi router (\<open>mux\<close>): which pattern matches a path; only the joined
  properties assume that it matches the client's paths (\<open>routed\<close>). For the client, sending,
  the clock, random bytes, URL parsing and the reading of time stamps.

  \<^bold>\<open>Not modelled.\<close> The rendering of times in JSON (a parameter, which the client's lists need to
  be read back: \<open>carried\<close>) and the microsecond precision of TIMESTAMPTZ;
  durations and the instruments of telemetry; errors of writing a response; closing readers,
  rows and response bodies; the database's error texts and log lines; connection pools;
  requests that overlap in the middle of the HTTP layer (each request of a history has the
  stores to itself; the calls of the stores overlap in \<open>Concurrent_Memory\<close> and
  \<open>Concurrent_Postgres\<close>, where a statement that waits takes its snapshot when the wait is over, and
  the nonce statements, which commit one by one, are left out); a clock of the database
  other than the server's. The listening socket and signals enter \<open>main_stop\<close> as one event. The TypeScript
  client, the test client and the build configuration are no part of the Go program.
\<close>

section \<open>Accounts are separated by their keys\<close>

text \<open>
  C1: On a database that answers, no history of requests touches an account unless one of them
  carries a proof that verifies for that account's key: its logs are as they were, and the
  invariant of the tables holds.
\<close>

theorem pg_account_safety:
  assumes "sdk_ok sdk" and "pg_process_ok w" and "history_ok hist"
    and "\<forall>(now, r) \<in> set hist. \<not> speaks_for sdk r q"
  shows "pg_process_ok (snd (serve mux (pg_deps sdk cap port) key pg_process_at w hist)) \<and>
     pg_process_logs (snd (serve mux (pg_deps sdk cap port) key pg_process_at w hist)) q = pg_process_logs w q"
  by (rule pg_service.serve_account [OF assms(1) _ _ _ assms(2-4)]) simp_all

theorem pg_account_safety_witness:
  "pg_process_logs (snd (serve demo_mux (pg_deps (demo_wallet False) 10 80) ''02'' pg_process_at demo_pg
     [(5, demo_upload demo_data)])) ''02'' = pg_process_logs demo_pg ''02''"
  using pg_account_safety [OF demo_ok [of False] demo_states(3), of "[(5, demo_upload demo_data)]" "''02''"]
  by (simp add: history_ok_def time_zero_def demo_data_def demo_speaks)

text \<open>
  The same without a database: in the in-memory process an account changes only by requests
  that carry a proof of its key.
\<close>

theorem mem_account_safety:
  assumes "sdk_ok sdk" and "mem_process_ok w" and "history_ok hist"
    and "\<forall>(now, r) \<in> set hist. \<not> speaks_for sdk r q"
  shows "mem_process_ok (snd (serve mux (mem_deps sdk cap port) key mem_process_at w hist)) \<and>
     mem_process_logs (snd (serve mux (mem_deps sdk cap port) key mem_process_at w hist)) q = mem_process_logs w q"
  by (rule mem_service.serve_account [OF assms(1) _ _ _ assms(2-4)]) simp_all

theorem mem_account_safety_witness:
  "mem_process_logs (snd (serve demo_mux (mem_deps (demo_wallet False) 10 80) ''02'' mem_process_at demo_mem
     [(5, demo_upload demo_data)])) ''02'' = mem_process_logs demo_mem ''02''"
  using mem_account_safety [OF demo_ok [of False] demo_states(1), of "[(5, demo_upload demo_data)]" "''02''"]
  by (simp add: history_ok_def time_zero_def demo_data_def demo_speaks)

section \<open>Uploads and downloads\<close>

text \<open>
  C11: Whatever the database does, a request to the upload route ends in one of two ways, on tables
  that meet the invariant. Either the logs are as before and the answer is not 201. Or the
  request was admitted for its account, and one entry was appended at the next place of a log of
  the device in the path: exactly the bytes of the body, at most the cap and at least one, and
  hashing to the digest that was signed, except where the connection broke off in the middle of
  the body; and the answer is 201, or an error 409 or 500 if the database lost a reply.
\<close>

theorem pg_upload_outcome:
  assumes "sdk_ok sdk" and "rq_Method r = ''POST''"
    and "mux (map fst (routes (pg_deps sdk cap port) key)) ''POST'' (rq_EscapedPath r) = MuxHit ''/v1/log/{deviceId}'' params"
    and "pg_tables_ok s" and "arriving r" and "unsent w" and "within w"
    and "app mux (pg_deps sdk cap port) key s r w = (s', w', route)"
  shows "pg_process_logs s' = pg_process_logs s \<and> sent_status w' \<noteq> Some 201 \<or>
     (\<exists>pf i s1 k st. admits sdk pg_nonces s r pf i s1 \<and> key_Pseudonym k = ToDERHex sdk i \<and>
        key_DeviceID k = first_value params ''deviceId'' \<and>
        pg_process_logs s' = logs_append (pg_process_logs s) k st \<and>
        key_Seq k = int (length (log_of (pg_process_logs s) k)) + 1 \<and> s_prev st = first_value (Query r) ''prevSha256'' \<and>
        s_data st = content (rq_Body r) \<and> int (length (s_data st)) \<le> cap \<and> s_data st \<noteq> [] \<and>
        (ending (rq_Body r) = EOF \<and> sha256_hex (s_data st) = BodySha256 (p_Action pf) \<or>
         ending (rq_Body r) = ErrUnexpectedEOF) \<and>
        (sent_status w' = Some 201 \<or> pg_loses_reply s \<and> sent_status w' \<in> {Some 409, Some 500}))"
  using assms pg_uploads.upload_outcome [where d = "pg_deps sdk cap port" and mux = mux and key = key and params = params
      and r = r and s = s and w = w and s' = s' and w' = w' and route = route and sdk = sdk]
  by (simp add: arriving_def)

definition demo_faulty :: pg_process where
  "demo_faulty = ((fresh_database 1)\<lparr>db_faults := [Done, Done, Done, Done, Done, Lost (DriverError ''gone'')]\<rparr>, [])"

theorem pg_upload_outcome_witness:
  "\<exists>s' w' route. app demo_mux (pg_deps (demo_wallet False) 10 80) ''02'' demo_faulty (demo_upload demo_data) (Base new_response) =
       (s', w', route) \<and>
     (pg_process_logs s' = pg_process_logs demo_faulty \<and> sent_status w' \<noteq> Some 201 \<or>
      (\<exists>k st. pg_process_logs s' = logs_append (pg_process_logs demo_faulty) k st \<and> s_data st = demo_data \<and>
        sent_status w' \<in> {Some 201, Some 409, Some 500}))"
proof -
  obtain s' w' route where run: "app demo_mux (pg_deps (demo_wallet False) 10 80) ''02'' demo_faulty (demo_upload demo_data)
      (Base new_response) = (s', w', route)" by (metis prod_cases3)
  note r = demo_upload_facts
  have "arriving (demo_upload demo_data)" by simp
  moreover have "pg_tables_ok demo_faulty" by (simp add: pg_tables_ok_def demo_faulty_def fresh_database_def)
  ultimately show ?thesis
    using pg_upload_outcome [OF demo_ok r(3) _ _ _ r(6,7) run] r(1) run by (fastforce simp: demo_mux_def)
qed

text \<open>
  C15: An upload that meets the rules is taken: admitted, of the right content type, with valid
  parameters, the next sequence number, at most the cap, and hashing to the signed digest, it
  is appended with its claimed predecessor and answered 201, with its place, the digest of the
  stored bytes and their number.
\<close>

theorem pg_upload_accepted:
  assumes "sdk_ok sdk" and "rq_Method r = ''POST''" and "rq_ContentLength r \<le> cap"
    and "mux (map fst (routes (pg_deps sdk cap port) key)) ''POST'' (rq_EscapedPath r) = MuxHit ''/v1/log/{deviceId}'' params"
    and "admits sdk pg_nonces s r pf i s1"
    and "first_value (rq_Header r) ''Content-Type'' = ContentTypeOctetStream"
    and "deviceIDPattern (first_value params ''deviceId'')"
    and "positiveIntParam r ''seq'' = Some n" and "positiveIntParam r ''generation'' = Some g"
    and "name_ok (first_value (Query r) ''prevSha256'')"
    and "unsent w" and "within w" and "pg_process_ok s" and "arriving r"
    and "n = int (length (pg_process_logs s (ToDERHex sdk i) (first_value params ''deviceId'') g)) + 1"
    and "ending (rq_Body r) = EOF" and "content (rq_Body r) \<noteq> []"
    and "int (length (content (rq_Body r))) \<le> cap" and "sha256_hex (content (rq_Body r)) = BodySha256 (p_Action pf)"
  shows "\<exists>s2 w'. app mux (pg_deps sdk cap port) key s r w = (s2, w', ''/v1/log/{deviceId}'') \<and>
     sent_status w' = Some 201 \<and>
     bw_Body (base_of w') =
       [PieceJson (stored_payload n (sha256_hex (content (rq_Body r))) (int (length (content (rq_Body r)))))] \<and>
     pg_process_ok s2 \<and>
     pg_process_logs s2 = logs_append (pg_process_logs s)
       \<lparr>key_Pseudonym = ToDERHex sdk i, key_DeviceID = first_value params ''deviceId'',
        key_Generation = g, key_Seq = n\<rparr>
       \<lparr>s_data = content (rq_Body r), s_prev = first_value (Query r) ''prevSha256'', s_created = db_now (fst s1)\<rparr>"
  using assms pg_service.upload_accepted [where d = "pg_deps sdk cap port" and mux = mux and key = key and params = params
      and r = r and s = s and w = w and sdk = sdk and pf = pf and i = i and ?s1.0 = s1 and n = n and g = g]
  by simp

theorem pg_upload_accepted_witness:
  "\<exists>s2 w'. app demo_mux (pg_deps (demo_wallet False) 10 80) ''02'' demo_pg (demo_upload demo_data) (Base new_response) =
       (s2, w', ''/v1/log/{deviceId}'') \<and>
     sent_status w' = Some 201 \<and> map s_data (pg_process_logs s2 ''03'' demo_device 1) = [demo_data]"
proof -
  obtain s1 where adm: "admits (demo_wallet False) pg_nonces demo_pg (demo_upload demo_data) upload_proof True s1"
    using demo_pg_upload by metis
  note r = demo_upload_facts
  note dig = demo_digest
  obtain s2 w' where
    "app demo_mux (pg_deps (demo_wallet False) 10 80) ''02'' demo_pg (demo_upload demo_data) (Base new_response) =
       (s2, w', ''/v1/log/{deviceId}'')" "sent_status w' = Some 201"
    "pg_process_logs s2 = logs_append (pg_process_logs demo_pg)
       \<lparr>key_Pseudonym = ToDERHex (demo_wallet False) True,
        key_DeviceID = first_value [(''deviceId'', demo_device)] ''deviceId'', key_Generation = 1, key_Seq = 1\<rparr>
       \<lparr>s_data = demo_data, s_prev = '''', s_created = db_now (fst s1)\<rparr>"
    using pg_upload_accepted [OF demo_ok r(3) _ _ adm r(5) _ demo_params(1,2) _ r(6,7) demo_states(3),
        where mux = demo_mux and cap = 10 and port = 80 and key = "''02''" and params = "[(''deviceId'', demo_device)]"] r(1,2,4) dig
    by (simp add: demo_params demo_device_ok demo_states) blast
  then show ?thesis by (simp add: demo_states logs_append_def set_log_def log_of_def)
qed

text \<open>
  C28: A body longer than the cap is never stored, whatever the request says of it. One that declares
  its length is answered 413 before anything else is looked at and changes nothing at all; one
  that does not is answered 413 as well when the request is otherwise one to be taken: admitted,
  of the right content type, with valid parameters and the next sequence number.
\<close>

theorem pg_upload_too_large:
  assumes "sdk_ok sdk" and "rq_Method r = ''POST''"
    and "mux (map fst (routes (pg_deps sdk cap port) key)) ''POST'' (rq_EscapedPath r) = MuxHit ''/v1/log/{deviceId}'' params"
    and "unsent w" and "within w" and "pg_process_ok s" and "arriving r" and "int (length (content (rq_Body r))) > cap"
    and "app mux (pg_deps sdk cap port) key s r w = (s', w', route)"
  shows "pg_process_logs s' = pg_process_logs s \<and> sent_status w' \<noteq> Some 201 \<and>
     (rq_ContentLength r > cap \<longrightarrow> s' = s \<and> sent_status w' = Some 413) \<and>
     ((\<exists>pf i s1 g. admits sdk pg_nonces s r pf i s1 \<and>
         first_value (rq_Header r) ''Content-Type'' = ContentTypeOctetStream \<and>
         deviceIDPattern (first_value params ''deviceId'') \<and> positiveIntParam r ''generation'' = Some g \<and>
         positiveIntParam r ''seq'' =
           Some (int (length (pg_process_logs s (ToDERHex sdk i) (first_value params ''deviceId'') g)) + 1)) \<longrightarrow>
       sent_status w' = Some 413)"
proof (intro conjI impI)
  have "pg_tables_ok s" using assms(6) by (simp add: pg_tables_ok_def pg_process_ok_def pg_ok_def)
  from pg_uploads.upload_outcome [OF assms(1) pg_deps_sel(1-3) assms(2,3) this _ _ _ assms(4,5,9)] assms(7,8)
  show "pg_process_logs s' = pg_process_logs s" "sent_status w' \<noteq> Some 201" by (auto simp: arriving_def)
  have declared: "s' = s \<and> sent_status w' = Some 413" if "rq_ContentLength r > cap"
    using pg_uploads.declared_too_large [of "pg_deps sdk cap port" r w mux key s] that assms(2,4,5,9) by auto
  then show "rq_ContentLength r > cap \<Longrightarrow> s' = s" "rq_ContentLength r > cap \<Longrightarrow> sent_status w' = Some 413" by blast+
  assume "\<exists>pf i s1 g. admits sdk pg_nonces s r pf i s1 \<and>
         first_value (rq_Header r) ''Content-Type'' = ContentTypeOctetStream \<and>
         deviceIDPattern (first_value params ''deviceId'') \<and> positiveIntParam r ''generation'' = Some g \<and>
         positiveIntParam r ''seq'' =
           Some (int (length (pg_process_logs s (ToDERHex sdk i) (first_value params ''deviceId'') g)) + 1)"
  then obtain pf i s1 g where adm: "admits sdk pg_nonces s r pf i s1"
    and ct: "first_value (rq_Header r) ''Content-Type'' = ContentTypeOctetStream" "deviceIDPattern (first_value params ''deviceId'')"
    and num: "positiveIntParam r ''seq'' =
        Some (int (length (pg_process_logs s (ToDERHex sdk i) (first_value params ''deviceId'') g)) + 1)"
      "positiveIntParam r ''generation'' = Some g" by blast
  show "sent_status w' = Some 413"
  proof (cases "rq_ContentLength r \<le> cap")
    case True
    then have "rq_ContentLength r \<le> MaxBlobBytes (pg_deps sdk cap port)" "int (length (content (rq_Body r))) > MaxBlobBytes (pg_deps sdk cap port)"
      using assms(8) by simp_all
    from pg_service.upload_too_large [where mux = mux and key = key and d = "pg_deps sdk cap port" and r = r and params = params, OF assms(1) pg_deps_sel(1-3) assms(2) this(1) assms(3) adm ct num assms(4-7) refl this(2)] assms(9)
    show ?thesis by simp
  qed (use declared in simp)
qed

theorem pg_upload_too_large_witness:
  "\<exists>s' w' route. app demo_mux (pg_deps (demo_wallet False) 2 80) ''02'' demo_pg (demo_upload demo_data) (Base new_response) =
       (s', w', route) \<and>
     sent_status w' = Some 413 \<and> pg_process_logs s' = pg_process_logs demo_pg"
proof -
  obtain s' w' route where run: "app demo_mux (pg_deps (demo_wallet False) 2 80) ''02'' demo_pg (demo_upload demo_data)
      (Base new_response) = (s', w', route)" by (metis prod_cases3)
  obtain s1 where adm: "admits (demo_wallet False) pg_nonces demo_pg (demo_upload demo_data) upload_proof True s1"
    using demo_pg_upload by metis
  note r = demo_upload_facts
  have hit: "demo_mux (map fst (routes (pg_deps (demo_wallet False) 2 80) ''02'')) ''POST'' (rq_EscapedPath (demo_upload demo_data)) =
      MuxHit ''/v1/log/{deviceId}'' [(''deviceId'', demo_device)]" by (simp add: demo_mux_def)
  have over: "int (length (content (rq_Body (demo_upload demo_data)))) > 2" by (simp add: r(1) demo_data_def)
  have arr: "arriving (demo_upload demo_data)" by simp
  have fv: "first_value [(''deviceId'', demo_device)] ''deviceId'' = demo_device" by (simp add: first_value_def)
  from pg_upload_too_large [OF demo_ok r(3) hit r(6,7) demo_states(3) arr over run, unfolded fv] adm r(5) demo_params(1,2) demo_device_ok run
  show ?thesis by (fastforce simp: demo_states)
qed

text \<open>
  C18: An admitted download with valid parameters is answered with the entry at that place of the
  account's own log: status 200, its exact length announced, its bytes as the only thing
  written; or with 404 when the log is shorter. The logs stay as they are.
\<close>

theorem pg_download:
  assumes "sdk_ok sdk" and "rq_Method r = ''GET''" and "rq_ContentLength r \<le> cap"
    and "mux (map fst (routes (pg_deps sdk cap port) key)) ''GET'' (rq_EscapedPath r) =
      MuxHit ''/v1/log/{deviceId}/{seq}'' params"
    and "admits sdk pg_nonces s r pf i s1"
    and "deviceIDPattern (first_value params ''deviceId'')"
    and "parsePathInt (first_value params ''seq'') = Some n" and "positiveIntParam r ''generation'' = Some g"
    and "unsent w" and "within w" and "pg_process_ok s"
    and "L = pg_process_logs s (ToDERHex sdk i) (first_value params ''deviceId'') g"
  shows "\<exists>s2 w'. app mux (pg_deps sdk cap port) key s r w = (s2, w', ''/v1/log/{deviceId}/{seq}'') \<and>
     pg_process_ok s2 \<and> pg_process_logs s2 = pg_process_logs s \<and>
     (if n \<le> int (length L)
      then let data = s_data (L ! nat (n - 1));
               hdr = AList.update ''Content-Length'' (format_int (int (length data)))
                       (AList.update ''Content-Type'' ContentTypeOctetStream (bw_Header (base_of (cors_headers w))))
           in base_of w' = \<lparr>bw_Header = hdr, bw_Sent = Some (200, hdr), bw_Body = [PieceBytes data]\<rparr>
      else sent_status w' = Some 404)"
  by (rule pg_service.download_handled [where d = "pg_deps sdk cap port" and mux = mux and key = key and params = params,
      OF assms(1) _ _ _ assms(2) _ assms(4-12)])
    (use assms(3) in simp_all)

theorem pg_download_witness:
  "\<exists>s2 w'. app demo_mux (pg_deps (demo_wallet False) 10 80) ''02'' demo_pg demo_download (Base new_response) =
       (s2, w', ''/v1/log/{deviceId}/{seq}'') \<and>
     sent_status w' = Some 404 \<and> pg_process_logs s2 = pg_process_logs demo_pg"
proof -
  obtain s1 where c: "ns_Consume pg_nonces demo_pg (b64_encode [8]) 120000000000 = (Inr True, s1)"
    using demo_pg_consume by blast
  have r: "rq_Method demo_download = ''GET''" "rq_ContentLength demo_download \<le> 10"
    "unsent (Base new_response)" "within (Base new_response)"
    by (simp_all add: demo_download_def demo_request_def new_response_def)
  show ?thesis
    using pg_download [OF demo_ok r(1,2) _ download_admitted [OF c] _ _ demo_params(3) r(3,4) demo_states(3) refl,
        where mux = demo_mux and port = 80 and key = "''02''" and n = 1
          and params = "[(''deviceId'', demo_device), (''seq'', ''1'')]"]
    by (simp add: demo_params demo_device_ok demo_states) blast
qed

text \<open>
  C3: A proof changes something at most once. After a request with a proof changed any log of the
  database, and after any history of requests whose clock readings are not past that proof's
  expiry, a request that presents the same nonce (with whatever proof, for whatever route)
  leaves every log as it is.
\<close>

theorem pg_replay_refused:
  assumes "sdk_ok sdk" and "pg_process_ok s" and "arriving r"
    and "app mux (pg_deps sdk cap port) key s r w = (s1, w1, route1)" and "pg_process_logs s1 \<noteq> pg_process_logs s"
    and "Decode (first_value (rq_Header r) Header) = Inr pf"
    and "history_ok hist" and "\<forall>(now, r) \<in> set hist. now \<le> p_ExpiresAt pf * 1000000"
    and "arriving r'" and "Decode (first_value (rq_Header r') Header) = Inr pf'" and "p_Nonce pf' = p_Nonce pf"
    and "time_zero < now" and "now \<le> p_ExpiresAt pf * 1000000"
    and "s2 = snd (serve mux (pg_deps sdk cap port) key pg_process_at s1 hist)"
    and "app mux (pg_deps sdk cap port) key (pg_process_at s2 now) r' w' = (s3, w3, route3)"
  shows "pg_process_logs s3 = pg_process_logs s2"
  by (rule pg_service.serve_replay [OF assms(1) _ _ _ assms(2-15)]) simp_all

theorem pg_replay_refused_witness:
  "\<exists>s1 w1 s3 w3 route.
     app demo_mux (pg_deps (demo_wallet False) 10 80) ''02'' demo_pg (demo_upload demo_data) (Base new_response) =
       (s1, w1, ''/v1/log/{deviceId}'') \<and> pg_process_logs s1 \<noteq> pg_process_logs demo_pg \<and>
     app demo_mux (pg_deps (demo_wallet False) 10 80) ''02'' (pg_process_at s1 7) (demo_upload demo_data) (Base new_response) =
       (s3, w3, route) \<and> pg_process_logs s3 = pg_process_logs s1"
proof -
  obtain a where adm: "admits (demo_wallet False) pg_nonces demo_pg (demo_upload demo_data) upload_proof True a"
    using demo_pg_upload by metis
  have pf: "Decode (first_value (rq_Header (demo_upload demo_data)) Header) = Inr upload_proof"
    "p_ExpiresAt upload_proof = 120000"
    using adm by (simp_all add: admits_def upload_proof_def demo_proof_def)
  obtain s1 w1 where one:
    "app demo_mux (pg_deps (demo_wallet False) 10 80) ''02'' demo_pg (demo_upload demo_data) (Base new_response) =
       (s1, w1, ''/v1/log/{deviceId}'')" "map s_data (pg_process_logs s1 ''03'' demo_device 1) = [demo_data]"
    using demo_pg_stores by metis
  then have ne: "pg_process_logs s1 \<noteq> pg_process_logs demo_pg" by (auto simp: demo_states)
  obtain s3 w3 route where two:
    "app demo_mux (pg_deps (demo_wallet False) 10 80) ''02'' (pg_process_at s1 7) (demo_upload demo_data) (Base new_response) =
       (s3, w3, route)" by (metis prod_cases3)
  have arr: "arriving (demo_upload demo_data)" by simp
  have "pg_process_logs s3 = pg_process_logs s1"
    by (rule pg_replay_refused [OF demo_ok demo_states(3) arr one(1) ne pf(1) _ _ arr pf(1) refl _ _ _ two,
          where hist = "[]"])
      (simp_all add: history_ok_def time_zero_def pf(2))
  with one(1) ne two show ?thesis by blast
qed

section \<open>Answers\<close>

text \<open>
  C29: Every request is answered, whatever the stores, the database's faults and the routing do:
  one status goes out with the CORS headers, and (but for health checks, which are not
  reported) telemetry gets exactly one record, with the status that went out, counted as an
  error from 500, under a route label from the fixed set of patterns.
\<close>

theorem every_request_answered:
  assumes "NewRouter mux d = Inr h" and "sdk_ok (Wallet d)" and "bw_Sent b = None"
    and "h (s, tel) r (Base b) = ((s', tel'), w', route)"
  shows "\<exists>code hs. bw_Sent (base_of w') = Some (code, hs) \<and> has_cors hs \<and>
     (if rq_Path r = ''/health'' then tel' = tel
      else \<exists>rec. tel' = tel @ [rec] \<and> tel_Status rec = code \<and> (tel_Error rec \<longleftrightarrow> code \<ge> 500) \<and>
        tel_Method rec = rq_Method r \<and> tel_Route rec \<in> insert ''unmatched'' route_labels)"
proof -
  from assms(1,4) obtain key where "Telemetry (app mux d key) (s, tel) r (Base b) = ((s', tel'), w', route)"
    by (auto simp: NewRouter_def split: option.splits)
  from Telemetry_answered [OF assms(2) this assms(3)] show ?thesis .
qed

theorem every_request_answered_witness:
  "\<exists>h st w' route. NewRouter demo_mux (pg_deps (demo_wallet False) 10 80) = Inr h \<and>
     h (demo_pg, []) demo_download (Base new_response) = (st, w', route) \<and> length (snd st) = 1"
proof -
  obtain h where h: "NewRouter demo_mux (pg_deps (demo_wallet False) 10 80) = Inr h"
    by (simp add: NewRouter_def demo_wallet_def)
  obtain s' tel' w' route where run: "h (demo_pg, []) demo_download (Base new_response) = ((s', tel'), w', route)"
    by (metis prod.exhaust)
  have "rq_Path demo_download \<noteq> ''/health''" by (simp add: demo_download_def demo_request_def)
  with every_request_answered [OF h _ _ run] demo_ok
  have "length tel' = 1" by (auto simp: new_response_def)
  with h run show ?thesis by auto
qed

text \<open>
  C30: Every answer is well typed, whatever the stores, the database's faults and the routing do: an
  empty body with 200, 204 or 405, the bytes of a blob with 200, or one JSON object, labelled as
  JSON, which is a success with 200, 201 or the health report of 503, and otherwise the error
  envelope with a code that belongs to the status.
\<close>

theorem answers_typed:
  assumes "NewRouter mux d = Inr h" and "sdk_ok (Wallet d)" and "bw_Sent b = None" and "bw_Body b = []"
    and "h st r (Base b) = (st', w', route)"
  shows "\<exists>status hs. bw_Sent (base_of w') = Some (status, hs) \<and>
     (status \<in> {200, 204, 405} \<and> bw_Body (base_of w') = [] \<or>
      status = 200 \<and> (\<exists>bs. bw_Body (base_of w') = [PieceBytes bs]) \<or>
      (\<exists>payload. bw_Body (base_of w') = [PieceJson payload] \<and>
         map_of hs ''Content-Type'' = Some ''application/json'' \<and>
         (status \<in> {200, 201, 503} \<and> (\<exists>fs. payload = PObj fs \<and> ''code'' \<notin> fst ` set fs) \<or>
          (\<exists>code t. (status, code) \<in> set error_codes \<and> payload = error_payload code t))))"
proof -
  obtain s tel where st: "st = (s, tel)" by (cases st)
  from assms(1,5) st obtain key where "Telemetry (app mux d key) (s, tel) r (Base b) = (st', w', route)"
    by (auto simp: NewRouter_def split: option.splits)
  from Telemetry_typed [OF assms(2) this assms(3,4)] show ?thesis
    unfolding answer_typed_def reply_typed_def by (clarsimp split: option.splits)
qed

theorem answers_typed_witness:
  "\<exists>h st w' route. NewRouter demo_mux (pg_deps (demo_wallet False) 10 80) = Inr h \<and>
     h (demo_pg, []) (demo_download\<lparr>rq_Header := []\<rparr>) (Base new_response) = (st, w', route) \<and>
     bw_Sent (base_of w') \<noteq> None \<and> length (bw_Body (base_of w')) \<le> 1"
proof -
  obtain h where h: "NewRouter demo_mux (pg_deps (demo_wallet False) 10 80) = Inr h"
    by (simp add: NewRouter_def demo_wallet_def)
  obtain st w' route where run: "h (demo_pg, []) (demo_download\<lparr>rq_Header := []\<rparr>) (Base new_response) = (st, w', route)"
    by (metis prod_cases3)
  from answers_typed [OF h _ _ _ run] have "bw_Sent (base_of w') \<noteq> None \<and> length (bw_Body (base_of w')) \<le> 1"
    by (auto simp: demo_ok new_response_def)
  with h run show ?thesis by blast
qed

end
